(* ===== verification/Java_Prelude.thy ===== *)
theory Java_Prelude
  imports Main "HOL-Library.Sublist"
begin

text \<open>
  Shared vocabulary of the development: the Java values and library calls that the modelled
  classes use.  A reference that may be \<open>null\<close> is an \<open>option\<close>; a
  \<^verbatim>\<open>String\<close> is a HOL \<open>string\<close> (its characters stand for the
  code units of the Latin-1 range); an exception is a value of \<open>java_exn\<close> on the left of
  a sum; a Java \<^verbatim>\<open>int\<close> is an \<open>int\<close> that is wrapped to 32 bits
  with \<open>int32\<close> wherever the code computes with it.
\<close>

named_theorems java_string \<open>evaluation rules of the string operations\<close>
named_theorems java_list \<open>facts on the list operations of java.util\<close>

type_synonym jstring = "string option"

datatype java_exn =
    IndexOutOfBounds
  | StringIndexOutOfBounds
  | NullPointer
  | NumberFormat
  | ClassCast
  | IllegalArgument string
  | IllegalState string
  | IOError string
  | Business string
  | NoResult string
  | Timeout string
  | Unsupported string

section \<open>Lists: java.util.List\<close>

text \<open>\<^verbatim>\<open>List.indexOf\<close>: the first position, \<open>-1\<close> when absent.\<close>

fun index_from :: "int \<Rightarrow> 'a \<Rightarrow> 'a list \<Rightarrow> int" where
  "index_from i x [] = -1"
| "index_from i x (y # ys) = (if x = y then i else index_from (i + 1) x ys)"

definition index_of :: "'a \<Rightarrow> 'a list \<Rightarrow> int" where
  "index_of x xs = index_from 0 x xs"

lemma index_from_absent [java_list]: "x \<notin> set xs \<Longrightarrow> index_from i x xs = -1"
  by (induction xs arbitrary: i) auto

lemma index_from_present:
  "x \<in> set xs \<Longrightarrow> i \<le> index_from i x xs \<and> index_from i x xs < i + int (length xs)
     \<and> xs ! nat (index_from i x xs - i) = x"
proof (induction xs arbitrary: i)
  case Nil
  then show ?case by simp
next
  case (Cons y ys)
  show ?case
  proof (cases "x = y")
    case True
    then show ?thesis by simp
  next
    case False
    with Cons.prems have "x \<in> set ys" by simp
    note IH = Cons.IH [OF this, of "i + 1"]
    let ?k = "index_from (i + 1) x ys"
    from IH have "nat (?k - i) = Suc (nat (?k - (i + 1)))" by linarith
    with IH False show ?thesis by simp
  qed
qed

lemma index_of_absent [java_list]: "x \<notin> set xs \<Longrightarrow> index_of x xs = -1"
  by (simp add: index_of_def index_from_absent)

lemma index_of_present:
  "x \<in> set xs \<Longrightarrow> 0 \<le> index_of x xs \<and> index_of x xs < int (length xs) \<and> xs ! nat (index_of x xs) = x"
  using index_from_present [of x xs 0] by (simp add: index_of_def)

lemma index_of_range: "index_of x xs = -1 \<or> (0 \<le> index_of x xs \<and> index_of x xs < int (length xs))"
  using index_of_absent index_of_present by metis

text \<open>\<^verbatim>\<open>List.remove(Object)\<close> is \<open>remove1\<close>;
  \<^verbatim>\<open>List.subList(from, to)\<close> for indices in range:\<close>

definition sub_list :: "nat \<Rightarrow> nat \<Rightarrow> 'a list \<Rightarrow> 'a list" where
  "sub_list from_ix to_ix xs = drop from_ix (take to_ix xs)"

text \<open>
  Loops whose body may throw: \<open>any_m\<close> is a search that returns true at the first hit,
  \<open>map_m\<close> a loop that collects one result per element.
\<close>

fun any_m :: "('a \<Rightarrow> java_exn + bool) \<Rightarrow> 'a list \<Rightarrow> java_exn + bool" where
  "any_m f [] = Inr False"
| "any_m f (x # xs) =
     (case f x of Inl e \<Rightarrow> Inl e | Inr b \<Rightarrow> (if b then Inr True else any_m f xs))"

fun map_m :: "('a \<Rightarrow> java_exn + 'b) \<Rightarrow> 'a list \<Rightarrow> java_exn + 'b list" where
  "map_m f [] = Inr []"
| "map_m f (x # xs) =
     (case f x of
        Inl e \<Rightarrow> Inl e
      | Inr y \<Rightarrow> (case map_m f xs of Inl e \<Rightarrow> Inl e | Inr ys \<Rightarrow> Inr (y # ys)))"

lemma any_m_cong [cong]:
  "xs = ys \<Longrightarrow> (\<And>x. x \<in> set ys \<Longrightarrow> f x = g x) \<Longrightarrow> any_m f xs = any_m g ys"
  by (induction xs arbitrary: ys) (auto split: sum.splits)

lemma any_m_total [java_list]: "any_m (\<lambda>x. Inr (P x)) xs = Inr (\<exists>x \<in> set xs. P x)"
  by (induction xs) auto

lemma any_m_result: "any_m f xs = Inr b \<Longrightarrow> b \<longleftrightarrow> (\<exists>x \<in> set xs. f x = Inr True)"
  by (induction xs) (auto split: sum.splits if_splits)

lemma map_m_total [java_list]: "map_m (\<lambda>x. Inr (f x)) xs = Inr (map f xs)"
  by (induction xs) auto

lemma map_m_Inr: "map_m f xs = Inr ys \<longleftrightarrow> map f xs = map Inr ys"
proof
  show "map_m f xs = Inr ys \<Longrightarrow> map f xs = map Inr ys"
    by (induction xs arbitrary: ys) (auto split: sum.splits)
  show "map f xs = map Inr ys \<Longrightarrow> map_m f xs = Inr ys"
    by (induction xs arbitrary: ys) auto
qed

section \<open>Strings: java.lang.String\<close>

definition ends_with :: "string \<Rightarrow> string \<Rightarrow> bool" where
  "ends_with s e = prefix (rev e) (rev s)"

lemma ends_with_suffix: "ends_with s e = suffix e s"
  by (simp add: ends_with_def suffix_to_prefix)

text \<open>\<^verbatim>\<open>String.contains\<close> and \<^verbatim>\<open>String.indexOf(int)\<close>.\<close>

fun contains_str :: "string \<Rightarrow> string \<Rightarrow> bool" where
  "contains_str [] p = (p = [])"
| "contains_str (c # cs) p = (prefix p (c # cs) \<or> contains_str cs p)"

text \<open>
  \<^verbatim>\<open>String.split\<close> with a separator of one literal character: the pieces between the
  separators with the trailing empty pieces removed; a string without the separator is its only
  piece, even when it is empty.
\<close>

fun pieces :: "'c \<Rightarrow> 'c list \<Rightarrow> 'c list list" where
  "pieces sep [] = [[]]"
| "pieces sep (c # cs) =
     (if c = sep then [] # pieces sep cs
      else (case pieces sep cs of p # ps \<Rightarrow> (c # p) # ps | [] \<Rightarrow> [[c]]))"

definition drop_trailing_empty :: "'c list list \<Rightarrow> 'c list list" where
  "drop_trailing_empty ps = rev (dropWhile (\<lambda>p. p = []) (rev ps))"

definition split_str :: "'c \<Rightarrow> 'c list \<Rightarrow> 'c list list" where
  "split_str sep s = (if sep \<in> set s then drop_trailing_empty (pieces sep s) else [s])"

fun join_str :: "'c list \<Rightarrow> 'c list list \<Rightarrow> 'c list" where
  "join_str sep [] = []"
| "join_str sep [p] = p"
| "join_str sep (p # ps) = p @ sep @ join_str sep ps"

lemma pieces_nonempty [simp]: "pieces sep s \<noteq> []"
  by (induction s) (auto split: list.splits)

lemma pieces_no_sep: "sep \<notin> set s \<Longrightarrow> pieces sep s = [s]"
  by (induction s) auto

lemma pieces_append: "sep \<notin> set s \<Longrightarrow> pieces sep (s @ sep # t) = s # pieces sep t"
  by (induction s) auto

lemma pieces_elements: "p \<in> set (pieces sep s) \<Longrightarrow> sep \<notin> set p"
proof (induction s arbitrary: p)
  case Nil
  then show ?case by simp
next
  case (Cons c cs)
  obtain q qs where q: "pieces sep cs = q # qs"
    using pieces_nonempty by (meson neq_Nil_conv)
  with Cons show ?case by (auto split: if_splits)
qed

lemma pieces_join:
  "ps \<noteq> [] \<Longrightarrow> \<forall>p \<in> set ps. sep \<notin> set p \<Longrightarrow> pieces sep (join_str [sep] ps) = ps"
proof (induction ps rule: induct_list012)
  case 1
  then show ?case by simp
next
  case (2 p)
  then show ?case by (simp add: pieces_no_sep)
next
  case (3 p q ps)
  then show ?case by (simp add: pieces_append)
qed

lemma drop_trailing_empty_id [java_string]: "ps = [] \<or> last ps \<noteq> [] \<Longrightarrow> drop_trailing_empty ps = ps"
  by (cases ps rule: rev_cases) (auto simp: drop_trailing_empty_def)

lemma drop_trailing_empty_last: "drop_trailing_empty ps = [] \<or> last (drop_trailing_empty ps) \<noteq> []"
proof (cases "dropWhile (\<lambda>p. p = []) (rev ps)")
  case Nil
  then show ?thesis by (simp add: drop_trailing_empty_def)
next
  case (Cons q qs)
  then have "q \<noteq> []" by (metis (mono_tags, lifting) dropWhile_eq_Cons_conv)
  with Cons show ?thesis by (simp add: drop_trailing_empty_def)
qed

lemma split_join:
  assumes "length ps \<ge> 2" and "\<forall>p \<in> set ps. sep \<notin> set p" and "last ps \<noteq> []"
  shows "split_str sep (join_str [sep] ps) = ps"
proof -
  from assms(1) obtain p q qs where ps: "ps = p # q # qs"
    by (metis One_nat_def Suc_le_length_iff numeral_2_eq_2)
  then have "sep \<in> set (join_str [sep] ps)" by simp
  moreover have "pieces sep (join_str [sep] ps) = ps"
    using assms(2) ps by (intro pieces_join) simp_all
  ultimately show ?thesis
    using assms(3) by (simp add: split_str_def drop_trailing_empty_id)
qed

text \<open>Whitespace, blank and empty as in \<^verbatim>\<open>Character.isWhitespace\<close> and commons-lang
  \<^verbatim>\<open>StringUtils\<close>; \<^verbatim>\<open>String.trim\<close> removes code units up to 32.\<close>

definition code :: "char \<Rightarrow> nat" where
  "code c = of_char c"

definition java_ws :: "char \<Rightarrow> bool" where
  "java_ws c = (code c \<in> {9, 10, 11, 12, 13, 28, 29, 30, 31, 32})"

definition is_blank :: "jstring \<Rightarrow> bool" where
  "is_blank s = (case s of None \<Rightarrow> True | Some t \<Rightarrow> list_all java_ws t)"

definition is_empty_str :: "jstring \<Rightarrow> bool" where
  "is_empty_str s = (s = None \<or> s = Some [])"

definition trim :: "string \<Rightarrow> string" where
  "trim s = rev (dropWhile (\<lambda>c. code c \<le> 32) (rev (dropWhile (\<lambda>c. code c \<le> 32) s)))"

definition trim_to_null :: "jstring \<Rightarrow> jstring" where
  "trim_to_null s =
     (case s of None \<Rightarrow> None | Some t \<Rightarrow> (if trim t = [] then None else Some (trim t)))"

definition is_digit :: "char \<Rightarrow> bool" where
  "is_digit c = (48 \<le> code c \<and> code c \<le> 57)"

definition is_upper :: "char \<Rightarrow> bool" where
  "is_upper c = (65 \<le> code c \<and> code c \<le> 90)"

definition is_lower :: "char \<Rightarrow> bool" where
  "is_lower c = (97 \<le> code c \<and> code c \<le> 122)"

definition is_letter :: "char \<Rightarrow> bool" where
  "is_letter c = (is_upper c \<or> is_lower c)"

definition to_upper :: "string \<Rightarrow> string" where
  "to_upper = map (\<lambda>c. if is_lower c then char_of (code c - 32) else c)"

definition to_lower :: "string \<Rightarrow> string" where
  "to_lower = map (\<lambda>c. if is_upper c then char_of (code c + 32) else c)"

lemmas [java_string] =
  ends_with_def split_str_def drop_trailing_empty_def code_def java_ws_def is_blank_def
  is_empty_str_def trim_def is_digit_def is_upper_def is_lower_def is_letter_def
  to_upper_def to_lower_def

section \<open>Numbers: java.lang.Integer\<close>

text \<open>Two's complement wrap-around of a Java \<^verbatim>\<open>int\<close>.\<close>

definition int32 :: "int \<Rightarrow> int" where
  "int32 x = (x + 2 ^ 31) mod 2 ^ 32 - 2 ^ 31"

definition is_int32 :: "int \<Rightarrow> bool" where
  "is_int32 x = (- (2 ^ 31) \<le> x \<and> x < 2 ^ 31)"

lemma int32_id [simp]: "is_int32 x \<Longrightarrow> int32 x = x"
  by (simp add: int32_def is_int32_def)

lemma int32_range: "is_int32 (int32 x)"
proof -
  have "0 \<le> (x + 2 ^ 31) mod 2 ^ 32" and "(x + 2 ^ 31) mod 2 ^ 32 < 2 ^ 32"
    by simp_all
  then show ?thesis by (simp add: int32_def is_int32_def)
qed

definition digit_char :: "nat \<Rightarrow> char" where
  "digit_char d = char_of (48 + d)"

fun show_nat :: "nat \<Rightarrow> string" where
  "show_nat n = (if n < 10 then [digit_char n] else show_nat (n div 10) @ [digit_char (n mod 10)])"

declare show_nat.simps [simp del]

definition show_int :: "int \<Rightarrow> string" where
  "show_int i = (if i < 0 then CHR ''-'' # show_nat (nat (- i)) else show_nat (nat i))"

definition read_nat :: "string \<Rightarrow> nat" where
  "read_nat s = foldl (\<lambda>n c. 10 * n + (code c - 48)) 0 s"

text \<open>\<^verbatim>\<open>Integer.parseInt\<close>: an optional sign and at least one digit, in the range of
  \<^verbatim>\<open>int\<close>; otherwise a \<^verbatim>\<open>NumberFormatException\<close>, here \<open>None\<close>.\<close>

definition parse_int :: "string \<Rightarrow> int option" where
  "parse_int s =
     (let (neg, ds) = (case s of
              c # cs \<Rightarrow> (if c = CHR ''-'' then (True, cs) else if c = CHR ''+'' then (False, cs) else (False, s))
            | [] \<Rightarrow> (False, s));
          v = (if neg then - int (read_nat ds) else int (read_nat ds))
      in if ds \<noteq> [] \<and> list_all is_digit ds \<and> is_int32 v then Some v else None)"

lemma code_digit_char [simp]: "d < 10 \<Longrightarrow> code (digit_char d) = 48 + d"
  by (simp add: code_def digit_char_def)

lemma digit_char_is_digit [simp]: "d < 10 \<Longrightarrow> is_digit (digit_char d)"
  by (simp add: is_digit_def)

lemma show_nat_digits: "list_all is_digit (show_nat n)"
proof (induction n rule: show_nat.induct)
  case (1 n)
  then show ?case by (subst show_nat.simps) simp
qed

lemma show_nat_nonempty [simp]: "show_nat n \<noteq> []"
  by (subst show_nat.simps) simp

lemma read_show_nat [simp]: "read_nat (show_nat n) = n"
proof (induction n rule: show_nat.induct)
  case (1 n)
  then show ?case by (subst show_nat.simps) (simp add: read_nat_def)
qed

lemma is_digit_not_sign: "is_digit c \<Longrightarrow> c \<noteq> CHR ''-'' \<and> c \<noteq> CHR ''+''"
  by (auto simp: is_digit_def code_def)

lemma parse_show_nat:
  assumes "int n < 2 ^ 31"
  shows "parse_int (show_nat n) = Some (int n)"
proof -
  obtain c cs where s: "show_nat n = c # cs" using show_nat_nonempty by (meson neq_Nil_conv)
  moreover have "is_digit c" using show_nat_digits [of n] s by simp
  ultimately show ?thesis
    using is_digit_not_sign [of c] show_nat_digits [of n] read_show_nat [of n] assms
    by (simp add: parse_int_def is_int32_def)
qed

lemma parse_show_int: "is_int32 i \<Longrightarrow> parse_int (show_int i) = Some i"
proof (cases "i < 0")
  case True
  assume r: "is_int32 i"
  have "list_all is_digit (show_nat (nat (- i)))" by (rule show_nat_digits)
  with True r show ?thesis by (simp add: show_int_def parse_int_def)
next
  case False
  assume r: "is_int32 i"
  then have "parse_int (show_nat (nat i)) = Some (int (nat i))"
    using False by (intro parse_show_nat) (simp add: is_int32_def)
  with False show ?thesis by (simp add: show_int_def)
qed

lemma show_int_nonempty [simp]: "show_int i \<noteq> []"
  by (simp add: show_int_def)

section \<open>Associations: java.util.Map\<close>

text \<open>An insertion-ordered map as an association list with distinct keys.\<close>

definition assoc_get :: "('k \<times> 'v) list \<Rightarrow> 'k \<Rightarrow> 'v option" where
  "assoc_get m k = map_of m k"

fun assoc_put :: "'k \<Rightarrow> 'v \<Rightarrow> ('k \<times> 'v) list \<Rightarrow> ('k \<times> 'v) list" where
  "assoc_put k v [] = [(k, v)]"
| "assoc_put k v ((k', v') # m) = (if k = k' then (k, v) # m else (k', v') # assoc_put k v m)"

definition assoc_remove :: "'k \<Rightarrow> ('k \<times> 'v) list \<Rightarrow> ('k \<times> 'v) list" where
  "assoc_remove k m = filter (\<lambda>(k', _). k' \<noteq> k) m"

lemma assoc_get_put [simp]: "assoc_get (assoc_put k v m) k' = (if k' = k then Some v else assoc_get m k')"
  by (induction m) (auto simp: assoc_get_def)

lemma assoc_get_remove [simp]: "assoc_get (assoc_remove k m) k' = (if k' = k then None else assoc_get m k')"
  by (induction m) (auto simp: assoc_get_def assoc_remove_def)

lemma assoc_put_keys: "fst ` set (assoc_put k v m) = insert k (fst ` set m)"
proof (induction m)
  case (Cons p m)
  then show ?case by (cases p) (simp add: insert_commute)
qed simp

lemma assoc_put_distinct [intro]: "distinct (map fst m) \<Longrightarrow> distinct (map fst (assoc_put k v m))"
proof (induction m)
  case (Cons p m)
  then show ?case by (cases p) (simp add: assoc_put_keys)
qed simp

text \<open>Putting the present values of a list of names into a map, under keys that do not collide.\<close>

definition put_some :: "('n \<Rightarrow> 'k) \<Rightarrow> ('n \<Rightarrow> 'v option) \<Rightarrow> 'n \<Rightarrow> ('k \<times> 'v) list \<Rightarrow> ('k \<times> 'v) list" where
  "put_some key val n m = (case val n of None \<Rightarrow> m | Some x \<Rightarrow> assoc_put (key n) x m)"

lemma assoc_get_put_some [simp]:
  "assoc_get (put_some key val n m) k = (if k = key n \<and> val n \<noteq> None then val n else assoc_get m k)"
  by (auto simp: put_some_def split: option.splits)

lemma fold_put_some_other:
  "k \<notin> key ` set ns \<Longrightarrow> assoc_get (fold (put_some key val) ns m) k = assoc_get m k"
  by (induction ns arbitrary: m) auto

lemma fold_put_some_kept:
  "inj_on key (insert n (set ns)) \<Longrightarrow> assoc_get m (key n) = val n \<Longrightarrow>
     assoc_get (fold (put_some key val) ns m) (key n) = val n"
proof (induction ns arbitrary: m)
  case (Cons a ns)
  have "key n = key a \<longleftrightarrow> n = a" using Cons.prems(1) by (metis inj_onD insertI1 insertI2 list.set_intros(1))
  moreover have "inj_on key (insert n (set ns))" using Cons.prems(1) by (rule inj_on_subset) auto
  ultimately show ?case using Cons by simp
qed simp

lemma fold_put_some:
  "inj_on key (set ns) \<Longrightarrow> n \<in> set ns \<Longrightarrow> assoc_get m (key n) = None \<Longrightarrow>
     assoc_get (fold (put_some key val) ns m) (key n) = val n"
proof (induction ns arbitrary: m)
  case (Cons a ns)
  have inj: "inj_on key (set ns)" using Cons.prems(1) by simp
  have eq: "key n = key a \<longleftrightarrow> n = a"
    using inj_on_eq_iff [OF Cons.prems(1,2)] by (metis list.set_intros(1))
  show ?case
  proof (cases "n = a")
    case True
    then have "inj_on key (insert n (set ns))" using Cons.prems(1) by simp
    with True Cons.prems(3) show ?thesis by (simp add: fold_put_some_kept)
  next
    case False
    with Cons inj eq show ?thesis by simp
  qed
qed simp

end
