(* ===== verification/Path_Info.thy ===== *)
theory Path_Info
  imports Java_Prelude
begin

text \<open>
  \<^verbatim>\<open>org.appng.api.PathInfo\<close> (appng-api): the parsed servlet path of a request.  The
  record has the fields of the class; \<open>new_path_info\<close> is the constructor, which calls
  \<open>parse\<close>.  The configured paths and directories are not null, as the platform configures
  them.  Where \<^verbatim>\<open>substring(1)\<close> of an empty manager or service path throws inside the
  constructor, and where \<^verbatim>\<open>pathElements.get\<close> leaves the list, the constructor returns the
  exception.
\<close>

section \<open>State\<close>

record path_info =
  pi_host :: string
  pi_domain :: string
  pi_current_site :: string
  pi_servlet_path :: string
  pi_gui_path :: string
  pi_service_path :: string
  pi_blob_directories :: "string list"
  pi_document_directories :: "string list"
  pi_repository_path :: string
  pi_monitoring_path :: string
  pi_extension :: string
  pi_root_path :: string
  pi_application_name :: jstring
  pi_action_name :: jstring
  pi_action_value :: jstring
  pi_elements :: "string list"
  pi_jsp_url_params :: "string list option"
  pi_site_idx :: int
  pi_application_idx :: int
  pi_page_idx :: int
  pi_page :: jstring
  pi_root_idx :: int

section \<open>Parsing\<close>

definition split_path :: "string \<Rightarrow> string list" where
  "split_path path =
     (let elements = split_str (CHR ''/'') path in
      if elements \<noteq> [] then
        (let lastElement = last elements; anchorIndex = index_of (CHR ''#'') lastElement in
         if anchorIndex > 0 then butlast elements @ [take (nat anchorIndex) lastElement]
         else elements)
      else elements)"

definition has_element_at :: "path_info \<Rightarrow> int \<Rightarrow> bool" where
  "has_element_at p idx = (idx > -1 \<and> idx < int (length (pi_elements p)))"

definition get_element_at :: "path_info \<Rightarrow> int \<Rightarrow> jstring" where
  "get_element_at p idx = (if has_element_at p idx then Some (pi_elements p ! nat idx) else None)"

definition is_gui :: "path_info \<Rightarrow> bool" where
  "is_gui p = (has_element_at p 1 \<and> pi_elements p ! 1 = drop 1 (pi_gui_path p))"

definition is_service :: "path_info \<Rightarrow> bool" where
  "is_service p = (has_element_at p 1 \<and> pi_elements p ! 1 = drop 1 (pi_service_path p))"

text \<open>The indices of application and page, once the index of the site is known.\<close>

definition parse_application :: "path_info \<Rightarrow> path_info" where
  "parse_application p =
     (if has_element_at p (pi_site_idx p + 1) then
        (let q = p\<lparr>pi_application_idx := pi_site_idx p + 1\<rparr> in
         if has_element_at q (pi_application_idx q + 1)
         then q\<lparr>pi_page_idx := pi_application_idx q + 1\<rparr> else q)
      else p)"

definition parse_gui :: "path_info \<Rightarrow> java_exn + path_info" where
  "parse_gui p =
     (let idx = index_of (drop 1 (pi_gui_path p)) (pi_elements p) in
      if has_element_at p idx \<and> has_element_at p (idx + 1) then
        (if prefix ''_'' (pi_elements p ! nat (idx + 1)) then
           (if \<not> has_element_at p (idx + 2) then Inl IndexOutOfBounds
            else if prefix ''_'' (pi_elements p ! nat (idx + 2))
            then Inr (parse_application (p\<lparr>pi_site_idx := idx + 3\<rparr>))
            else Inr (parse_application (p\<lparr>pi_site_idx := idx + 2\<rparr>)))
         else Inr (parse_application (p\<lparr>pi_site_idx := idx + 1\<rparr>)))
      else Inr p)"

definition parse_service :: "path_info \<Rightarrow> path_info" where
  "parse_service p =
     (let idx = index_of (drop 1 (pi_service_path p)) (pi_elements p);
          q = (if has_element_at p (idx + 1) then p\<lparr>pi_site_idx := idx + 1\<rparr> else p)
      in if has_element_at q (idx + 2) then q\<lparr>pi_application_idx := idx + 2\<rparr> else q)"

text \<open>The first part of \<^verbatim>\<open>parse\<close>: the path elements and the root path.\<close>

definition parse_root :: "path_info \<Rightarrow> path_info" where
  "parse_root p0 =
     (let p = p0\<lparr>pi_elements := split_path (pi_servlet_path p0), pi_root_idx := 1\<rparr>
      in p\<lparr>pi_root_path := (if has_element_at p (pi_root_idx p)
                             then ''/'' @ pi_elements p ! nat (pi_root_idx p)
                             else pi_servlet_path p)\<rparr>)"

definition parse :: "path_info \<Rightarrow> java_exn + path_info" where
  "parse p0 =
     (let p = parse_root p0
      in if has_element_at p 1 \<and> pi_gui_path p = [] then Inl StringIndexOutOfBounds
         else if is_gui p then parse_gui p
         else if has_element_at p 1 \<and> pi_service_path p = [] then Inl StringIndexOutOfBounds
         else if is_service p then Inr (parse_service p)
         else Inr p)"

definition new_path_info ::
  "string \<Rightarrow> string \<Rightarrow> string \<Rightarrow> jstring \<Rightarrow> string \<Rightarrow> string \<Rightarrow> string list \<Rightarrow> string list
     \<Rightarrow> string \<Rightarrow> string \<Rightarrow> string \<Rightarrow> java_exn + path_info" where
  "new_path_info host domain currentSite servletPath guiPath servicePath blobs docs repo monitoring ext =
     parse \<lparr>pi_host = host, pi_domain = domain, pi_current_site = currentSite,
       pi_servlet_path = (case servletPath of None \<Rightarrow> '''' | Some s \<Rightarrow> s),
       pi_gui_path = guiPath, pi_service_path = servicePath, pi_blob_directories = blobs,
       pi_document_directories = docs, pi_repository_path = repo, pi_monitoring_path = monitoring,
       pi_extension = ext, pi_root_path = '''', pi_application_name = None, pi_action_name = None,
       pi_action_value = None, pi_elements = [], pi_jsp_url_params = None, pi_site_idx = -1,
       pi_application_idx = -1, pi_page_idx = -1, pi_page = None, pi_root_idx = 0\<rparr>"

section \<open>Queries\<close>

definition get_element_count :: "path_info \<Rightarrow> int" where
  "get_element_count p = int (length (pi_elements p))"

definition get_last_element :: "path_info \<Rightarrow> jstring" where
  "get_last_element p = get_element_at p (get_element_count p - 1)"

definition check_path_length :: "path_info \<Rightarrow> int \<Rightarrow> java_exn + unit" where
  "check_path_length p minLength =
     (if get_element_count p < minLength then Inl (IOError ''invalid path'') else Inr ())"

definition is_static_content :: "path_info \<Rightarrow> bool" where
  "is_static_content p = (pi_root_path p \<in> set (pi_blob_directories p))"

definition is_document :: "path_info \<Rightarrow> bool" where
  "is_document p = (pi_root_path p \<in> set (pi_document_directories p))"

definition is_jsp :: "path_info \<Rightarrow> bool" where
  "is_jsp p = ends_with (pi_servlet_path p) (''.'' @ pi_extension p)"

definition has_site :: "path_info \<Rightarrow> bool" where
  "has_site p = has_element_at p (pi_site_idx p)"

definition get_site_name :: "path_info \<Rightarrow> string" where
  "get_site_name p = (if has_site p then pi_elements p ! nat (pi_site_idx p) else pi_current_site p)"

definition set_application_name :: "path_info \<Rightarrow> string \<Rightarrow> path_info" where
  "set_application_name p a =
     p\<lparr>pi_application_name := Some a, pi_application_idx := index_of a (pi_elements p), pi_page_idx := -1\<rparr>"

definition has_application :: "path_info \<Rightarrow> bool" where
  "has_application p = has_element_at p (pi_application_idx p)"

definition get_application_name :: "path_info \<Rightarrow> jstring" where
  "get_application_name p =
     (case pi_application_name p of
        Some a \<Rightarrow> Some a
      | None \<Rightarrow> (if has_application p then Some (pi_elements p ! nat (pi_application_idx p)) else None))"

definition set_page :: "path_info \<Rightarrow> string \<Rightarrow> path_info" where
  "set_page p page = p\<lparr>pi_page := Some page, pi_page_idx := index_of page (pi_elements p)\<rparr>"

definition get_page :: "path_info \<Rightarrow> jstring" where
  "get_page p = (if pi_page p = None \<and> has_element_at p (pi_page_idx p)
                 then Some (pi_elements p ! nat (pi_page_idx p)) else pi_page p)"

definition set_action :: "path_info \<Rightarrow> jstring \<Rightarrow> jstring \<Rightarrow> path_info" where
  "set_action p name val = p\<lparr>pi_action_name := name, pi_action_value := val\<rparr>"

definition has_action :: "path_info \<Rightarrow> bool" where
  "has_action p = (\<not> is_empty_str (pi_action_name p) \<and> \<not> is_empty_str (pi_action_value p))"

definition get_application_url_parameters :: "path_info \<Rightarrow> string list" where
  "get_application_url_parameters p =
     (if is_gui p then
        (if has_element_at p (pi_page_idx p) \<and> has_element_at p (pi_page_idx p + 1)
         then drop (nat (pi_page_idx p + 1)) (pi_elements p) else [])
      else if is_service p \<and> has_element_at p (pi_application_idx p)
              \<and> has_element_at p (pi_application_idx p + 3)
      then drop (nat (pi_application_idx p + 3)) (pi_elements p)
      else [])"

definition is_root :: "path_info \<Rightarrow> bool" where
  "is_root p = (pi_servlet_path p = pi_root_path p)"

definition is_root_ignore_trailing_slash :: "path_info \<Rightarrow> bool" where
  "is_root_ignore_trailing_slash p = (is_root p \<or> pi_servlet_path p = pi_root_path p @ ''/'')"

definition get_current_path :: "path_info \<Rightarrow> string" where
  "get_current_path p =
     (if is_gui p \<and> is_root p then
        (let result = pi_root_path p @ ''/'' @ get_site_name p in
         case get_application_name p of None \<Rightarrow> result | Some a \<Rightarrow> result @ ''/'' @ a)
      else pi_servlet_path p)"

definition is_repository :: "path_info \<Rightarrow> bool" where
  "is_repository p = prefix (''/'' @ pi_repository_path p) (pi_servlet_path p)"

definition is_monitoring :: "path_info \<Rightarrow> bool" where
  "is_monitoring p = prefix (pi_monitoring_path p) (pi_servlet_path p)"

definition get_platform_url :: "path_info \<Rightarrow> string" where
  "get_platform_url p = pi_domain p @ pi_servlet_path p"

definition get_output_format :: "path_info \<Rightarrow> jstring" where
  "get_output_format p =
     (if is_gui p \<and> pi_site_idx p - pi_root_idx p > 1
      then Some (drop 1 (pi_elements p ! nat (pi_root_idx p + 1))) else None)"

definition get_output_type :: "path_info \<Rightarrow> jstring" where
  "get_output_type p =
     (if is_gui p \<and> pi_site_idx p - pi_root_idx p > 2
      then Some (drop 1 (pi_elements p ! nat (pi_root_idx p + 2))) else None)"

definition get_output_prefix :: "path_info \<Rightarrow> string" where
  "get_output_prefix p =
     (case get_output_format p of
        None \<Rightarrow> ''''
      | Some f \<Rightarrow> ''/_'' @ f @
          (case get_output_type p of None \<Rightarrow> '''' | Some t \<Rightarrow> ''/_'' @ t))"

definition get_service :: "path_info \<Rightarrow> jstring" where
  "get_service p =
     (if is_service p \<and> has_element_at p (pi_application_idx p)
         \<and> has_element_at p (pi_application_idx p + 2) then
        (let parameters = pi_elements p ! nat (pi_application_idx p + 2);
             ix = index_of (CHR ''?'') parameters
         in Some (if ix > 0 then take (nat ix) parameters else parameters))
      else None)"

text \<open>The loop of \<^verbatim>\<open>isPathSelected\<close>, chunk by chunk from index \<open>i\<close>.\<close>

fun chunks_match :: "path_info \<Rightarrow> int \<Rightarrow> string list \<Rightarrow> bool" where
  "chunks_match p i [] = True"
| "chunks_match p i (chunk # chunks) =
     (if Some chunk \<noteq> get_element_at p i then False else chunks_match p (i + 1) chunks)"

definition is_path_selected :: "path_info \<Rightarrow> string \<Rightarrow> bool" where
  "is_path_selected p path =
     (let pathChunks = split_path path in
      if get_element_count p \<ge> int (length pathChunks) then chunks_match p 0 pathChunks else False)"

section \<open>Forwarding to a JSP\<close>

text \<open>
  The inner class \<^verbatim>\<open>PathSegmenter\<close>, and the search of the JSP file.  Whether a file
  exists below the site's web folder is the parameter \<open>exists\<close>, a predicate on the relative
  path.
\<close>

definition segments_of :: "string \<Rightarrow> string list" where
  "segments_of path = split_str (CHR ''/'') path"

definition get_segments :: "string list \<Rightarrow> nat \<Rightarrow> string" where
  "get_segments segs index =
     (let s = concat (map (\<lambda>segment. ''/'' @ segment) (sub_list 1 index segs))
      in if s = [] then ''/'' else s)"

fun jsp_loop :: "(string \<Rightarrow> bool) \<Rightarrow> string \<Rightarrow> string list \<Rightarrow> string \<Rightarrow> nat list \<Rightarrow> string \<times> string list option" where
  "jsp_loop exists ext segs real [] = (real, None)"
| "jsp_loop exists ext segs real (i # is) =
     (let real' = get_segments segs i in
      if exists (real' @ ''.'' @ ext) then (real' @ ''.'' @ ext, Some (sub_list i (length segs) segs))
      else jsp_loop exists ext segs real' is)"

definition init_jsp_url_parameters :: "path_info \<Rightarrow> (string \<Rightarrow> bool) \<Rightarrow> string \<times> path_info" where
  "init_jsp_url_parameters p exists =
     (let segs = segments_of (pi_servlet_path p);
          (real, params) = jsp_loop exists (pi_extension p) segs (pi_servlet_path p) [1..<length segs + 1]
      in (real, case params of None \<Rightarrow> p | Some ps \<Rightarrow> p\<lparr>pi_jsp_url_params := Some ps\<rparr>))"

definition get_forward_path :: "path_info \<Rightarrow> string \<Rightarrow> (string \<Rightarrow> bool) \<Rightarrow> string \<times> path_info" where
  "get_forward_path p wwwRootPath exists =
     (let (real, q) = init_jsp_url_parameters p exists in (wwwRootPath @ real, q))"

definition get_jsp_url_parameters :: "path_info \<Rightarrow> string list \<times> path_info" where
  "get_jsp_url_parameters p =
     (case pi_jsp_url_params p of
        None \<Rightarrow> ([], p\<lparr>pi_jsp_url_params := Some []\<rparr>)
      | Some ps \<Rightarrow> (ps, p))"

section \<open>Properties\<close>

definition example_path :: path_info where
  "example_path = \<lparr>pi_host = [], pi_domain = [], pi_current_site = [], pi_servlet_path = ''/a/b/c'',
     pi_gui_path = [], pi_service_path = [], pi_blob_directories = [], pi_document_directories = [],
     pi_repository_path = [], pi_monitoring_path = [], pi_extension = ''jsp'', pi_root_path = [],
     pi_application_name = None, pi_action_name = None, pi_action_value = None, pi_elements = [],
     pi_jsp_url_params = None, pi_site_idx = -1, pi_application_idx = -1, pi_page_idx = -1, pi_page = None,
     pi_root_idx = 0\<rparr>"

lemma split_path_join:
  assumes "length els \<ge> 2" and "\<forall>e \<in> set els. CHR ''/'' \<notin> set e"
    and "last els \<noteq> []" and "CHR ''#'' \<notin> set (last els)"
  shows "split_path (join_str ''/'' els) = els"
  using split_join [OF assms(1-3)] assms(1,4)
  by (auto simp: split_path_def Let_def index_of_absent)

lemmas path_queries =
  has_element_at_def get_site_name_def has_site_def get_application_name_def has_application_def
  get_page_def get_application_url_parameters_def is_gui_def is_service_def get_output_prefix_def
  get_output_format_def get_output_type_def get_service_def get_element_at_def

lemmas path_parsing = new_path_info_def parse_def parse_root_def parse_gui_def parse_service_def parse_application_def

text \<open>C6: A manager URL is parsed back into its parts: when a path is put together from the manager path,
  at most two output selectors starting with an underscore, site, application, page and URL parameters,
  the constructor succeeds and the getters return exactly these parts.\<close>

theorem gui_url_roundtrip:
  assumes g: "g \<noteq> []"
    and opts: "opts = [] \<or> (\<exists>f. opts = [''_'' @ f]) \<or> (\<exists>f t. opts = [''_'' @ f, ''_'' @ t])"
    and site: "\<not> prefix ''_'' site"
    and els: "els = [] # g # opts @ site # app # page # params"
    and no_slash: "\<forall>e \<in> set els. CHR ''/'' \<notin> set e"
    and last: "last els \<noteq> []" "CHR ''#'' \<notin> set (last els)"
  shows "\<exists>p. new_path_info host domain cur (Some (join_str ''/'' els)) (''/'' @ g) svc blobs docs repo mon ext = Inr p
    \<and> get_site_name p = site \<and> get_application_name p = Some app \<and> get_page p = Some page
    \<and> get_application_url_parameters p = params
    \<and> get_output_prefix p = concat (map (\<lambda>opt. ''/'' @ opt) opts)"
proof -
  have "split_path (join_str ''/'' els) = els"
    using no_slash last els by (intro split_path_join) auto
  with opts g site els show ?thesis
    by (elim disjE exE) (auto simp: path_parsing path_queries index_of_def)
qed

theorem gui_url_roundtrip_witness:
  "\<exists>p. new_path_info ''h'' ''d'' ''cur'' (Some ''/manager/_html/mysite/appng/users/1'') ''/manager'' ''/service''
          [] [] ''repo'' ''/health'' ''jsp'' = Inr p
    \<and> get_site_name p = ''mysite'' \<and> get_application_name p = Some ''appng'' \<and> get_page p = Some ''users''
    \<and> get_application_url_parameters p = [''1''] \<and> get_output_prefix p = ''/_html''"
  using gui_url_roundtrip [of "''manager''" "[''_html'']" "''mysite''" _ "''appng''" "''users''" "[''1'']"
      "''h''" "''d''" "''cur''" "''/service''" "[]" "[]" "''repo''" "''/health''" "''jsp''", OF _ _ _ refl]
  by simp


text \<open>C33: A service URL is parsed back into site, application, service name and the parameters that
  follow the service.\<close>

theorem service_url_roundtrip:
  assumes g: "svc = ''/'' @ v" "v \<noteq> []" "v \<noteq> drop 1 gui" "gui \<noteq> []"
    and els: "els = [] # v # site # app # kind # service # params"
    and no_slash: "\<forall>e \<in> set els. CHR ''/'' \<notin> set e"
    and no_query: "CHR ''?'' \<notin> set service"
    and last: "last els \<noteq> []" "CHR ''#'' \<notin> set (last els)"
  shows "\<exists>p. new_path_info host domain cur (Some (join_str ''/'' els)) gui svc blobs docs repo mon ext = Inr p
    \<and> is_service p \<and> get_site_name p = site \<and> get_application_name p = Some app
    \<and> get_service p = Some service \<and> get_application_url_parameters p = params"
proof -
  have "split_path (join_str ''/'' els) = els"
    using no_slash last els by (intro split_path_join) auto
  with g els no_query show ?thesis
    by (auto simp: path_parsing path_queries index_of_def index_from_absent)
qed

theorem service_url_roundtrip_witness:
  "\<exists>p. new_path_info ''h'' ''d'' ''cur'' (Some ''/service/mysite/appng/rest/users/1'') ''/manager'' ''/service''
          [] [] ''repo'' ''/health'' ''jsp'' = Inr p
    \<and> is_service p \<and> get_site_name p = ''mysite'' \<and> get_application_name p = Some ''appng''
    \<and> get_service p = Some ''users'' \<and> get_application_url_parameters p = [''1'']"
  using service_url_roundtrip [of "''/service''" "''service''" "''/manager''" _ "''mysite''" "''appng''"
      "''rest''" "''users''" "[''1'']" "''h''" "''d''" "''cur''" "[]" "[]" "''repo''" "''/health''" "''jsp''",
      OF _ _ _ _ refl]
  by simp


definition indices_ok :: "path_info \<Rightarrow> bool" where
  "indices_ok q =
     ((pi_site_idx q = -1 \<or> (1 \<le> pi_site_idx q \<and> pi_site_idx q \<le> get_element_count q))
      \<and> (pi_application_idx q = -1 \<or> (pi_application_idx q = pi_site_idx q + 1 \<and> has_application q))
      \<and> (pi_page_idx q = -1 \<or>
           (pi_page_idx q = pi_application_idx q + 1 \<and> has_application q \<and> has_element_at q (pi_page_idx q))))"

lemmas indices_defs = indices_ok_def has_application_def has_element_at_def get_element_count_def

lemma parse_application_indices:
  assumes "pi_application_idx p = -1" "pi_page_idx p = -1" "1 \<le> pi_site_idx p" "pi_site_idx p \<le> get_element_count p"
  shows "indices_ok (parse_application p)"
  using assms by (auto simp: parse_application_def Let_def indices_defs)

lemma parse_gui_indices:
  assumes "pi_site_idx p = -1" "pi_application_idx p = -1" "pi_page_idx p = -1" "parse_gui p = Inr q"
  shows "indices_ok q"
proof -
  let ?i = "index_of (drop 1 (pi_gui_path p)) (pi_elements p)"
  have "q = p \<or> (0 \<le> ?i \<and> (\<exists>k \<in> {1, 2, 3}. ?i + k \<le> get_element_count p
          \<and> q = parse_application (p\<lparr>pi_site_idx := ?i + k\<rparr>)))"
    using assms(4) by (auto simp: parse_gui_def Let_def has_element_at_def get_element_count_def split: if_splits)
  moreover have "indices_ok p"
    using assms by (simp add: indices_ok_def)
  ultimately show ?thesis
    using assms by (auto intro!: parse_application_indices simp: get_element_count_def)
qed

lemma parse_service_indices:
  assumes "pi_site_idx p = -1" "pi_application_idx p = -1" "pi_page_idx p = -1" "is_service p"
  shows "indices_ok (parse_service p)"
proof -
  let ?i = "index_of (drop 1 (pi_service_path p)) (pi_elements p)"
  have "1 < length (pi_elements p)" and "pi_elements p ! 1 = drop 1 (pi_service_path p)"
    using assms(4) by (simp_all add: is_service_def has_element_at_def)
  then have "drop 1 (pi_service_path p) \<in> set (pi_elements p)" by (metis nth_mem)
  then have "0 \<le> ?i" using index_of_present by metis
  with assms(1-3) show ?thesis by (auto simp: parse_service_def Let_def indices_defs)
qed

lemma parse_root_fields [simp]:
  "pi_site_idx (parse_root p) = pi_site_idx p" "pi_application_idx (parse_root p) = pi_application_idx p"
  "pi_page_idx (parse_root p) = pi_page_idx p"
  by (simp_all add: parse_root_def Let_def)

lemma parse_indices:
  assumes "pi_site_idx p = -1" "pi_application_idx p = -1" "pi_page_idx p = -1" "parse p = Inr q"
  shows "indices_ok q"
proof -
  define r where "r = parse_root p"
  with assms have r: "pi_site_idx r = -1" "pi_application_idx r = -1" "pi_page_idx r = -1" by simp_all
  then have "indices_ok r" by (simp add: indices_ok_def)
  then show ?thesis
    using assms(4) parse_gui_indices [OF r] parse_service_indices [OF r]
    unfolding parse_def Let_def r_def [symmetric] by (auto split: if_splits)
qed

text \<open>In every object the constructor returns, the indices of site, application and page are either
  unset or consecutive, and an application or page index that is set lies inside the path elements.\<close>

theorem constructor_indices:
  assumes "new_path_info host domain cur path gui svc blobs docs repo mon ext = Inr p"
  shows "indices_ok p"
  using assms unfolding new_path_info_def by (rule parse_indices [rotated 3]) simp_all

theorem constructor_indices_witness:
  "\<exists>p. new_path_info ''h'' ''d'' ''cur'' (Some ''/m/s/a'') ''/m'' ''/v'' [] [] ''r'' ''/h'' ''jsp'' = Inr p
      \<and> indices_ok p"
proof -
  have "\<exists>p. new_path_info ''h'' ''d'' ''cur'' (Some ''/m/s/a'') ''/m'' ''/v'' [] [] ''r'' ''/h'' ''jsp'' = Inr p"
    by (simp add: path_parsing path_queries split_path_def Let_def split_str_def drop_trailing_empty_def index_of_def)
  then show ?thesis using constructor_indices by blast
qed


lemma drop_trailing_empty_hd:
  "drop_trailing_empty ([] # ps) = [] \<or> hd (drop_trailing_empty ([] # ps)) = []"
  by (auto simp: drop_trailing_empty_def dropWhile_append)

lemma split_path_hd:
  assumes "prefix ''/'' path" and "1 < length (split_path path)"
  shows "split_path path ! 0 = []"
proof -
  obtain t where t: "path = CHR ''/'' # t" using assms(1) by (cases path) auto
  define els where "els = split_str (CHR ''/'') path"
  have els: "els = [] \<or> hd els = []"
    using drop_trailing_empty_hd [of "pieces (CHR ''/'') t"] by (simp add: els_def t split_str_def)
  have "split_path path = els \<or> (\<exists>x. els \<noteq> [] \<and> split_path path = butlast els @ [x])"
    by (auto simp: split_path_def els_def Let_def)
  with els assms(2) show ?thesis
    by (cases els) (auto simp: nth_append split: list.splits)
qed

text \<open>C34: The constructor throws for exactly one shape of path: the manager path followed by a single
  output selector and nothing else; then it leaves the bounds of the element list.\<close>

theorem constructor_failure:
  assumes "gui = ''/'' @ g" "g \<noteq> []" "svc \<noteq> []" "prefix ''/'' path"
  shows "new_path_info host domain cur (Some path) gui svc blobs docs repo mon ext = Inl e
     \<longleftrightarrow> e = IndexOutOfBounds \<and> (\<exists>f. split_path path = [[], g, ''_'' @ f])"
proof (cases "1 < length (split_path path) \<and> split_path path ! 1 = g")
  case False
  then show ?thesis
    using assms(1-3) by (auto simp: path_parsing path_queries Let_def)
next
  case True
  with split_path_hd [OF assms(4)] obtain rest where els: "split_path path = [] # g # rest"
    by (cases "split_path path" rule: remdups_adj.cases) auto
  then show ?thesis
    using assms(1-3)
    by (cases rest rule: remdups_adj.cases)
       (auto simp: path_parsing path_queries Let_def index_of_def prefix_def split: if_splits)
qed

theorem constructor_failure_witness:
  "new_path_info ''h'' ''d'' ''cur'' (Some ''/m/_html'') ''/m'' ''/v'' [] [] ''r'' ''/h'' ''jsp'' = Inl IndexOutOfBounds"
  using constructor_failure [of "''/m''" "''m''" "''/v''" "''/m/_html''" "''h''" "''d''" "''cur''" "[]" "[]" "''r''"
      "''/h''" "''jsp''" IndexOutOfBounds]
  by (simp add: split_path_def split_str_def drop_trailing_empty_def index_of_def)


lemma chunks_match_prefix:
  "0 \<le> i \<Longrightarrow> i + int (length cs) \<le> get_element_count p \<Longrightarrow>
     chunks_match p i cs \<longleftrightarrow> prefix cs (drop (nat i) (pi_elements p))"
proof (induction p i cs rule: chunks_match.induct)
  case (1 p i)
  then show ?case by simp
next
  case (2 p i c cs)
  then have lt: "nat i < length (pi_elements p)" by (simp add: get_element_count_def)
  have "nat (i + 1) = Suc (nat i)" using 2 by simp
  with 2 lt show ?case
    by (auto simp: get_element_at_def has_element_at_def get_element_count_def
        Cons_nth_drop_Suc [OF lt, symmetric])
qed

text \<open>A menu path is selected if and only if its elements are a prefix of the elements of the
  current path.\<close>

theorem path_selected_iff_prefix: "is_path_selected p path \<longleftrightarrow> prefix (split_path path) (pi_elements p)"
  by (auto simp: is_path_selected_def Let_def chunks_match_prefix get_element_count_def dest: prefix_length_le)

lemma jsp_loop_spec:
  "jsp_loop exists ext segs real ixs =
     (case find (\<lambda>i. exists (get_segments segs i @ ''.'' @ ext)) ixs of
        Some i \<Rightarrow> (get_segments segs i @ ''.'' @ ext, Some (drop i segs))
      | None \<Rightarrow> (if ixs = [] then real else get_segments segs (last ixs), None))"
  by (induction "exists" ext segs real ixs rule: jsp_loop.induct)
     (auto simp: Let_def sub_list_def split: option.splits)

lemma find_upt_Some:
  assumes "find P [m..<n] = Some i"
  shows "m \<le> i \<and> i < n \<and> P i \<and> (\<forall>j. m \<le> j \<and> j < i \<longrightarrow> \<not> P j)"
proof -
  from assms obtain k where k: "k < n - m" "i = m + k" "P (m + k)" "\<forall>j<k. \<not> P (m + j)"
    by (auto simp: find_Some_iff)
  have "\<not> P j" if "m \<le> j" "j < i" for j
    using k(4) [rule_format, of "j - m"] that k(2) by auto
  with k show ?thesis by auto
qed

lemma get_forward_path_find:
  assumes "segs = segments_of (pi_servlet_path p)"
  shows "get_forward_path p www exists =
     (case find (\<lambda>i. exists (get_segments segs i @ ''.'' @ pi_extension p)) [1..<length segs + 1] of
        Some i \<Rightarrow> (www @ get_segments segs i @ ''.'' @ pi_extension p, p\<lparr>pi_jsp_url_params := Some (drop i segs)\<rparr>)
      | None \<Rightarrow> (www @ (if segs = [] then pi_servlet_path p else get_segments segs (length segs)), p))"
  by (auto simp: get_forward_path_def init_jsp_url_parameters_def jsp_loop_spec Let_def assms Suc_le_eq
      split: option.splits)

text \<open>The forward path names the JSP of the shortest leading part of the path for which a JSP file
  exists, and the remaining segments become the URL parameters; without such a file the path itself
  (without a trailing separator) is kept and the object does not change.\<close>

theorem forward_path_jsp:
  assumes "get_forward_path p www exists = (fwd, q)"
    and segs: "segs = segments_of (pi_servlet_path p)"
  shows "(\<exists>i. 1 \<le> i \<and> i \<le> length segs
            \<and> exists (get_segments segs i @ ''.'' @ pi_extension p)
            \<and> (\<forall>j. 1 \<le> j \<and> j < i \<longrightarrow> \<not> exists (get_segments segs j @ ''.'' @ pi_extension p))
            \<and> fwd = www @ get_segments segs i @ ''.'' @ pi_extension p
            \<and> pi_jsp_url_params q = Some (drop i segs))
       \<or> ((\<forall>j. 1 \<le> j \<and> j \<le> length segs \<longrightarrow> \<not> exists (get_segments segs j @ ''.'' @ pi_extension p))
            \<and> q = p \<and> fwd = www @ (if segs = [] then pi_servlet_path p else get_segments segs (length segs)))"
proof (cases "find (\<lambda>i. exists (get_segments segs i @ ''.'' @ pi_extension p)) [1..<length segs + 1]")
  case None
  then have "\<forall>j. 1 \<le> j \<and> j \<le> length segs \<longrightarrow> \<not> exists (get_segments segs j @ ''.'' @ pi_extension p)"
    by (auto simp: find_None_iff simp del: upt_Suc)
  with None assms(1) show ?thesis
    by (simp add: get_forward_path_find [OF segs] del: upt_Suc)
next
  case (Some i)
  from find_upt_Some [OF this] have "1 \<le> i" "i \<le> length segs" by simp_all
  moreover have "fwd = www @ get_segments segs i @ ''.'' @ pi_extension p"
    and "pi_jsp_url_params q = Some (drop i segs)"
    using assms(1) Some by (auto simp: get_forward_path_find [OF segs] simp del: upt_Suc)
  ultimately show ?thesis using find_upt_Some [OF Some] by blast
qed

theorem forward_path_jsp_witness:
  "\<exists>q. get_forward_path example_path ''/www'' (\<lambda>f. f = ''/a/b.jsp'') = (''/www/a/b.jsp'', q)
        \<and> pi_jsp_url_params q = Some [''c'']"
proof -
  let ?ex = "\<lambda>f. f = ''/a/b.jsp''"
  have segs: "segments_of (pi_servlet_path example_path) = ['''', ''a'', ''b'', ''c'']"
    by (simp add: example_path_def segments_of_def split_str_def drop_trailing_empty_def)
  have ext: "pi_extension example_path = ''jsp''" by (simp add: example_path_def)
  obtain fwd q where fp: "get_forward_path example_path ''/www'' ?ex = (fwd, q)" by fastforce
  have s: "get_segments ['''', ''a'', ''b'', ''c''] (Suc 0) = ''/''" "get_segments ['''', ''a'', ''b'', ''c''] 2 = ''/a''"
      "get_segments ['''', ''a'', ''b'', ''c''] 3 = ''/a/b''" "get_segments ['''', ''a'', ''b'', ''c''] 4 = ''/a/b/c''"
    by (simp_all add: get_segments_def sub_list_def)
  have four: "i = 1 \<or> i = 2 \<or> i = 3 \<or> i = 4" if "1 \<le> i" "i \<le> 4" for i :: nat
    using that by linarith
  have "fwd = ''/www/a/b.jsp'' \<and> pi_jsp_url_params q = Some [''c'']"
    using forward_path_jsp [OF fp segs [symmetric]]
  proof (elim disjE exE conjE, goal_cases)
    case (1 i)
    with four [of i] s ext show ?case by auto
  next
    case 2
    then have "\<not> ?ex (get_segments ['''', ''a'', ''b'', ''c''] 3 @ ''.'' @ pi_extension example_path)"
      by auto
    with s ext show ?case by simp
  qed
  with fp show ?thesis by blast
qed

end
