(* ===== verification/Props.thy ===== *)
theory Props
  imports Java_Prelude
begin

text \<open>
  Configuration properties (appng-api): \<^verbatim>\<open>model.Property.Type\<close>,
  \<^verbatim>\<open>model.SimpleProperty\<close> and \<^verbatim>\<open>support.PropertyHolder\<close>, the prefixed
  collection of properties that platform, sites and applications read their configuration from.
  The map of the holder is an association list; the order of its entries stands for the iteration
  order of the hash map, on which no property relies.  \<^verbatim>\<open>Double.parseDouble\<close> and
  \<^verbatim>\<open>java.util.Properties.load\<close> are arguments of the operations that call them.
\<close>

section \<open>Property types\<close>

datatype prop_type = P_INT | P_DECIMAL | P_BOOLEAN | P_TEXT | P_PASSWORD | P_MULTILINE

text \<open>The regular expressions of \<^verbatim>\<open>isValidValue\<close>.\<close>

definition skip_sign :: "string \<Rightarrow> string" where
  "skip_sign s = (case s of c # cs \<Rightarrow> (if c = CHR ''+'' \<or> c = CHR ''-'' then cs else s) | [] \<Rightarrow> [])"

definition matches_int :: "string \<Rightarrow> bool" where
  "matches_int s = (skip_sign s \<noteq> [] \<and> list_all is_digit (skip_sign s))"

definition matches_decimal :: "string \<Rightarrow> bool" where
  "matches_decimal s =
     (let ds = takeWhile is_digit (skip_sign s); rest = dropWhile is_digit (skip_sign s)
      in ds \<noteq> [] \<and> (case rest of
            [] \<Rightarrow> False
          | c # fs \<Rightarrow> c = CHR ''.'' \<and> fs \<noteq> [] \<and> list_all is_digit fs))"

definition matches_boolean :: "string \<Rightarrow> bool" where
  "matches_boolean s = (to_lower s = ''true'' \<or> to_lower s = ''false'')"

definition is_valid_value :: "prop_type \<Rightarrow> jstring \<Rightarrow> bool" where
  "is_valid_value t v =
     (let notBlank = \<not> is_blank v in
      case t of
        P_BOOLEAN \<Rightarrow> notBlank \<and> matches_boolean (the v)
      | P_DECIMAL \<Rightarrow> notBlank \<and> matches_decimal (the v)
      | P_INT \<Rightarrow> notBlank \<and> matches_int (the v)
      | _ \<Rightarrow> True)"

definition type_for_string :: "jstring \<Rightarrow> prop_type" where
  "type_for_string v =
     (if is_valid_value P_BOOLEAN v then P_BOOLEAN
      else if is_valid_value P_DECIMAL v then P_DECIMAL
      else if is_valid_value P_INT v then P_INT
      else if \<not> is_blank v \<and> CHR 0x0A \<in> set (the v) then P_MULTILINE
      else P_TEXT)"

section \<open>A property\<close>

record simple_property =
  sp_value :: jstring
  sp_default :: jstring
  sp_description :: jstring
  sp_name :: jstring
  sp_mandatory :: bool
  sp_blob :: "int list option"
  sp_clob :: jstring
  sp_type :: "prop_type option"

definition new_property :: "jstring \<Rightarrow> jstring \<Rightarrow> jstring \<Rightarrow> simple_property" where
  "new_property name v defaultValue =
     \<lparr>sp_value = v, sp_default = defaultValue, sp_description = None, sp_name = name,
      sp_mandatory = False, sp_blob = None, sp_clob = None, sp_type = None\<rparr>"

definition prop_string :: "simple_property \<Rightarrow> jstring" where
  "prop_string p = (if \<not> is_empty_str (sp_value p) then sp_value p else sp_default p)"

definition prop_integer :: "simple_property \<Rightarrow> int option" where
  "prop_integer p = (case prop_string p of None \<Rightarrow> None | Some s \<Rightarrow> parse_int s)"

definition prop_double :: "(string \<Rightarrow> 'd option) \<Rightarrow> simple_property \<Rightarrow> 'd option" where
  "prop_double parse_double p = (case prop_string p of None \<Rightarrow> None | Some s \<Rightarrow> parse_double s)"

definition prop_boolean :: "simple_property \<Rightarrow> bool option" where
  "prop_boolean p =
     (case prop_string p of None \<Rightarrow> None | Some s \<Rightarrow> Some (to_lower s = ''true'' \<or> s = ''1''))"

definition changed_value :: "simple_property \<Rightarrow> bool" where
  "changed_value p = is_empty_str (sp_value p)"

text \<open>The object a property evaluates to; a type that is not set makes the switch throw.\<close>

datatype 'd prop_object =
    ObjInt "int option" | ObjDouble "'d option" | ObjBool "bool option" | ObjString jstring

definition prop_object :: "(string \<Rightarrow> 'd option) \<Rightarrow> simple_property \<Rightarrow> java_exn + 'd prop_object" where
  "prop_object parse_double p =
     (case sp_type p of
        None \<Rightarrow> Inl NullPointer
      | Some P_INT \<Rightarrow> Inr (ObjInt (prop_integer p))
      | Some P_DECIMAL \<Rightarrow> Inr (ObjDouble (prop_double parse_double p))
      | Some P_BOOLEAN \<Rightarrow> Inr (ObjBool (prop_boolean p))
      | Some P_MULTILINE \<Rightarrow> Inr (ObjString (sp_clob p))
      | Some _ \<Rightarrow> Inr (ObjString (prop_string p)))"

definition set_prop_value :: "jstring \<Rightarrow> simple_property \<Rightarrow> java_exn + simple_property" where
  "set_prop_value v p =
     (case v of
        None \<Rightarrow> Inr p
      | Some s \<Rightarrow>
          (case sp_type p of
             None \<Rightarrow> Inl NullPointer
           | Some P_MULTILINE \<Rightarrow> Inr (p\<lparr>sp_clob := Some s\<rparr>)
           | Some _ \<Rightarrow> Inr (p\<lparr>sp_value := Some s\<rparr>)))"

definition determine_type :: "simple_property \<Rightarrow> simple_property" where
  "determine_type p =
     p\<lparr>sp_type := Some (if \<not> is_blank (sp_clob p) then P_MULTILINE else type_for_string (prop_string p))\<rparr>"

section \<open>The holder\<close>

record prop_holder =
  ph_map :: "(string \<times> simple_property) list"
  ph_prefix :: string
  ph_final :: bool

definition new_holder :: "string \<Rightarrow> (string \<times> simple_property) list \<Rightarrow> prop_holder" where
  "new_holder pre ps =
     \<lparr>ph_map = fold (\<lambda>(n, p) m. assoc_put n p m) ps [], ph_prefix = pre, ph_final = False\<rparr>"

definition set_final :: "prop_holder \<Rightarrow> prop_holder" where
  "set_final h = h\<lparr>ph_final := True\<rparr>"

definition property_names :: "prop_holder \<Rightarrow> string list" where
  "property_names h = map fst (ph_map h)"

definition property_exists :: "prop_holder \<Rightarrow> string \<Rightarrow> bool" where
  "property_exists h name =
     (if prefix (ph_prefix h) name then assoc_get (ph_map h) name \<noteq> None
      else assoc_get (ph_map h) (ph_prefix h @ name) \<noteq> None)"

definition get_property :: "prop_holder \<Rightarrow> string \<Rightarrow> simple_property option" where
  "get_property h name =
     (if \<not> prefix (ph_prefix h) name then assoc_get (ph_map h) (ph_prefix h @ name)
      else assoc_get (ph_map h) name)"

definition add_property ::
  "prop_holder \<Rightarrow> string \<Rightarrow> jstring \<Rightarrow> jstring \<Rightarrow> prop_type \<Rightarrow> java_exn + (simple_property \<times> prop_holder)" where
  "add_property h name defaultValue description type =
     (if ph_final h then Inl (IllegalArgument ''this PropertyHolder is final, no more properties can be added!'')
      else
        (let fullName = ph_prefix h @ name; isMultiline = (type = P_MULTILINE) in
         case defaultValue of
           None \<Rightarrow> Inl (IllegalArgument ''defaultValue can not be null!'')
         | Some d \<Rightarrow>
             (let prop = (case assoc_get (ph_map h) fullName of
                            Some p \<Rightarrow> p
                          | None \<Rightarrow> (let p = new_property (Some fullName) None None
                                     in if isMultiline then p\<lparr>sp_clob := Some d\<rparr> else p));
                  prop = (if \<not> isMultiline then prop\<lparr>sp_default := Some d\<rparr> else prop);
                  prop = prop\<lparr>sp_description := description, sp_type := Some type\<rparr>
              in Inr (prop, h\<lparr>ph_map := assoc_put fullName prop (ph_map h)\<rparr>))))"

definition get_string :: "prop_holder \<Rightarrow> string \<Rightarrow> jstring \<Rightarrow> jstring" where
  "get_string h name defaultValue =
     (case get_property h name of Some p \<Rightarrow> prop_string p | None \<Rightarrow> defaultValue)"

definition get_boolean :: "prop_holder \<Rightarrow> string \<Rightarrow> bool option \<Rightarrow> bool option" where
  "get_boolean h name defaultValue =
     (case get_property h name of Some p \<Rightarrow> prop_boolean p | None \<Rightarrow> defaultValue)"

definition get_integer :: "prop_holder \<Rightarrow> string \<Rightarrow> int option \<Rightarrow> int option" where
  "get_integer h name defaultValue =
     (case get_property h name of Some p \<Rightarrow> prop_integer p | None \<Rightarrow> defaultValue)"

definition get_double :: "(string \<Rightarrow> 'd option) \<Rightarrow> prop_holder \<Rightarrow> string \<Rightarrow> 'd option \<Rightarrow> 'd option" where
  "get_double parse_double h name defaultValue =
     (case get_property h name of Some p \<Rightarrow> prop_double parse_double p | None \<Rightarrow> defaultValue)"

definition get_blob :: "prop_holder \<Rightarrow> string \<Rightarrow> int list option" where
  "get_blob h name = (case get_property h name of Some p \<Rightarrow> sp_blob p | None \<Rightarrow> None)"

definition get_clob :: "prop_holder \<Rightarrow> string \<Rightarrow> jstring \<Rightarrow> jstring" where
  "get_clob h name defaultValue =
     (case get_property h name of Some p \<Rightarrow> sp_clob p | None \<Rightarrow> defaultValue)"

definition get_description_for :: "prop_holder \<Rightarrow> string \<Rightarrow> jstring" where
  "get_description_for h name = (case get_property h name of None \<Rightarrow> None | Some p \<Rightarrow> sp_description p)"

text \<open>\<^verbatim>\<open>getObject\<close>: the type of the property selects the getter, which looks the
  property up again by its own name.\<close>

definition object_of ::
  "(string \<Rightarrow> 'd option) \<Rightarrow> prop_holder \<Rightarrow> simple_property \<Rightarrow> java_exn + 'd prop_object" where
  "object_of parse_double h p =
     (case (sp_type p, sp_name p) of
        (None, _) \<Rightarrow> Inl NullPointer
      | (_, None) \<Rightarrow> Inl NullPointer
      | (Some P_INT, Some n) \<Rightarrow> Inr (ObjInt (get_integer h n None))
      | (Some P_DECIMAL, Some n) \<Rightarrow> Inr (ObjDouble (get_double parse_double h n None))
      | (Some P_BOOLEAN, Some n) \<Rightarrow> Inr (ObjBool (get_boolean h n None))
      | (Some P_MULTILINE, Some n) \<Rightarrow> Inr (ObjString (get_clob h n None))
      | (Some _, Some n) \<Rightarrow> Inr (ObjString (get_string h n None)))"

definition get_object ::
  "(string \<Rightarrow> 'd option) \<Rightarrow> prop_holder \<Rightarrow> string \<Rightarrow> java_exn + 'd prop_object option" where
  "get_object parse_double h name =
     (case get_property h name of
        None \<Rightarrow> Inr None
      | Some p \<Rightarrow> (case object_of parse_double h p of Inl e \<Rightarrow> Inl e | Inr ob \<Rightarrow> Inr (Some ob)))"

definition get_list :: "prop_holder \<Rightarrow> string \<Rightarrow> jstring \<Rightarrow> char \<Rightarrow> string list" where
  "get_list h name defaultValue delimiter =
     (case get_string h name defaultValue of
        None \<Rightarrow> []
      | Some s \<Rightarrow> (if length s > 0 then map trim (split_str delimiter s) else []))"

definition short_name :: "string \<Rightarrow> string" where
  "short_name name = rev (takeWhile (\<lambda>c. c \<noteq> CHR ''.'') (rev name))"

definition plain_value :: "prop_holder \<Rightarrow> string \<Rightarrow> jstring" where
  "plain_value h name =
     (case get_property h name of
        None \<Rightarrow> None
      | Some p \<Rightarrow> (case prop_string p of None \<Rightarrow> sp_clob p | Some v \<Rightarrow> Some v))"

definition get_plain_properties :: "prop_holder \<Rightarrow> (string \<times> string) list" where
  "get_plain_properties h = fold (put_some short_name (plain_value h)) (property_names h) []"

definition get_properties :: "(string \<Rightarrow> ('e + 'p)) \<Rightarrow> prop_holder \<Rightarrow> string \<Rightarrow> java_exn + 'p option" where
  "get_properties load h name =
     (case get_clob h name None of
        None \<Rightarrow> Inr None
      | Some clob \<Rightarrow>
          (case load clob of
             Inl e \<Rightarrow> Inl (IllegalArgument (''failed converting property '' @ name))
           | Inr ps \<Rightarrow> Inr (Some ps)))"

section \<open>Laws of the holder\<close>

text \<open>The key under which a name is looked up.\<close>

definition lookup_key :: "prop_holder \<Rightarrow> string \<Rightarrow> string" where
  "lookup_key h name = (if prefix (ph_prefix h) name then name else ph_prefix h @ name)"

lemma get_property_key: "get_property h name = assoc_get (ph_map h) (lookup_key h name)"
  by (simp add: get_property_def lookup_key_def)

lemma property_exists_iff: "property_exists h name \<longleftrightarrow> get_property h name \<noteq> None"
  by (simp add: property_exists_def get_property_def)

lemma lookup_key_full [simp]: "lookup_key h (ph_prefix h @ name) = ph_prefix h @ name"
  by (simp add: lookup_key_def)

lemma lookup_key_short: "ph_prefix h = [] \<or> \<not> prefix (ph_prefix h) name \<Longrightarrow> lookup_key h name = ph_prefix h @ name"
  by (auto simp: lookup_key_def)

lemma lookup_key_eq: "lookup_key h n = ph_prefix h @ name \<Longrightarrow> n = name \<or> n = ph_prefix h @ name"
  by (auto simp: lookup_key_def split: if_splits)

lemma add_property_Inr:
  assumes "add_property h name dflt desc t = Inr (p, h')"
  shows "\<not> ph_final h" "dflt \<noteq> None" "ph_prefix h' = ph_prefix h" "ph_final h' = ph_final h"
    "ph_map h' = assoc_put (ph_prefix h @ name) p (ph_map h)"
    "sp_type p = Some t" "sp_description p = desc"
    "t \<noteq> P_MULTILINE \<Longrightarrow> sp_default p = dflt"
    "sp_value p = (case assoc_get (ph_map h) (ph_prefix h @ name) of Some q \<Rightarrow> sp_value q | None \<Rightarrow> None)"
  using assms
  by (auto simp: add_property_def Let_def new_property_def split: if_splits option.splits)

text \<open>Adding a property under a name without the prefix makes it available under its short and its full
  name, with the given type and description; its string is the value it had before, or the new default where
  there is none; every other property stays as it was.\<close>

theorem add_property_effect:
  assumes "add_property h name dflt desc t = Inr (p, h')"
    and "ph_prefix h = [] \<or> \<not> prefix (ph_prefix h) name"
  shows "get_property h' name = Some p \<and> get_property h' (ph_prefix h @ name) = Some p
    \<and> sp_type p = Some t \<and> get_description_for h' name = desc
    \<and> (t \<noteq> P_MULTILINE \<longrightarrow> get_string h' name other =
         (case get_property h name of
            Some q \<Rightarrow> (if is_empty_str (sp_value q) then dflt else sp_value q)
          | None \<Rightarrow> dflt))
    \<and> (\<forall>n. n \<noteq> name \<and> n \<noteq> ph_prefix h @ name \<longrightarrow> get_property h' n = get_property h n)"
proof -
  note a = add_property_Inr [OF assms(1)]
  have key: "lookup_key h' n = lookup_key h n" for n by (simp add: lookup_key_def a(3))
  have g: "get_property h' n = (if lookup_key h n = ph_prefix h @ name then Some p else get_property h n)" for n
    by (simp add: get_property_key key a(5))
  have "lookup_key h name = ph_prefix h @ name" using assms(2) by (rule lookup_key_short)
  with a g show ?thesis
    by (auto simp: get_string_def get_description_for_def prop_string_def is_empty_str_def get_property_key
        dest: lookup_key_eq split: option.splits)
qed

theorem add_property_effect_witness:
  "\<exists>p h'. add_property (new_holder ''platform.'' []) ''cache'' (Some ''true'') None P_BOOLEAN = Inr (p, h')
     \<and> get_property h' ''cache'' = Some p \<and> get_string h' ''cache'' None = Some ''true''"
proof -
  let ?h = "new_holder ''platform.'' []"
  obtain p h' where a: "add_property ?h ''cache'' (Some ''true'') None P_BOOLEAN = Inr (p, h')"
    by (simp add: add_property_def new_holder_def Let_def)
  then show ?thesis
    using add_property_effect [OF a, of None]
    by (simp add: new_holder_def get_property_def assoc_get_def)
qed


theorem add_property_fails_iff:
  "(\<exists>e. add_property h name dflt desc t = Inl e) \<longleftrightarrow> ph_final h \<or> dflt = None"
  by (auto simp: add_property_def Let_def split: option.splits)

text \<open>A list of trimmed, separator-free elements that is written to a property joined with the separator is
  read back element by element.\<close>

theorem get_list_roundtrip:
  assumes "get_string h name dflt = Some (join_str [sep] xs)"
    and "xs \<noteq> []" "last xs \<noteq> []" "\<forall>x \<in> set xs. trim x = x \<and> sep \<notin> set x"
  shows "get_list h name dflt sep = xs"
proof -
  have "split_str sep (join_str [sep] xs) = xs \<and> join_str [sep] xs \<noteq> []"
  proof (cases "length xs \<ge> 2")
    case True
    moreover from this have "join_str [sep] xs \<noteq> []" by (cases xs rule: remdups_adj.cases) auto
    ultimately show ?thesis using assms by (auto intro: split_join)
  next
    case False
    with assms(2) obtain x where "xs = [x]" by (cases xs rule: remdups_adj.cases) auto
    with assms show ?thesis by (simp add: split_str_def)
  qed
  with assms show ?thesis by (simp add: get_list_def map_idI)
qed

theorem get_list_roundtrip_witness: "get_list (new_holder [] []) ''locales'' (Some ''en;de'') CHR '';'' = [''en'', ''de'']"
  using get_list_roundtrip [of "new_holder [] []" "''locales''" "Some ''en;de''" "CHR '';''" "[''en'', ''de'']"]
  by (simp add: get_string_def get_property_def new_holder_def assoc_get_def trim_def code_def)


lemma dropWhile_digits: "list_all is_digit ds \<Longrightarrow> dropWhile is_digit ds = []"
  by (simp add: list_all_iff)

lemma show_int_shape:
  "skip_sign (show_int i) \<noteq> [] \<and> list_all is_digit (skip_sign (show_int i))"
  "\<not> list_all java_ws (show_int i)"
  "\<not> matches_boolean (show_int i)"
proof -
  obtain c cs where s: "show_nat (nat \<bar>i\<bar>) = c # cs" using show_nat_nonempty by (meson neq_Nil_conv)
  with show_nat_digits [of "nat \<bar>i\<bar>"] have d: "is_digit c" "list_all is_digit cs" by simp_all
  have i: "show_int i = (if i < 0 then CHR ''-'' # c # cs else c # cs)"
    using s by (auto simp: show_int_def)
  from d(1) have c: "\<not> java_ws c" "\<not> is_upper c" "c \<noteq> CHR ''t''" "c \<noteq> CHR ''f''"
    by (auto simp: is_digit_def java_ws_def is_upper_def code_def)
  show "skip_sign (show_int i) \<noteq> [] \<and> list_all is_digit (skip_sign (show_int i))"
    using d is_digit_not_sign [of c] by (auto simp: i skip_sign_def)
  show "\<not> list_all java_ws (show_int i)" using c by (auto simp: i)
  have "\<not> is_upper (CHR ''-'')" by (simp add: is_upper_def code_def)
  with c show "\<not> matches_boolean (show_int i)" by (auto simp: i matches_boolean_def to_lower_def)
qed

text \<open>An integer in the range of int that is set as the value of an integer property is read back by
  getValue, and its string is classified as an integer again.\<close>

theorem set_integer_roundtrip:
  assumes "sp_type p = Some P_INT" "is_int32 i" "set_prop_value (Some (show_int i)) p = Inr q"
  shows "prop_object parse_double q = Inr (ObjInt (Some i)) \<and> type_for_string (prop_string q) = P_INT"
proof -
  have q: "q = p\<lparr>sp_value := Some (show_int i)\<rparr>" "prop_string q = Some (show_int i)"
    using assms by (auto simp: set_prop_value_def prop_string_def is_empty_str_def)
  have d: "skip_sign (show_int i) \<noteq> [] \<and> list_all is_digit (skip_sign (show_int i))"
    and ws: "\<not> list_all java_ws (show_int i)" and tf: "\<not> matches_boolean (show_int i)"
    by (rule show_int_shape)+
  then have "\<not> matches_decimal (show_int i)"
    by (simp add: matches_decimal_def Let_def dropWhile_digits)
  with q d ws tf assms(1,2) show ?thesis
    by (simp add: prop_object_def prop_integer_def parse_show_int type_for_string_def is_valid_value_def
        is_blank_def matches_int_def)
qed

theorem set_integer_roundtrip_witness:
  "\<exists>q. set_prop_value (Some (show_int (-12))) ((new_property None None None)\<lparr>sp_type := Some P_INT\<rparr>) = Inr q
     \<and> prop_object (\<lambda>_. None :: unit option) q = Inr (ObjInt (Some (-12)))"
proof -
  let ?p = "(new_property None None None)\<lparr>sp_type := Some P_INT\<rparr>"
  obtain q where s: "set_prop_value (Some (show_int (-12))) ?p = Inr q"
    by (simp add: set_prop_value_def)
  then show ?thesis
    using set_integer_roundtrip [of ?p "-12" q "\<lambda>_. None :: unit option"] by (simp add: is_int32_def)
qed


text \<open>When the short names of the properties do not collide, the plain properties hold, under the short name
  of each property, its string or else its clob.\<close>

theorem plain_properties_complete:
  assumes "inj_on short_name (set (property_names h))" "name \<in> set (property_names h)"
  shows "assoc_get (get_plain_properties h) (short_name name) = plain_value h name"
  using assms unfolding get_plain_properties_def by (rule fold_put_some) (simp add: assoc_get_def)

theorem plain_properties_complete_witness:
  "assoc_get (get_plain_properties (new_holder ''p.'' [(''p.a'', new_property None (Some ''1'') None)])) ''a'' = Some ''1''"
  using plain_properties_complete
    [of "new_holder ''p.'' [(''p.a'', new_property None (Some ''1'') None)]" "''p.a''"]
  by (simp add: new_holder_def property_names_def short_name_def plain_value_def get_property_def
      new_property_def prop_string_def is_empty_str_def assoc_get_def)

end
