(* ===== verification/Access.thy ===== *)
theory Access
  imports Java_Prelude
begin

text \<open>
  Subjects, groups, roles and permissions, and the access decisions taken on them:
  \<^verbatim>\<open>core.domain.SubjectImpl\<close>, \<^verbatim>\<open>GroupImpl\<close>,
  \<^verbatim>\<open>RoleImpl\<close>, \<^verbatim>\<open>PermissionImpl\<close>,
  \<^verbatim>\<open>ObjectUtils\<close> and \<^verbatim>\<open>api.support.DefaultPermissionProcessor\<close>.
  The sets of the entities are lists of distinct elements.  Entities are compared by id and name, as
  \<^verbatim>\<open>ObjectUtils.equals\<close> does.
\<close>

section \<open>Entities\<close>

record perm =
  pm_id :: "int option"
  pm_name :: string

record role =
  ro_id :: "int option"
  ro_name :: jstring
  ro_application :: "string option"
  ro_permissions :: "perm list"

record authgroup =
  gr_id :: "int option"
  gr_name :: jstring
  gr_default_admin :: bool
  gr_roles :: "role list option"

datatype user_type = LOCAL_USER | GLOBAL_USER | GLOBAL_GROUP

datatype change_policy = MAY | MUST | MUST_NOT | MUST_RECOVER

text \<open>Dates are points of time in milliseconds.\<close>

record subject =
  su_id :: "int option"
  su_name :: jstring
  su_realname :: jstring
  su_email :: jstring
  su_language :: jstring
  su_time_zone :: jstring
  su_digest :: jstring
  su_salt :: jstring
  su_groups :: "authgroup list option"
  su_user_type :: "user_type option"
  su_authenticated :: bool
  su_last_login :: "int option"
  su_password_last_changed :: "int option"
  su_locked :: bool
  su_change_policy :: "change_policy option"
  su_failed_attempts :: "int option"
  su_expiry :: "int option"

record application =
  ap_id :: "int option"
  ap_name :: string
  ap_roles :: "role list option"

text \<open>\<^verbatim>\<open>ObjectUtils.equals\<close> for two named objects of the same class.\<close>

definition named_equals :: "int option \<times> jstring \<Rightarrow> int option \<times> jstring \<Rightarrow> bool" where
  "named_equals a b =
     (case (fst a, fst b) of
        (None, Some _) \<Rightarrow> False
      | (Some i, other) \<Rightarrow> (if other \<noteq> Some i then False else snd a = snd b)
      | (None, None) \<Rightarrow> (case snd a of None \<Rightarrow> snd b = None | Some n \<Rightarrow> snd b = Some n))"

definition role_key :: "role \<Rightarrow> int option \<times> jstring" where
  "role_key r = (ro_id r, ro_name r)"

definition contains_role :: "role list \<Rightarrow> role \<Rightarrow> bool" where
  "contains_role rs r = list_ex (\<lambda>r'. named_equals (role_key r) (role_key r')) rs"

definition or_empty :: "'a list option \<Rightarrow> 'a list" where
  "or_empty xs = (case xs of None \<Rightarrow> [] | Some ys \<Rightarrow> ys)"

section \<open>SubjectImpl\<close>

definition set_email :: "jstring \<Rightarrow> subject \<Rightarrow> subject" where
  "set_email email s = (if \<not> is_blank email then s\<lparr>su_email := email\<rparr> else s)"

definition is_expired :: "subject \<Rightarrow> int option \<Rightarrow> bool" where
  "is_expired s date =
     (case (su_expiry s, date) of (Some x, Some d) \<Rightarrow> d > x | _ \<Rightarrow> False)"

text \<open>\<^verbatim>\<open>isInactive\<close>: the period is unboxed only when there is a last login;
  \<open>add_days\<close> is \<^verbatim>\<open>DateUtils.addDays\<close> of commons-lang.\<close>

definition is_inactive :: "(int \<Rightarrow> int \<Rightarrow> int) \<Rightarrow> subject \<Rightarrow> int \<Rightarrow> int option \<Rightarrow> java_exn + bool" where
  "is_inactive add_days s now period =
     (case su_last_login s of
        None \<Rightarrow> Inr False
      | Some l \<Rightarrow>
          (case period of
             None \<Rightarrow> Inl NullPointer
           | Some days \<Rightarrow> Inr (days > 0 \<and> add_days l days < now)))"

fun roles_hit :: "role list \<Rightarrow> role list \<Rightarrow> bool" where
  "roles_hit app_roles [] = False"
| "roles_hit app_roles (r # rs) = (if contains_role app_roles r then True else roles_hit app_roles rs)"

fun groups_hit :: "role list \<Rightarrow> authgroup list \<Rightarrow> bool" where
  "groups_hit app_roles [] = False"
| "groups_hit app_roles (g # gs) =
     (if roles_hit app_roles (or_empty (gr_roles g)) then True else groups_hit app_roles gs)"

definition subject_has_application :: "subject \<Rightarrow> application option \<Rightarrow> bool" where
  "subject_has_application s app =
     (case app of
        None \<Rightarrow> False
      | Some a \<Rightarrow> groups_hit (or_empty (ap_roles a)) (or_empty (su_groups s)))"

definition get_application_roles :: "subject \<Rightarrow> application option \<Rightarrow> role list" where
  "get_application_roles s app =
     (case app of
        None \<Rightarrow> []
      | Some a \<Rightarrow>
          concat (map (\<lambda>g. filter (contains_role (or_empty (ap_roles a))) (or_empty (gr_roles g)))
            (or_empty (su_groups s))))"

text \<open>\<^verbatim>\<open>isAuthorized\<close> does not guard against null collections.\<close>

definition group_authorized :: "int option list \<Rightarrow> authgroup \<Rightarrow> java_exn + bool" where
  "group_authorized role_ids g =
     (case gr_roles g of
        None \<Rightarrow> Inl NullPointer
      | Some rs \<Rightarrow> Inr (list_ex (\<lambda>r. ro_id r \<in> set role_ids) rs))"

definition is_authorized :: "subject \<Rightarrow> int option list option \<Rightarrow> java_exn + bool" where
  "is_authorized s authorizable =
     (case authorizable of
        None \<Rightarrow> Inr False
      | Some role_ids \<Rightarrow>
          (case su_groups s of
             None \<Rightarrow> Inl NullPointer
           | Some gs \<Rightarrow> any_m (group_authorized role_ids) gs))"

section \<open>DefaultPermissionProcessor\<close>

datatype permission_mode = PSET | PREAD

record xml_permission =
  xp_ref :: string
  xp_mode :: "permission_mode option"
  xp_value :: jstring

definition role_grants :: "application option \<Rightarrow> string \<Rightarrow> role \<Rightarrow> bool" where
  "role_grants app ref r =
     (case ro_application r of
        None \<Rightarrow> False
      | Some owner \<Rightarrow>
          (case app of None \<Rightarrow> False
           | Some a \<Rightarrow> ap_name a = owner \<and> list_ex (\<lambda>p. pm_name p = ref) (ro_permissions r)))"

definition group_grants :: "application option \<Rightarrow> string \<Rightarrow> authgroup \<Rightarrow> java_exn + bool" where
  "group_grants app ref g =
     (case gr_roles g of
        None \<Rightarrow> Inl NullPointer
      | Some rs \<Rightarrow> Inr (list_ex (role_grants app ref) rs))"

definition has_permission :: "subject option \<Rightarrow> application option \<Rightarrow> string \<Rightarrow> java_exn + bool" where
  "has_permission subj app ref =
     (case subj of
        None \<Rightarrow> Inr False
      | Some s \<Rightarrow>
          (case su_groups s of
             None \<Rightarrow> Inl NullPointer
           | Some gs \<Rightarrow> any_m (group_grants app ref) gs))"

text \<open>The loop over the permissions of an owner; it sets value and mode of the permissions.\<close>

definition show_bool :: "bool \<Rightarrow> string" where
  "show_bool b = (if b then ''true'' else ''false'')"

fun check_permissions ::
  "(string \<Rightarrow> java_exn + bool) \<Rightarrow> bool \<Rightarrow> xml_permission list \<Rightarrow> java_exn + bool \<times> xml_permission list" where
  "check_permissions has access [] = Inr (access, [])"
| "check_permissions has access (p # ps) =
     (if \<not> prefix ''anonymous'' (xp_ref p) then
        (case has (xp_ref p) of
           Inl e \<Rightarrow> Inl e
         | Inr b \<Rightarrow>
             (let q = p\<lparr>xp_value := Some (show_bool b)\<rparr>;
                  access' = (if xp_mode p = Some PSET then access \<and> b else access);
                  q' = (if xp_mode p = None then q\<lparr>xp_mode := Some PREAD\<rparr> else q)
              in case check_permissions has access' ps of
                   Inl e \<Rightarrow> Inl e
                 | Inr (r, qs) \<Rightarrow> Inr (r, q' # qs)))
      else (case check_permissions has access ps of
              Inl e \<Rightarrow> Inl e
            | Inr (r, qs) \<Rightarrow> Inr (r, p # qs)))"

definition owner_has_permissions ::
  "subject option \<Rightarrow> application option \<Rightarrow> xml_permission list option \<Rightarrow> java_exn + bool \<times> xml_permission list option" where
  "owner_has_permissions subj app permissionList =
     (case permissionList of
        None \<Rightarrow> Inr (True, None)
      | Some ps \<Rightarrow>
          (case check_permissions (has_permission subj app) True ps of
             Inl e \<Rightarrow> Inl e
           | Inr (r, qs) \<Rightarrow> Inr (r, Some qs)))"

datatype field_permission_type = FREAD | FWRITE

record field_permissions =
  fp_mode :: "field_permission_type option"
  fp_permissions :: "xml_permission list"

record field_def =
  fd_readonly :: jstring
  fd_permissions :: "field_permissions list option"

fun first_matching :: "field_permission_type \<Rightarrow> field_permissions list \<Rightarrow> field_permissions option" where
  "first_matching t [] = None"
| "first_matching t (f # fs) =
     (if fp_mode f = None \<or> fp_mode f = Some t then Some f else first_matching t fs)"

definition field_permission ::
  "subject option \<Rightarrow> application option \<Rightarrow> field_def \<Rightarrow> field_permission_type \<Rightarrow> bool \<Rightarrow> java_exn + bool" where
  "field_permission subj app fd t precondition =
     (case fd_permissions fd of
        None \<Rightarrow> Inr precondition
      | Some fs \<Rightarrow>
          (case first_matching t fs of
             None \<Rightarrow> Inr precondition
           | Some f \<Rightarrow>
               (if precondition
                then map_sum id fst (check_permissions (has_permission subj app) True (fp_permissions f))
                else Inr False)))"

definition has_write_permission :: "subject option \<Rightarrow> application option \<Rightarrow> field_def \<Rightarrow> java_exn + bool" where
  "has_write_permission subj app fd =
     (let isWriteable = \<not> (case fd_readonly fd of None \<Rightarrow> False | Some v \<Rightarrow> to_lower v = ''true'')
      in field_permission subj app fd FWRITE isWriteable)"

definition has_read_permission :: "subject option \<Rightarrow> application option \<Rightarrow> field_def \<Rightarrow> java_exn + bool" where
  "has_read_permission subj app fd = field_permission subj app fd FREAD True"

section \<open>Properties\<close>

lemma named_equals_eq [simp]: "named_equals a b \<longleftrightarrow> a = b"
  by (cases a; cases b) (auto simp: named_equals_def split: option.splits)

lemma contains_role_iff: "contains_role rs r \<longleftrightarrow> role_key r \<in> role_key ` set rs"
  by (auto simp: contains_role_def list_ex_iff)

lemma roles_hit_iff: "roles_hit ar rs \<longleftrightarrow> (\<exists>r \<in> set rs. contains_role ar r)"
  by (induction rs) auto

lemma groups_hit_iff: "groups_hit ar gs \<longleftrightarrow> (\<exists>g \<in> set gs. \<exists>r \<in> set (or_empty (gr_roles g)). contains_role ar r)"
  by (induction gs) (auto simp: roles_hit_iff)

lemma or_empty_simps [simp]: "or_empty None = []" "or_empty (Some xs) = xs"
  by (simp_all add: or_empty_def)

text \<open>The roles a subject has through its groups.\<close>

definition roles_of :: "subject \<Rightarrow> role set" where
  "roles_of s = (\<Union>g \<in> set (or_empty (su_groups s)). set (or_empty (gr_roles g)))"

definition complete_subject :: "subject \<Rightarrow> bool" where
  "complete_subject s = (su_groups s \<noteq> None \<and> list_all (\<lambda>g. gr_roles g \<noteq> None) (or_empty (su_groups s)))"

lemma complete_groups:
  assumes "complete_subject s"
  obtains gs where "su_groups s = Some gs" "\<And>g. g \<in> set gs \<Longrightarrow> gr_roles g \<noteq> None"
  using assms by (auto simp: complete_subject_def list_all_iff)

definition example_app :: application where
  "example_app = \<lparr>ap_id = Some 1, ap_name = ''shop'', ap_roles = Some []\<rparr>"

definition example_subject :: subject where
  "example_subject = \<lparr>su_id = Some 1, su_name = Some ''jane'', su_realname = None, su_email = None,
     su_language = Some ''en'', su_time_zone = None, su_digest = Some ''secret'', su_salt = None,
     su_groups = Some [\<lparr>gr_id = Some 1, gr_name = Some ''editors'', gr_default_admin = False,
        gr_roles = Some [\<lparr>ro_id = Some 5, ro_name = Some ''editor'', ro_application = Some ''shop'',
           ro_permissions = [\<lparr>pm_id = Some 9, pm_name = ''edit''\<rparr>]\<rparr>]\<rparr>],
     su_user_type = Some LOCAL_USER, su_authenticated = False, su_last_login = None,
     su_password_last_changed = None, su_locked = False, su_change_policy = Some MAY,
     su_failed_attempts = Some 0, su_expiry = None\<rparr>"

lemma example_subject_complete: "complete_subject example_subject"
  by (simp add: complete_subject_def example_subject_def)

lemma example_subject_roles: "ro_application r = Some ''shop'' \<and> ro_permissions r = [\<lparr>pm_id = Some 9, pm_name = ''edit''\<rparr>]"
  if "r \<in> roles_of example_subject"
  using that by (auto simp: roles_of_def example_subject_def)

text \<open>A subject has an application exactly when it has a role of it: the application roles of a subject are
  the roles of its groups that the application declares.\<close>

theorem has_application_iff_roles:
  "(subject_has_application s app \<longleftrightarrow> get_application_roles s app \<noteq> [])
   \<and> set (get_application_roles s (Some a)) = {r \<in> roles_of s. role_key r \<in> role_key ` set (or_empty (ap_roles a))}"
  by (cases app)
     (auto simp: subject_has_application_def get_application_roles_def groups_hit_iff contains_role_iff roles_of_def
        filter_empty_conv)

text \<open>C18: A subject holds a permission in an application if and only if one of its groups has a role of an
  application of that name which carries a permission of that name.\<close>

theorem has_permission_iff:
  assumes "complete_subject s"
  shows "has_permission (Some s) app ref = Inr b \<longleftrightarrow>
    (b \<longleftrightarrow> (\<exists>a r p. app = Some a \<and> r \<in> roles_of s \<and> ro_application r = Some (ap_name a)
              \<and> p \<in> set (ro_permissions r) \<and> pm_name p = ref))"
proof -
  obtain gs where gs: "su_groups s = Some gs" "\<And>g. g \<in> set gs \<Longrightarrow> gr_roles g \<noteq> None"
    using complete_groups [OF assms] by blast
  have "any_m (group_grants app ref) gs = any_m (\<lambda>g. Inr (list_ex (role_grants app ref) (or_empty (gr_roles g)))) gs"
    by (rule any_m_cong) (auto simp: group_grants_def dest: gs(2))
  then have "has_permission (Some s) app ref = Inr (\<exists>g \<in> set gs. \<exists>r \<in> set (or_empty (gr_roles g)). role_grants app ref r)"
    by (simp add: has_permission_def gs(1) any_m_total list_ex_iff)
  also have "(\<exists>g \<in> set gs. \<exists>r \<in> set (or_empty (gr_roles g)). role_grants app ref r)
      \<longleftrightarrow> (\<exists>r \<in> roles_of s. role_grants app ref r)"
    by (simp add: roles_of_def gs(1))
  also have "(\<exists>r \<in> roles_of s. role_grants app ref r) \<longleftrightarrow>
      (\<exists>a r p. app = Some a \<and> r \<in> roles_of s \<and> ro_application r = Some (ap_name a)
              \<and> p \<in> set (ro_permissions r) \<and> pm_name p = ref)"
    by (cases app) (fastforce simp: role_grants_def list_ex_iff split: option.splits)+
  finally show ?thesis by (simp only: sum.inject) (rule eq_commute)
qed

theorem has_permission_iff_witness:
  "has_permission (Some example_subject) (Some example_app) ''edit'' = Inr True
   \<and> has_permission (Some example_subject) (Some example_app) ''remove'' = Inr False"
  using has_permission_iff [OF example_subject_complete, of "Some example_app" "''edit''" True]
    has_permission_iff [OF example_subject_complete, of "Some example_app" "''remove''" False]
    example_subject_roles
  by (auto simp: example_app_def roles_of_def example_subject_def)


text \<open>What the loop does to one permission.\<close>

definition mark_permission :: "(string \<Rightarrow> bool) \<Rightarrow> xml_permission \<Rightarrow> xml_permission" where
  "mark_permission holds p =
     (if prefix ''anonymous'' (xp_ref p) then p
      else p\<lparr>xp_value := Some (show_bool (holds (xp_ref p))),
             xp_mode := Some (case xp_mode p of None \<Rightarrow> PREAD | Some m \<Rightarrow> m)\<rparr>)"

lemma check_permissions_total:
  assumes "\<And>ref. has ref = Inr (holds ref)"
  shows "check_permissions has access ps =
    Inr (access \<and> (\<forall>p \<in> set ps. xp_mode p = Some PSET \<and> \<not> prefix ''anonymous'' (xp_ref p) \<longrightarrow> holds (xp_ref p)),
         map (mark_permission holds) ps)"
  using assms by (induction ps arbitrary: access) (auto simp: mark_permission_def Let_def split: option.splits)

text \<open>The owner of a list of permissions is accessible if and only if every permission in SET mode whose
  reference does not start with anonymous is held; every such permission is marked with whether it is held,
  and READ becomes its mode where none was given.\<close>

theorem owner_permissions_spec:
  assumes "\<And>ref. has_permission subj app ref = Inr (holds ref)"
  shows "owner_has_permissions subj app (Some ps) =
    Inr (\<forall>p \<in> set ps. xp_mode p = Some PSET \<and> \<not> prefix ''anonymous'' (xp_ref p) \<longrightarrow> holds (xp_ref p),
         Some (map (mark_permission holds) ps))"
  by (simp add: owner_has_permissions_def check_permissions_total [OF assms])

theorem owner_permissions_spec_witness:
  "owner_has_permissions None (Some example_app) (Some [\<lparr>xp_ref = ''edit'', xp_mode = Some PSET, xp_value = None\<rparr>])
     = Inr (False, Some [\<lparr>xp_ref = ''edit'', xp_mode = Some PSET, xp_value = Some ''false''\<rparr>])"
  using owner_permissions_spec [of None "Some example_app" "\<lambda>_. False"
      "[\<lparr>xp_ref = ''edit'', xp_mode = Some PSET, xp_value = None\<rparr>]"]
  by (simp add: has_permission_def mark_permission_def show_bool_def)


lemma map_sum_Inr: "map_sum id f x = Inr y \<longleftrightarrow> (\<exists>z. x = Inr z \<and> f z = y)"
  by (cases x) auto

lemma check_permissions_result:
  "check_permissions has access ps = Inr (b, qs) \<Longrightarrow>
     b \<longleftrightarrow> access \<and> (\<forall>p \<in> set ps. xp_mode p = Some PSET \<and> \<not> prefix ''anonymous'' (xp_ref p) \<longrightarrow>
                       has (xp_ref p) = Inr True)"
  by (induction ps arbitrary: access qs) (auto simp: Let_def split: sum.splits if_splits)

text \<open>C35: A field is writable only when it is not read-only and every permission in SET mode of the field
  permissions that apply to writing is held by the subject.\<close>

theorem write_implies_not_readonly:
  assumes "has_write_permission subj app fd = Inr True"
  shows "(\<forall>v. fd_readonly fd = Some v \<longrightarrow> to_lower v \<noteq> ''true'')
    \<and> (\<forall>fs f. fd_permissions fd = Some fs \<and> first_matching FWRITE fs = Some f \<longrightarrow>
         (\<forall>p \<in> set (fp_permissions f). xp_mode p = Some PSET \<and> \<not> prefix ''anonymous'' (xp_ref p) \<longrightarrow>
            has_permission subj app (xp_ref p) = Inr True))"
proof -
  have f: "field_permission subj app fd FWRITE w = Inr True \<Longrightarrow> w" for w
    by (auto simp: field_permission_def split: option.splits if_splits)
  let ?ro = "case fd_readonly fd of None \<Rightarrow> False | Some v \<Rightarrow> to_lower v = ''true''"
  have w: "field_permission subj app fd FWRITE (\<not> ?ro) = Inr True"
    using assms by (simp add: has_write_permission_def)
  with f have ro: "\<not> ?ro" by blast
  with w show ?thesis
    by (auto simp: field_permission_def map_sum_Inr split: option.splits dest!: check_permissions_result)
qed

theorem write_implies_not_readonly_witness:
  "has_write_permission (Some example_subject) (Some example_app)
     \<lparr>fd_readonly = Some ''false'', fd_permissions = Some [\<lparr>fp_mode = Some FWRITE,
        fp_permissions = [\<lparr>xp_ref = ''edit'', xp_mode = Some PSET, xp_value = None\<rparr>]\<rparr>]\<rparr> = Inr True
   \<and> has_permission (Some example_subject) (Some example_app) ''edit'' = Inr True"
proof -
  let ?fd = "\<lparr>fd_readonly = Some ''false'', fd_permissions = Some [\<lparr>fp_mode = Some FWRITE,
        fp_permissions = [\<lparr>xp_ref = ''edit'', xp_mode = Some PSET, xp_value = None\<rparr>]\<rparr>]\<rparr>"
  have "has_write_permission (Some example_subject) (Some example_app) ?fd = Inr True"
    by (simp add: has_write_permission_def field_permission_def to_lower_def is_upper_def code_def Let_def
        has_permission_def example_subject_def example_app_def group_grants_def role_grants_def)
  with write_implies_not_readonly [OF this] show ?thesis by simp
qed

end
