(* ===== verification/Sites.thy ===== *)
theory Sites
  imports Props Access
begin

text \<open>
  Sites (appng-core): \<^verbatim>\<open>core.domain.SiteImpl\<close> with its applications, its state and
  its counter of running requests, and the states of \<^verbatim>\<open>api.model.Site\<close>.  The sender of
  events, the class loader and the directories of a site belong to the container and are left out; the
  events a state change sends are returned.
\<close>

section \<open>State\<close>

datatype site_state = STARTING | STARTED | SUSPENDED | STOPPING | STOPPED | INACTIVE | DELETED

text \<open>The order of the constants, as \<^verbatim>\<open>Enum.compareTo\<close> has it.\<close>

fun site_state_ordinal :: "site_state \<Rightarrow> nat" where
  "site_state_ordinal STARTING = 0"
| "site_state_ordinal STARTED = 1"
| "site_state_ordinal SUSPENDED = 2"
| "site_state_ordinal STOPPING = 3"
| "site_state_ordinal STOPPED = 4"
| "site_state_ordinal INACTIVE = 5"
| "site_state_ordinal DELETED = 6"

lemma site_state_ordinal_inject: "site_state_ordinal a = site_state_ordinal b \<Longrightarrow> a = b"
  by (cases a; cases b) simp_all

instantiation site_state :: linorder
begin

definition less_eq_site_state :: "site_state \<Rightarrow> site_state \<Rightarrow> bool" where
  "less_eq_site_state a b = (site_state_ordinal a \<le> site_state_ordinal b)"

definition less_site_state :: "site_state \<Rightarrow> site_state \<Rightarrow> bool" where
  "less_site_state a b = (site_state_ordinal a < site_state_ordinal b)"

instance
  by standard
    (auto simp: less_eq_site_state_def less_site_state_def dest: site_state_ordinal_inject)

end

record site_application =
  sa_application :: application
  sa_active :: bool
  sa_granted_sites :: "string list"

record site =
  si_id :: "int option"
  si_name :: string
  si_host :: string
  si_host_aliases :: "string list"
  si_domain :: string
  si_active :: bool
  si_applications :: "site_application list"
  si_properties :: prop_holder
  si_state :: "site_state option"
  si_running :: bool
  si_requests :: int
  si_reload_count :: int
  si_sender :: bool

record site_event =
  ev_site :: string
  ev_state :: "site_state option"

section \<open>Operations\<close>

definition get_applications :: "site \<Rightarrow> application list" where
  "get_applications s = map sa_application (si_applications s)"

definition get_application_map :: "site \<Rightarrow> (string \<times> application) list" where
  "get_application_map s =
     fold (\<lambda>sa. assoc_put (ap_name (sa_application sa)) (sa_application sa)) (si_applications s) []"

definition get_application :: "site \<Rightarrow> jstring \<Rightarrow> application option" where
  "get_application s name =
     (case name of None \<Rightarrow> None | Some n \<Rightarrow> assoc_get (get_application_map s) n)"

definition site_has_application :: "site \<Rightarrow> jstring \<Rightarrow> bool" where
  "site_has_application s name = (get_application s name \<noteq> None)"

definition get_site_application :: "site \<Rightarrow> string \<Rightarrow> site_application option" where
  "get_site_application s name = find (\<lambda>sa. ap_name (sa_application sa) = name) (si_applications s)"

definition send_event :: "site \<Rightarrow> bool \<Rightarrow> bool" where
  "send_event s sender_result = (if \<not> si_sender s then False else sender_result)"

text \<open>\<^verbatim>\<open>setState\<close>: the new state and the event that is handed to the sender.\<close>

definition set_state :: "site \<Rightarrow> site_state option \<Rightarrow> site \<times> site_event" where
  "set_state s st = (s\<lparr>si_state := st\<rparr>, \<lparr>ev_site = si_name s, ev_state = st\<rparr>)"

definition has_state :: "site \<Rightarrow> site_state list option \<Rightarrow> bool" where
  "has_state s states =
     (case states of
        None \<Rightarrow> si_state s = None
      | Some sts \<Rightarrow> list_ex (\<lambda>st. Some st = si_state s) sts)"

definition add_request :: "site \<Rightarrow> int \<times> site" where
  "add_request s = (let n = int32 (si_requests s + 1) in (n, s\<lparr>si_requests := n\<rparr>))"

definition remove_request :: "site \<Rightarrow> int \<times> site" where
  "remove_request s = (let n = int32 (si_requests s - 1) in (n, s\<lparr>si_requests := n\<rparr>))"

text \<open>
  The target of \<^verbatim>\<open>sendRedirect\<close>: a relative target is resolved against the manager path and
  the site; for Internet Explorer the anchor is repeated as a parameter.  A user agent that is missing makes
  the operation throw once the tab id is to be appended.
\<close>

definition redirect_target :: "site \<Rightarrow> string \<Rightarrow> jstring \<Rightarrow> string \<Rightarrow> java_exn + string" where
  "redirect_target s gui_path user_agent target =
     (let completePath = (if \<not> prefix ''/'' target then gui_path @ ''/'' @ si_name s @ ''/'' @ target else target);
          tabIdx = index_of (CHR ''#'') completePath
      in if get_boolean (si_properties s) ''appendTabId'' (Some False) = None then Inl NullPointer
         else if get_boolean (si_properties s) ''appendTabId'' (Some False) = Some True \<and> tabIdx > 0 then
           (case user_agent of
              None \<Rightarrow> Inl NullPointer
            | Some ua \<Rightarrow>
                (if contains_str ua ''MSIE'' then
                   (let qmIdx = index_of (CHR ''?'') completePath;
                        tabId = drop (nat tabIdx + 1) completePath;
                        pathExtension = (if qmIdx < 0 then ''?'' else ''&'') @ ''tab='' @ tabId @ ''#'' @ tabId
                    in Inr (take (nat tabIdx) completePath @ pathExtension))
                 else Inr completePath))
         else Inr completePath)"

end
