(* ===== verification/Environment.thy ===== *)
theory Environment
  imports Sites
begin

text \<open>
  The scoped environment (appng-api, package \<^verbatim>\<open>support.environment\<close>): the containers of
  platform, site, session and request scope, and the attribute access of
  \<^verbatim>\<open>DefaultEnvironment\<close>.  A \<open>world\<close> is what the servlet container
  keeps: the attributes of the servlet context, the container of the current request and the sessions.  An
  \<open>environment\<close> is the object itself.  Operations pass the world along and return the
  exception or the result with the world they leave behind.
\<close>

section \<open>Scopes\<close>

datatype scope = PLATFORM | SITE | SESSION | REQUEST | URL

definition scope_name :: "scope \<Rightarrow> string" where
  "scope_name s = (case s of PLATFORM \<Rightarrow> ''PLATFORM'' | SITE \<Rightarrow> ''SITE'' | SESSION \<Rightarrow> ''SESSION''
     | REQUEST \<Rightarrow> ''REQUEST'' | URL \<Rightarrow> ''URL'')"

definition for_site :: "scope \<Rightarrow> string \<Rightarrow> java_exn + string" where
  "for_site s name =
     (if s = SITE then Inr (scope_name s @ ''.'' @ name)
      else Inl (IllegalArgument (''not allowed for scope '' @ scope_name s)))"

text \<open>The identifier of the site scope, \<^verbatim>\<open>Scope.SITE.forSite(name)\<close>.\<close>

definition site_identifier :: "string \<Rightarrow> string" where
  "site_identifier name = (case for_site SITE name of Inr i \<Rightarrow> i | Inl _ \<Rightarrow> [])"

section \<open>Values and the world\<close>

text \<open>
  The objects that are kept as attributes.  \<open>VObject\<close> is an object of an application class,
  with the site of the class loader that defined the class.
\<close>

datatype env_value =
    VSite site
  | VSites "(string \<times> site) list"
  | VProps prop_holder
  | VSubject subject
  | VString string
  | VLocale string
  | VZone string
  | VBool bool
  | VObject jstring nat

fun loader_site :: "env_value \<Rightarrow> jstring" where
  "loader_site (VObject l n) = l"
| "loader_site v = None"

text \<open>An entry of a container; the session scope wraps its values with the name of a site.\<close>

text \<open>
  \<^verbatim>\<open>Objects.equals\<close> on attribute values: subjects and sites are compared by id and
  name (\<^verbatim>\<open>ObjectUtils.equals\<close>), the other values structurally.
\<close>

fun value_equals :: "env_value option \<Rightarrow> env_value option \<Rightarrow> bool" where
  "value_equals None None = True"
| "value_equals (Some (VSubject a)) (Some (VSubject b)) = named_equals (su_id a, su_name a) (su_id b, su_name b)"
| "value_equals (Some (VSite a)) (Some (VSite b)) =
     named_equals (si_id a, Some (si_name a)) (si_id b, Some (si_name b))"
| "value_equals a b = (a = b)"

datatype entry = Plain env_value | Wrapped jstring env_value

fun entry_value :: "entry \<Rightarrow> env_value" where
  "entry_value (Plain v) = v"
| "entry_value (Wrapped s v) = v"

type_synonym entries = "(string \<times> entry) list"

record http_session =
  hs_container :: "entries option"
  hs_changed :: bool

record world =
  w_context :: "(string \<times> entries) list"
  w_request :: "entries option"
  w_sessions :: "(nat \<times> http_session) list"
  w_current :: "nat option"
  w_next :: nat

type_synonym 'a op = "world \<Rightarrow> (java_exn + 'a) \<times> world"

definition ret :: "'a \<Rightarrow> 'a op" where
  "ret x w = (Inr x, w)"

definition bind_op :: "'a op \<Rightarrow> ('a \<Rightarrow> 'b op) \<Rightarrow> 'b op" where
  "bind_op m f w = (case m w of (Inl e, w') \<Rightarrow> (Inl e, w') | (Inr x, w') \<Rightarrow> f x w')"

section \<open>Scoped environments\<close>

record session_env =
  se_fixed :: "nat option"
  se_site :: jstring

datatype scoped_env = ContextEnv string | SessionEnv session_env | RequestEnv

definition empty_session :: http_session where
  "empty_session = \<lparr>hs_container = None, hs_changed = False\<rparr>"

text \<open>\<^verbatim>\<open>getHttpSession\<close>: the given session, or the session of the request, which the
  servlet container creates when there is none.  A given session that was invalidated throws.\<close>

definition get_http_session :: "session_env \<Rightarrow> nat op" where
  "get_http_session se w =
     (case se_fixed se of
        Some i \<Rightarrow> (if assoc_get (w_sessions w) i = None then (Inl (IllegalState ''session invalidated''), w)
                   else (Inr i, w))
      | None \<Rightarrow>
          (case w_current w of
             Some i \<Rightarrow> (Inr i, w)
           | None \<Rightarrow> (Inr (w_next w),
               w\<lparr>w_sessions := assoc_put (w_next w) empty_session (w_sessions w),
                 w_current := Some (w_next w), w_next := w_next w + 1\<rparr>)))"

definition session_state :: "world \<Rightarrow> nat \<Rightarrow> http_session" where
  "session_state w i = (case assoc_get (w_sessions w) i of Some s \<Rightarrow> s | None \<Rightarrow> empty_session)"

definition update_session :: "nat \<Rightarrow> (http_session \<Rightarrow> http_session) \<Rightarrow> world \<Rightarrow> world" where
  "update_session i f w = w\<lparr>w_sessions := assoc_put i (f (session_state w i)) (w_sessions w)\<rparr>"

text \<open>\<^verbatim>\<open>getContainer\<close> of the four classes: a missing container is created and kept.\<close>

definition get_container :: "scoped_env \<Rightarrow> entries op" where
  "get_container env w =
     (case env of
        ContextEnv ident \<Rightarrow>
          (case assoc_get (w_context w) ident of
             Some c \<Rightarrow> (Inr c, w)
           | None \<Rightarrow> (Inr [], w\<lparr>w_context := assoc_put ident [] (w_context w)\<rparr>))
      | RequestEnv \<Rightarrow>
          (case w_request w of
             Some c \<Rightarrow> (Inr c, w)
           | None \<Rightarrow> (Inr [], w\<lparr>w_request := Some []\<rparr>))
      | SessionEnv se \<Rightarrow>
          bind_op (get_http_session se) (\<lambda>i w.
            case hs_container (session_state w i) of
              Some c \<Rightarrow> (Inr c, w)
            | None \<Rightarrow> (Inr [], update_session i (\<lambda>s. s\<lparr>hs_container := Some []\<rparr>) w)) w)"

text \<open>The map that \<^verbatim>\<open>getContainer\<close> returns is shared with its scope: an update of it is an
  update of the world.\<close>

definition update_container :: "scoped_env \<Rightarrow> (entries \<Rightarrow> entries) \<Rightarrow> unit op" where
  "update_container env f =
     bind_op (get_container env) (\<lambda>c w.
       case env of
         ContextEnv ident \<Rightarrow> (Inr (), w\<lparr>w_context := assoc_put ident (f c) (w_context w)\<rparr>)
       | RequestEnv \<Rightarrow> (Inr (), w\<lparr>w_request := Some (f c)\<rparr>)
       | SessionEnv se \<Rightarrow>
           bind_op (get_http_session se) (\<lambda>i w.
             (Inr (), update_session i (\<lambda>s. s\<lparr>hs_container := Some (f c)\<rparr>) w)) w)"

definition scoped_get :: "scoped_env \<Rightarrow> string \<Rightarrow> env_value option op" where
  "scoped_get env name =
     bind_op (get_container env) (\<lambda>c. ret (map_option entry_value (assoc_get c name)))"

definition mark_dirty :: "session_env \<Rightarrow> unit op" where
  "mark_dirty se =
     bind_op (get_http_session se) (\<lambda>i w. (Inr (), update_session i (\<lambda>s. s\<lparr>hs_changed := True\<rparr>) w))"

text \<open>The constructor of \<^verbatim>\<open>AttributeWrapper\<close>.\<close>

definition new_wrapper :: "jstring \<Rightarrow> env_value option \<Rightarrow> java_exn + entry" where
  "new_wrapper siteName v =
     (case v of
        None \<Rightarrow> Inl (IllegalArgument ''value can not be null'')
      | Some x \<Rightarrow> Inr (Wrapped (if loader_site x \<noteq> None then loader_site x else siteName) x))"

definition scoped_set :: "scoped_env \<Rightarrow> string \<Rightarrow> env_value option \<Rightarrow> unit op" where
  "scoped_set env name v =
     (case env of
        SessionEnv se \<Rightarrow>
          bind_op (scoped_get env name) (\<lambda>old.
            if \<not> value_equals v old then
              bind_op (mark_dirty se) (\<lambda>_.
              bind_op (get_container env) (\<lambda>_ w.
                case new_wrapper (se_site se) v of
                  Inl e \<Rightarrow> (Inl e, w)
                | Inr x \<Rightarrow> update_container env (assoc_put name x) w))
            else ret ())
      | _ \<Rightarrow>
          bind_op (get_container env) (\<lambda>_ w.
            case v of
              None \<Rightarrow> (Inl NullPointer, w)
            | Some x \<Rightarrow> update_container env (assoc_put name (Plain x)) w))"

definition scoped_remove :: "scoped_env \<Rightarrow> string \<Rightarrow> env_value option op" where
  "scoped_remove env name =
     (case env of
        SessionEnv se \<Rightarrow>
          bind_op (get_container env) (\<lambda>c.
            if name \<in> fst ` set c then
              bind_op (mark_dirty se) (\<lambda>_.
              bind_op (update_container env (assoc_remove name)) (\<lambda>_.
                ret (map_option entry_value (assoc_get c name))))
            else ret None)
      | _ \<Rightarrow>
          bind_op (get_container env) (\<lambda>c.
          bind_op (update_container env (assoc_remove name)) (\<lambda>_.
            ret (map_option entry_value (assoc_get c name)))))"

definition scoped_keys :: "scoped_env \<Rightarrow> string list op" where
  "scoped_keys env = bind_op (get_container env) (\<lambda>c. ret (map fst c))"

text \<open>\<^verbatim>\<open>getAttributeAsString\<close>; \<open>to_string\<close> is the
  \<^verbatim>\<open>toString\<close> of the stored object.\<close>

definition scoped_get_string :: "(env_value \<Rightarrow> string) \<Rightarrow> scoped_env \<Rightarrow> string \<Rightarrow> jstring op" where
  "scoped_get_string to_string env name =
     bind_op (get_container env) (\<lambda>c. ret (map_option (\<lambda>e. to_string (entry_value e)) (assoc_get c name)))"

text \<open>\<^verbatim>\<open>SessionEnvironment.getAttributes\<close> and \<^verbatim>\<open>logout\<close>.\<close>

definition session_attributes :: "session_env \<Rightarrow> (string \<times> env_value) list op" where
  "session_attributes se =
     bind_op (get_container (SessionEnv se)) (\<lambda>c. ret (map (\<lambda>(k, e). (k, entry_value e)) c))"

definition session_logout :: "session_env \<Rightarrow> unit op" where
  "session_logout se =
     bind_op (get_http_session se) (\<lambda>i w.
       (Inr (), w\<lparr>w_sessions := assoc_remove i (w_sessions w),
          w_current := (if w_current w = Some i then None else w_current w)\<rparr>))"

section \<open>DefaultEnvironment: attribute access\<close>

record environment =
  en_platform :: bool
  en_site :: jstring
  en_session :: "session_env option"
  en_request :: bool
  en_initialized :: bool
  en_locale :: string
  en_time_zone :: string
  en_enabled :: "(scope \<times> bool) list"

definition enable :: "scope \<Rightarrow> environment \<Rightarrow> environment" where
  "enable sc e = e\<lparr>en_enabled := assoc_put sc True (en_enabled e)\<rparr>"

definition disable :: "scope \<Rightarrow> environment \<Rightarrow> environment" where
  "disable sc e = e\<lparr>en_enabled := assoc_put sc False (en_enabled e)\<rparr>"

definition get_environment :: "environment \<Rightarrow> scope \<Rightarrow> scoped_env option" where
  "get_environment e sc =
     (if assoc_get (en_enabled e) sc = Some True then
        (case sc of
           PLATFORM \<Rightarrow> (if en_platform e then Some (ContextEnv (scope_name PLATFORM)) else None)
         | SITE \<Rightarrow> map_option ContextEnv (en_site e)
         | SESSION \<Rightarrow> map_option SessionEnv (en_session e)
         | REQUEST \<Rightarrow> (if en_request e then Some RequestEnv else None)
         | URL \<Rightarrow> None)
      else None)"

definition set_attribute :: "environment \<Rightarrow> scope \<Rightarrow> string \<Rightarrow> env_value option \<Rightarrow> unit op" where
  "set_attribute e sc name v =
     (case get_environment e sc of None \<Rightarrow> ret () | Some env \<Rightarrow> scoped_set env name v)"

definition get_attribute :: "environment \<Rightarrow> scope \<Rightarrow> string \<Rightarrow> env_value option op" where
  "get_attribute e sc name =
     (case get_environment e sc of None \<Rightarrow> ret None | Some env \<Rightarrow> scoped_get env name)"

definition remove_attribute :: "environment \<Rightarrow> scope \<Rightarrow> string \<Rightarrow> env_value option op" where
  "remove_attribute e sc name =
     (case get_environment e sc of None \<Rightarrow> ret None | Some env \<Rightarrow> scoped_remove env name)"

definition get_attribute_as_string :: "(env_value \<Rightarrow> string) \<Rightarrow> environment \<Rightarrow> scope \<Rightarrow> string \<Rightarrow> jstring op" where
  "get_attribute_as_string to_string e sc name =
     (case get_environment e sc of None \<Rightarrow> ret None | Some env \<Rightarrow> scoped_get_string to_string env name)"

definition key_set :: "environment \<Rightarrow> scope \<Rightarrow> string list option op" where
  "key_set e sc =
     (case get_environment e sc of
        None \<Rightarrow> ret None
      | Some env \<Rightarrow> bind_op (scoped_keys env) (\<lambda>ks. ret (Some ks)))"

section \<open>The contract of a scope\<close>

text \<open>
  What the clients of a scope rely on: after an attribute was stored it is read back, removing makes it
  absent, and other names are untouched.  \<open>usable\<close> says that the scope can be accessed.
\<close>

locale scoped_store =
  fixes usable :: "'w \<Rightarrow> bool"
    and look :: "'w \<Rightarrow> string \<Rightarrow> env_value option"
    and put :: "string \<Rightarrow> env_value \<Rightarrow> 'w \<Rightarrow> 'w"
    and del :: "string \<Rightarrow> 'w \<Rightarrow> 'w"
    and eqv :: "env_value option \<Rightarrow> env_value option \<Rightarrow> bool"
  assumes put_usable: "usable w \<Longrightarrow> usable (put n v w)"
    and del_usable: "usable w \<Longrightarrow> usable (del n w)"
    and look_put: "usable w \<Longrightarrow> eqv (Some v) (look (put n v w) n)"
    and look_put_other: "usable w \<Longrightarrow> m \<noteq> n \<Longrightarrow> look (put n v w) m = look w m"
    and look_del: "usable w \<Longrightarrow> look (del n w) m = (if m = n then None else look w m)"
begin

abbreviation put_all :: "(string \<times> env_value) list \<Rightarrow> 'w \<Rightarrow> 'w" where
  "put_all \<equiv> fold (\<lambda>(n, v). put n v)"

lemma put_all_usable: "usable w \<Longrightarrow> usable (put_all kvs w)"
  by (induction kvs arbitrary: w) (auto simp: put_usable)

lemma put_all_other: "usable w \<Longrightarrow> m \<notin> fst ` set kvs \<Longrightarrow> look (put_all kvs w) m = look w m"
  by (induction kvs arbitrary: w) (auto simp: put_usable look_put_other)

lemma put_all_look:
  "usable w \<Longrightarrow> distinct (map fst kvs) \<Longrightarrow> (n, v) \<in> set kvs \<Longrightarrow> eqv (Some v) (look (put_all kvs w) n)"
proof (induction kvs arbitrary: w)
  case (Cons kv kvs)
  obtain k u where kv: "kv = (k, u)" by (cases kv)
  show ?case
  proof (cases "k = n")
    case True
    with Cons.prems kv have "u = v" and "n \<notin> fst ` set kvs" by force+
    with True kv Cons.prems(1) show ?thesis by (simp add: put_all_other put_usable look_put)
  next
    case False
    with Cons kv show ?thesis by (simp add: put_usable)
  qed
qed simp

lemma del_all_look:
  "usable w \<Longrightarrow> usable (fold del ns w) \<and> look (fold del ns w) m = (if m \<in> set ns then None else look w m)"
  by (induction ns arbitrary: w) (auto simp: del_usable look_del)

lemma put_then_del: "usable w \<Longrightarrow> look (del n (put n v w)) m = look (del n w) m"
  by (simp add: look_del put_usable look_put_other)

end

section \<open>The contract holds for every scope\<close>

lemmas op_defs = bind_op_def ret_def

definition scope_look :: "scoped_env \<Rightarrow> world \<Rightarrow> string \<Rightarrow> env_value option" where
  "scope_look env w n = (case fst (scoped_get env n w) of Inr v \<Rightarrow> v | Inl _ \<Rightarrow> None)"

definition scope_put :: "scoped_env \<Rightarrow> string \<Rightarrow> env_value \<Rightarrow> world \<Rightarrow> world" where
  "scope_put env n v w = snd (scoped_set env n (Some v) w)"

definition scope_del :: "scoped_env \<Rightarrow> string \<Rightarrow> world \<Rightarrow> world" where
  "scope_del env n w = snd (scoped_remove env n w)"

text \<open>A scope is usable unless it is bound to a session that was invalidated.\<close>

definition scope_usable :: "scoped_env \<Rightarrow> world \<Rightarrow> bool" where
  "scope_usable env w =
     (case env of
        SessionEnv se \<Rightarrow>
          (case se_fixed se of
             Some i \<Rightarrow> assoc_get (w_sessions w) i \<noteq> None
           | None \<Rightarrow> (case w_current w of None \<Rightarrow> True | Some i \<Rightarrow> assoc_get (w_sessions w) i \<noteq> None))
      | _ \<Rightarrow> True)"

lemma session_state_update [simp]:
  "session_state (update_session i f w) j = (if j = i then f (session_state w i) else session_state w j)"
  by (simp add: session_state_def update_session_def)

lemma update_session_fields [simp]:
  "w_current (update_session i f w) = w_current w" "w_context (update_session i f w) = w_context w"
  "w_request (update_session i f w) = w_request w" "w_next (update_session i f w) = w_next w"
  "assoc_get (w_sessions (update_session i f w)) j =
     (if j = i then Some (f (session_state w i)) else assoc_get (w_sessions w) j)"
  by (simp_all add: update_session_def)

lemma bind_pair: "m w = (Inr x, w') \<Longrightarrow> bind_op m f w = f x w'"
  by (simp add: bind_op_def)

lemma ret_apply [simp]: "ret x w = (Inr x, w)"
  by (simp add: ret_def)

text \<open>The entries of a scope, and the world once its container exists.\<close>

definition entries_of :: "scoped_env \<Rightarrow> world \<Rightarrow> entries" where
  "entries_of env w = (case fst (get_container env w) of Inr c \<Rightarrow> c | Inl _ \<Rightarrow> [])"

definition touched :: "scoped_env \<Rightarrow> world \<Rightarrow> world" where
  "touched env w = snd (get_container env w)"

text \<open>A scope is opened when its container exists, with the given entries.\<close>

definition opened :: "scoped_env \<Rightarrow> entries \<Rightarrow> world \<Rightarrow> bool" where
  "opened env c w = (get_container env w = (Inr c, w))"

definition in_session :: "session_env \<Rightarrow> nat \<Rightarrow> world \<Rightarrow> bool" where
  "in_session se i w = (assoc_get (w_sessions w) i \<noteq> None \<and>
     (case se_fixed se of Some j \<Rightarrow> j = i | None \<Rightarrow> w_current w = Some i))"

lemma in_session_get: "in_session se i w \<Longrightarrow> get_http_session se w = (Inr i, w)"
  by (auto simp: in_session_def get_http_session_def split: option.splits)

lemma bind_session: "in_session se i w \<Longrightarrow> bind_op (get_http_session se) f w = f i w"
  by (simp add: bind_op_def in_session_get)

lemma in_session_update [simp]: "in_session se i w \<Longrightarrow> in_session se i (update_session i f w)"
  by (auto simp: in_session_def split: option.splits)

lemma session_usable:
  assumes "scope_usable (SessionEnv se) w"
  obtains i w' where "get_http_session se w = (Inr i, w')" "in_session se i w'"
  using assms
  by (cases "se_fixed se"; cases "w_current w")
    (auto simp: scope_usable_def get_http_session_def in_session_def)

lemma in_session_opened:
  assumes "in_session se i w" "hs_container (session_state w i) = Some c"
  shows "opened (SessionEnv se) c w"
  using assms(2) by (simp add: opened_def get_container_def bind_session [OF assms(1)])

lemma container_usable:
  assumes "scope_usable env w"
  shows "get_container env w = (Inr (entries_of env w), touched env w)"
    and "opened env (entries_of env w) (touched env w)"
proof -
  have "\<exists>c w'. get_container env w = (Inr c, w') \<and> opened env c w'"
  proof (cases env)
    case (SessionEnv se)
    obtain i w1 where s: "get_http_session se w = (Inr i, w1)" "in_session se i w1"
      using session_usable assms SessionEnv by metis
    show ?thesis
    proof (cases "hs_container (session_state w1 i)")
      case None
      let ?w = "update_session i (\<lambda>s. s\<lparr>hs_container := Some []\<rparr>) w1"
      have "opened env [] ?w" unfolding SessionEnv by (rule in_session_opened [of _ i]) (simp_all add: s)
      moreover have "get_container env w = (Inr [], ?w)"
        using s None unfolding SessionEnv by (simp add: get_container_def bind_pair)
      ultimately show ?thesis by blast
    next
      case (Some c)
      have "opened env c w1" using s Some unfolding SessionEnv by (auto intro: in_session_opened)
      moreover have "get_container env w = (Inr c, w1)"
        using s Some unfolding SessionEnv by (simp add: get_container_def bind_pair)
      ultimately show ?thesis by blast
    qed
  qed (auto simp: get_container_def opened_def split: option.splits)
  then show "get_container env w = (Inr (entries_of env w), touched env w)"
    and "opened env (entries_of env w) (touched env w)"
    by (auto simp: entries_of_def touched_def opened_def)
qed

lemma opened_simps:
  assumes "opened env c w"
  shows "get_container env w = (Inr c, w)" "entries_of env w = c" "touched env w = w"
  using assms by (simp_all add: opened_def entries_of_def touched_def)

lemma opened_in_session:
  assumes "opened (SessionEnv se) c w" "scope_usable (SessionEnv se) w"
  obtains i where "in_session se i w" "hs_container (session_state w i) = Some c"
proof -
  obtain i w1 where s: "get_http_session se w = (Inr i, w1)" "in_session se i w1"
    using session_usable [OF assms(2)] by metis
  have e: "get_container (SessionEnv se) w = (Inr c, w)" using assms(1) by (simp add: opened_def)
  show thesis
  proof (cases "hs_container (session_state w1 i)")
    case None
    with e s have "update_session i (\<lambda>s. s\<lparr>hs_container := Some []\<rparr>) w1 = w" "c = []"
      by (simp_all add: get_container_def bind_pair)
    with s that [of i] show thesis by auto
  next
    case (Some d)
    with e s have "w1 = w" "d = c" by (simp_all add: get_container_def bind_pair)
    with Some s that [of i] show thesis by simp
  qed
qed

lemma in_session_usable: "in_session se i w \<Longrightarrow> scope_usable (SessionEnv se) w"
  by (auto simp: in_session_def scope_usable_def split: option.splits)

lemma touched_usable: "scope_usable env w \<Longrightarrow> scope_usable env (touched env w)"
proof (cases env)
  case (SessionEnv se)
  assume u: "scope_usable env w"
  obtain i w1 where s: "get_http_session se w = (Inr i, w1)" "in_session se i w1"
    using session_usable u SessionEnv by metis
  then have "in_session se i (touched env w)" unfolding SessionEnv
    by (auto simp: touched_def get_container_def bind_pair split: option.splits)
  then show ?thesis unfolding SessionEnv by (rule in_session_usable)
qed (auto simp: scope_usable_def)

lemma update_opened:
  assumes "opened env c w" "scope_usable env w"
  shows "\<exists>w'. update_container env f w = (Inr (), w') \<and> opened env (f c) w' \<and> scope_usable env w'"
proof (cases env)
  case (SessionEnv se)
  obtain i where i: "in_session se i w" "hs_container (session_state w i) = Some c"
    using opened_in_session assms SessionEnv by metis
  let ?w = "update_session i (\<lambda>s. s\<lparr>hs_container := Some (f c)\<rparr>) w"
  have "in_session se i ?w" "hs_container (session_state ?w i) = Some (f c)" using i by simp_all
  then have "opened env (f c) ?w" "scope_usable env ?w"
    unfolding SessionEnv by (auto intro: in_session_opened in_session_usable)
  moreover have "update_container env f w = (Inr (), ?w)"
    using opened_simps(1) [OF assms(1)] unfolding SessionEnv
    by (simp add: update_container_def bind_pair bind_session [OF i(1)])
  ultimately show ?thesis by blast
next
  case (ContextEnv ident)
  with opened_simps(1) [OF assms(1)] show ?thesis
    by (simp add: update_container_def bind_pair opened_def get_container_def scope_usable_def)
next
  case RequestEnv
  with opened_simps(1) [OF assms(1)] show ?thesis
    by (simp add: update_container_def bind_pair opened_def get_container_def scope_usable_def)
qed

lemma mark_opened:
  assumes "opened (SessionEnv se) c w" "scope_usable (SessionEnv se) w"
  shows "\<exists>w'. mark_dirty se w = (Inr (), w') \<and> opened (SessionEnv se) c w' \<and> scope_usable (SessionEnv se) w'"
proof -
  obtain i where i: "in_session se i w" "hs_container (session_state w i) = Some c"
    using opened_in_session assms by metis
  let ?w = "update_session i (\<lambda>s. s\<lparr>hs_changed := True\<rparr>) w"
  have "in_session se i ?w" "hs_container (session_state ?w i) = Some c" using i by simp_all
  then have "opened (SessionEnv se) c ?w" "scope_usable (SessionEnv se) ?w"
    by (auto intro: in_session_opened in_session_usable)
  then show ?thesis by (simp add: mark_dirty_def bind_session [OF i(1)])
qed


section \<open>Storing and removing\<close>

lemma scoped_get_usable:
  assumes "scope_usable env w"
  shows "scoped_get env n w = (Inr (map_option entry_value (assoc_get (entries_of env w) n)), touched env w)"
  using container_usable [OF assms] by (simp add: scoped_get_def bind_pair)

lemma scope_look_entries:
  "scope_usable env w \<Longrightarrow> scope_look env w n = map_option entry_value (assoc_get (entries_of env w) n)"
  by (simp add: scope_look_def scoped_get_usable)

definition wrap :: "scoped_env \<Rightarrow> env_value \<Rightarrow> entry" where
  "wrap env v = (case env of
      SessionEnv se \<Rightarrow> Wrapped (if loader_site v \<noteq> None then loader_site v else se_site se) v
    | _ \<Rightarrow> Plain v)"

text \<open>A session attribute that equals the stored one is not replaced.\<close>

definition keeps_old :: "scoped_env \<Rightarrow> string \<Rightarrow> env_value \<Rightarrow> world \<Rightarrow> bool" where
  "keeps_old env n v w =
     (case env of SessionEnv se \<Rightarrow> value_equals (Some v) (scope_look env w n) | _ \<Rightarrow> False)"

lemma entry_value_wrap [simp]: "entry_value (wrap env v) = v"
  by (simp add: wrap_def split: scoped_env.splits)

lemma scope_put_entries:
  assumes "scope_usable env w"
  shows "scoped_set env n (Some v) w = (Inr (), scope_put env n v w)
    \<and> scope_usable env (scope_put env n v w)
    \<and> entries_of env (scope_put env n v w) =
      (if keeps_old env n v w then entries_of env w else assoc_put n (wrap env v) (entries_of env w))"
proof -
  let ?c = "entries_of env w" and ?t = "touched env w"
  note c = container_usable [OF assms] and u = touched_usable [OF assms]
  obtain w1 where w1: "update_container env (assoc_put n (wrap env v)) ?t = (Inr (), w1)"
      "opened env (assoc_put n (wrap env v) ?c) w1" "scope_usable env w1"
    using update_opened [OF c(2) u] by blast
  show ?thesis
  proof (cases env)
    case (SessionEnv se)
    obtain w2 where w2: "mark_dirty se ?t = (Inr (), w2)" "opened env ?c w2" "scope_usable env w2"
      using mark_opened c(2) u unfolding SessionEnv by blast
    obtain w3 where w3: "update_container env (assoc_put n (wrap env v)) w2 = (Inr (), w3)"
        "opened env (assoc_put n (wrap env v) ?c) w3" "scope_usable env w3"
      using update_opened [OF w2(2,3)] by blast
    have keep: "keeps_old env n v w \<longleftrightarrow> value_equals (Some v) (map_option entry_value (assoc_get ?c n))"
      unfolding SessionEnv by (simp add: keeps_old_def scope_look_entries [OF assms [unfolded SessionEnv]])
    have "scoped_set env n (Some v) w = (Inr (), if keeps_old env n v w then ?t else w3)"
      using w2(1) w3(1) opened_simps(1) [OF w2(2)] keep unfolding SessionEnv
      by (auto simp: scoped_set_def scoped_get_usable [OF assms [unfolded SessionEnv]] bind_pair
          new_wrapper_def wrap_def)
    then show ?thesis
      using opened_simps(2) [OF w3(2)] opened_simps(2) [OF c(2)] w3(3) u by (simp add: scope_put_def)
  next
    case (ContextEnv ident)
    then show ?thesis
      using w1 c(1) opened_simps(2) [OF w1(2)]
      by (simp add: scope_put_def scoped_set_def bind_pair wrap_def keeps_old_def)
  next
    case RequestEnv
    then show ?thesis
      using w1 c(1) opened_simps(2) [OF w1(2)]
      by (simp add: scope_put_def scoped_set_def bind_pair wrap_def keeps_old_def)
  qed
qed


lemma scope_del_entries:
  assumes "scope_usable env w"
  shows "scoped_remove env n w = (Inr (scope_look env w n), scope_del env n w)
    \<and> scope_usable env (scope_del env n w)
    \<and> entries_of env (scope_del env n w) = assoc_remove n (entries_of env w)"
proof -
  let ?c = "entries_of env w" and ?t = "touched env w"
  note c = container_usable [OF assms] and u = touched_usable [OF assms]
  note l = scope_look_entries [OF assms]
  obtain w1 where w1: "update_container env (assoc_remove n) ?t = (Inr (), w1)"
      "opened env (assoc_remove n ?c) w1" "scope_usable env w1"
    using update_opened [OF c(2) u] by blast
  show ?thesis
  proof (cases env)
    case (SessionEnv se)
    obtain w2 where w2: "mark_dirty se ?t = (Inr (), w2)" "opened env ?c w2" "scope_usable env w2"
      using mark_opened c(2) u unfolding SessionEnv by blast
    obtain w3 where w3: "update_container env (assoc_remove n) w2 = (Inr (), w3)"
        "opened env (assoc_remove n ?c) w3" "scope_usable env w3"
      using update_opened [OF w2(2,3)] by blast
    have absent: "n \<notin> fst ` set ?c \<Longrightarrow> assoc_get ?c n = None \<and> assoc_remove n ?c = ?c"
      by (force simp: assoc_get_def assoc_remove_def map_of_eq_None_iff intro!: filter_True)
    have "scoped_remove env n w =
        (Inr (map_option entry_value (assoc_get ?c n)), if n \<in> fst ` set ?c then w3 else ?t)"
      using w2(1) w3(1) absent unfolding SessionEnv
      by (auto simp: scoped_remove_def c(1) [unfolded SessionEnv] bind_pair)
    then show ?thesis
      using opened_simps(2) [OF w3(2)] opened_simps(2) [OF c(2)] w3(3) u absent l
      by (auto simp: scope_del_def)
  next
    case (ContextEnv ident)
    then show ?thesis
      using w1 c(1) l opened_simps(2) [OF w1(2)]
      by (simp add: scope_del_def scoped_remove_def bind_pair)
  next
    case RequestEnv
    then show ?thesis
      using w1 c(1) l opened_simps(2) [OF w1(2)]
      by (simp add: scope_del_def scoped_remove_def bind_pair)
  qed
qed

definition scope_eqv :: "scoped_env \<Rightarrow> env_value option \<Rightarrow> env_value option \<Rightarrow> bool" where
  "scope_eqv env a b = (case env of SessionEnv _ \<Rightarrow> value_equals a b | _ \<Rightarrow> a = b)"

lemma value_equals_refl [simp]: "value_equals a a"
  by (cases "(a, a)" rule: value_equals.cases) auto

interpretation scope: scoped_store "scope_usable env" "scope_look env" "scope_put env" "scope_del env" "scope_eqv env"
  for env
proof unfold_locales
  fix w n v m
  assume u: "scope_usable env w"
  note p = scope_put_entries [OF u, of n v] and d = scope_del_entries [OF u, of n]
  show "scope_usable env (scope_put env n v w)" "scope_usable env (scope_del env n w)"
    using p d by simp_all
  show "scope_eqv env (Some v) (scope_look env (scope_put env n v w) n)"
    using p u by (auto simp: scope_look_entries scope_eqv_def keeps_old_def split: scoped_env.splits)
  show "m \<noteq> n \<Longrightarrow> scope_look env (scope_put env n v w) m = scope_look env w m"
    using p u by (simp add: scope_look_entries)
  show "scope_look env (scope_del env n w) m = (if m = n then None else scope_look env w m)"
    using d u by (simp add: scope_look_entries)
qed


section \<open>Properties\<close>

definition empty_world :: world where
  "empty_world = \<lparr>w_context = [], w_request = None, w_sessions = [], w_current = None, w_next = 0\<rparr>"

definition site_env :: "string \<Rightarrow> environment" where
  "site_env name = \<lparr>en_platform = True, en_site = Some (site_identifier name),
     en_session = Some \<lparr>se_fixed = None, se_site = Some name\<rparr>, en_request = True, en_initialized = True,
     en_locale = ''en'', en_time_zone = ''UTC'',
     en_enabled = [(PLATFORM, True), (SITE, True), (SESSION, True), (REQUEST, True)]\<rparr>"

text \<open>C20: An attribute that is stored in an available scope is read back from it as an equal value, all other
  attributes of the scope stay as they were, and removing an attribute returns it and makes it absent.\<close>

theorem attribute_read_back:
  assumes "get_environment e sc = Some env" "scope_usable env w"
  shows "\<exists>w'. set_attribute e sc name (Some v) w = (Inr (), w')
     \<and> (\<exists>v' w''. get_attribute e sc name w' = (Inr (Some v'), w'') \<and> value_equals (Some v) (Some v'))
     \<and> (\<forall>m. m \<noteq> name \<longrightarrow> fst (get_attribute e sc m w') = fst (get_attribute e sc m w))
     \<and> (\<exists>v' w''. remove_attribute e sc name w' = (Inr (Some v'), w'') \<and> value_equals (Some v) (Some v')
           \<and> fst (get_attribute e sc name w'') = Inr None)"
proof -
  let ?w = "scope_put env name v w"
  have put: "set_attribute e sc name (Some v) w = (Inr (), ?w)" and u: "scope_usable env ?w"
    using scope_put_entries [OF assms(2), of name v] assms(1) by (simp_all add: set_attribute_def)
  have get: "fst (get_attribute e sc m w0) = Inr (scope_look env w0 m)" if "scope_usable env w0" for m w0
    using that assms(1) by (simp add: get_attribute_def scoped_get_usable scope_look_entries)
  have "scope_eqv env (Some v) (scope_look env ?w name)"
    by (rule scope.look_put [OF assms(2)])
  then have "value_equals (Some v) (scope_look env ?w name)"
    by (auto simp: scope_eqv_def split: scoped_env.splits)
  then obtain v' where v': "scope_look env ?w name = Some v'" "value_equals (Some v) (Some v')"
    by (cases "scope_look env ?w name") auto
  have other: "\<forall>m. m \<noteq> name \<longrightarrow> fst (get_attribute e sc m ?w) = fst (get_attribute e sc m w)"
    using get [OF assms(2)] get [OF u] scope.look_put_other [OF assms(2)] by simp
  have del: "remove_attribute e sc name ?w = (Inr (Some v'), scope_del env name ?w)"
    "scope_usable env (scope_del env name ?w)"
    using scope_del_entries [OF u, of name] assms(1) v'(1) by (simp_all add: remove_attribute_def)
  have "fst (get_attribute e sc name (scope_del env name ?w)) = Inr None"
    using get [OF del(2)] scope.look_del [OF u] by simp
  moreover have "get_attribute e sc name ?w = (Inr (Some v'), snd (get_attribute e sc name ?w))"
    using get [OF u, of name] v'(1) by (cases "get_attribute e sc name ?w") simp
  ultimately show ?thesis using put v'(2) other del(1) by blast
qed

theorem attribute_read_back_witness:
  "\<exists>w'. set_attribute (site_env ''a'') SESSION ''x'' (Some (VString ''1'')) empty_world = (Inr (), w')
     \<and> (\<exists>v' w''. get_attribute (site_env ''a'') SESSION ''x'' w' = (Inr (Some v'), w'')
          \<and> value_equals (Some (VString ''1'')) (Some v'))"
proof -
  let ?env = "SessionEnv \<lparr>se_fixed = None, se_site = Some ''a''\<rparr>"
  have "get_environment (site_env ''a'') SESSION = Some ?env"
    by (simp add: get_environment_def site_env_def assoc_get_def)
  moreover have "scope_usable ?env empty_world" by (simp add: scope_usable_def empty_world_def)
  ultimately show ?thesis using attribute_read_back by blast
qed


lemma site_identifier_eq: "site_identifier a = ''SITE.'' @ a"
  by (simp add: site_identifier_def for_site_def scope_name_def)

lemma context_set_frame:
  assumes "scoped_set (ContextEnv i) n v w = (r, w')"
  shows "w_sessions w' = w_sessions w" "w_current w' = w_current w" "w_next w' = w_next w" "w_request w' = w_request w"
    "j \<noteq> i \<Longrightarrow> assoc_get (w_context w') j = assoc_get (w_context w) j"
  using assms
  by (auto simp: scoped_set_def bind_op_def get_container_def update_container_def split: option.splits)

lemma scoped_get_frame:
  assumes "w_sessions w' = w_sessions w" "w_current w' = w_current w" "w_next w' = w_next w" "w_request w' = w_request w"
    and "\<And>j. env = ContextEnv j \<Longrightarrow> assoc_get (w_context w') j = assoc_get (w_context w) j"
  shows "fst (scoped_get env m w') = fst (scoped_get env m w)"
  using assms
  by (auto simp: scoped_get_def bind_op_def get_container_def get_http_session_def session_state_def
      split: scoped_env.splits option.splits)

text \<open>C31: The scopes of two sites are isolated: whatever is stored in the site scope of one environment, an
  environment of another site (or of no site) reads the same values as before, in every scope.\<close>

theorem site_scope_isolated:
  assumes "en_site e1 = Some (site_identifier a)"
    and "en_site e2 = Some (site_identifier b) \<and> a \<noteq> b \<or> en_site e2 = None"
    and "set_attribute e1 SITE name v w = (r, w')"
  shows "fst (get_attribute e2 sc m w') = fst (get_attribute e2 sc m w)"
proof (cases "get_environment e1 SITE")
  case None
  with assms(3) show ?thesis by (simp add: set_attribute_def)
next
  case (Some env1)
  then have "scoped_set (ContextEnv (site_identifier a)) name v w = (r, w')"
    using assms(1,3) by (auto simp: set_attribute_def get_environment_def split: if_splits)
  note f = context_set_frame [OF this]
  have "fst (scoped_get env m w') = fst (scoped_get env m w)" if "get_environment e2 sc = Some env" for env
  proof (rule scoped_get_frame [OF f(1-4)])
    fix j
    assume "env = ContextEnv j"
    with that assms(2) have "j \<noteq> site_identifier a"
      by (auto simp: get_environment_def site_identifier_eq scope_name_def split: if_splits scope.splits)
    then show "assoc_get (w_context w') j = assoc_get (w_context w) j" by (rule f(5))
  qed
  then show ?thesis by (simp add: get_attribute_def split: option.splits)
qed

theorem site_scope_isolated_witness:
  "\<exists>w'. set_attribute (site_env ''a'') SITE ''x'' (Some (VString ''1'')) empty_world = (Inr (), w')
     \<and> fst (get_attribute (site_env ''b'') SITE ''x'' w') = fst (get_attribute (site_env ''b'') SITE ''x'' empty_world)"
proof -
  have "get_environment (site_env ''a'') SITE = Some (ContextEnv (site_identifier ''a''))"
    by (simp add: get_environment_def site_env_def assoc_get_def)
  then obtain w' where w: "set_attribute (site_env ''a'') SITE ''x'' (Some (VString ''1'')) empty_world = (Inr (), w')"
    by (simp add: set_attribute_def scoped_set_def bind_op_def get_container_def update_container_def empty_world_def
        assoc_get_def)
  have "fst (get_attribute (site_env ''b'') SITE ''x'' w') = fst (get_attribute (site_env ''b'') SITE ''x'' empty_world)"
    by (rule site_scope_isolated [where a = "''a''" and b = "''b''", OF _ _ w]) (simp_all add: site_env_def)
  with w show ?thesis by blast
qed

end
