(* ===== verification/Site_Lookup.thy ===== *)
theory Site_Lookup
  imports Environment Path_Info
begin

text \<open>
  \<^verbatim>\<open>org.appng.api.RequestUtil\<close> (appng-api): which site a request belongs to, waiting for
  a site that is being started, and the path of a request.  The sites and the configuration are attributes
  of the platform scope.
\<close>

section \<open>Reading the platform scope\<close>

definition cast_sites :: "env_value option \<Rightarrow> java_exn + (string \<times> site) list" where
  "cast_sites v = (case v of None \<Rightarrow> Inr [] | Some (VSites m) \<Rightarrow> Inr m | Some _ \<Rightarrow> Inl ClassCast)"

definition cast_props :: "env_value option \<Rightarrow> java_exn + prop_holder" where
  "cast_props v = (case v of None \<Rightarrow> Inl NullPointer | Some (VProps p) \<Rightarrow> Inr p | Some _ \<Rightarrow> Inl ClassCast)"

definition lift :: "java_exn + 'a \<Rightarrow> 'a op" where
  "lift r w = (r, w)"

definition get_site_map :: "environment \<Rightarrow> (string \<times> site) list op" where
  "get_site_map e = bind_op (get_attribute e PLATFORM ''sites'') (\<lambda>v. lift (cast_sites v))"

definition platform_config :: "environment \<Rightarrow> prop_holder op" where
  "platform_config e = bind_op (get_attribute e PLATFORM ''platformConfig'') (\<lambda>v. lift (cast_props v))"

section \<open>The site of a request\<close>

record servlet_request =
  rq_local_addr :: string
  rq_server_name :: string
  rq_attr_site :: jstring
  rq_header_site :: jstring
  rq_servlet_path :: jstring

datatype match_scope = MATCH_SITE_NAME | MATCH_SITE_HOSTS | UNDEFINED

datatype vhost_mode = IP_BASED | NAME_BASED

definition vhost_mode_of :: "jstring \<Rightarrow> java_exn + vhost_mode" where
  "vhost_mode_of s =
     (case s of
        None \<Rightarrow> Inl NullPointer
      | Some m \<Rightarrow> (if m = ''IP_BASED'' then Inr IP_BASED
                   else if m = ''NAME_BASED'' then Inr NAME_BASED
                   else Inl (IllegalArgument (''No enum constant '' @ m))))"

text \<open>The identifier for a host mode, and \<^verbatim>\<open>getRequestIdentifier\<close>.\<close>

definition identify :: "vhost_mode \<Rightarrow> servlet_request \<Rightarrow> string \<times> match_scope" where
  "identify mode rq =
     (if mode = IP_BASED then (rq_local_addr rq, MATCH_SITE_HOSTS)
      else (case trim_to_null (rq_attr_site rq) of
              Some v \<Rightarrow> (v, MATCH_SITE_NAME)
            | None \<Rightarrow>
                (case trim_to_null (rq_header_site rq) of
                   Some v \<Rightarrow> (v, MATCH_SITE_NAME)
                 | None \<Rightarrow> (rq_server_name rq, MATCH_SITE_HOSTS))))"

definition get_request_identifier :: "environment \<Rightarrow> servlet_request \<Rightarrow> (string \<times> match_scope) op" where
  "get_request_identifier e rq =
     bind_op (platform_config e) (\<lambda>cfg.
     bind_op (lift (vhost_mode_of (get_string cfg ''vHostMode'' None))) (\<lambda>mode.
     ret (identify mode rq)))"

definition find_host :: "string \<Rightarrow> (string \<times> site) list \<Rightarrow> site option" where
  "find_host host m =
     find (\<lambda>s. host = si_host s \<or> host \<in> set (si_host_aliases s)) (map snd m)"

definition get_site_by_host :: "environment \<Rightarrow> jstring \<Rightarrow> site option op" where
  "get_site_by_host e host =
     (case host of
        None \<Rightarrow> ret None
      | Some h \<Rightarrow> (if h = [] then ret None else bind_op (get_site_map e) (\<lambda>m. ret (find_host h m))))"

definition get_site_by_name :: "environment \<Rightarrow> string \<Rightarrow> site option op" where
  "get_site_by_name e name = bind_op (get_site_map e) (\<lambda>m. ret (assoc_get m name))"

definition get_site :: "environment option \<Rightarrow> servlet_request option \<Rightarrow> site option op" where
  "get_site env request =
     (case (env, request) of
        (Some e, Some rq) \<Rightarrow>
          bind_op (get_request_identifier e rq) (\<lambda>(name, sc).
            case sc of
              MATCH_SITE_NAME \<Rightarrow> get_site_by_name e name
            | MATCH_SITE_HOSTS \<Rightarrow> get_site_by_host e (Some name)
            | UNDEFINED \<Rightarrow> ret None)
      | _ \<Rightarrow> ret None)"

definition get_site_names :: "environment \<Rightarrow> string list op" where
  "get_site_names e = bind_op (get_site_map e) (\<lambda>m. ret (map fst m))"

section \<open>Waiting for a site\<close>

text \<open>
  \<^verbatim>\<open>waitForSite\<close>: the site is looked up again and again while other threads change its
  state, so the look-ups are the function \<open>look\<close> of their number; \<open>interrupted k\<close> says that
  the sleep after look-up \<open>k\<close> throws, which leaves the waited time as it is.  The result is the
  number of the look-up that ends the loop; the site is then looked up once more.
\<close>

partial_function (option) wait_loop ::
  "(nat \<Rightarrow> site option) \<Rightarrow> (nat \<Rightarrow> bool) \<Rightarrow> int \<Rightarrow> int \<Rightarrow> int \<Rightarrow> nat \<Rightarrow> nat option" where
  "wait_loop look interrupted waitTime maxWaitTime waited k =
     (case look k of
        None \<Rightarrow> Some k
      | Some s \<Rightarrow>
          (if waited < maxWaitTime \<and> \<not> has_state s (Some [STARTED])
           then wait_loop look interrupted waitTime maxWaitTime
                  (if interrupted k then waited else waited + waitTime) (k + 1)
           else Some k))"

definition wait_for_site ::
  "prop_holder option \<Rightarrow> (nat \<Rightarrow> site option) \<Rightarrow> (nat \<Rightarrow> bool) \<Rightarrow> (java_exn + site option) option" where
  "wait_for_site cfg look interrupted =
     (if (case look 0 of None \<Rightarrow> True | Some s \<Rightarrow> has_state s (Some [STARTED, SUSPENDED, INACTIVE, DELETED]))
      then Some (Inr (look 0))
      else (case cfg of
              None \<Rightarrow> Some (Inl NullPointer)
            | Some p \<Rightarrow>
                (case (get_integer p ''waitTime'' (Some 1000), get_integer p ''maxWaitTime'' (Some 30000)) of
                   (Some wt, Some mwt) \<Rightarrow>
                     map_option (\<lambda>k. Inr (look (k + 1))) (wait_loop look interrupted wt mwt 0 1)
                 | _ \<Rightarrow> Some (Inl NullPointer))))"

section \<open>The path of a request\<close>

definition get_path_info :: "environment \<Rightarrow> site \<Rightarrow> jstring \<Rightarrow> path_info op" where
  "get_path_info e s servletPath =
     bind_op (platform_config e) (\<lambda>cfg.
       let str = (\<lambda>h n. case get_string h n None of Some v \<Rightarrow> v | None \<Rightarrow> []) in
       lift (new_path_info (si_host s) (si_domain s) (si_name s) servletPath
         (str (si_properties s) ''manager-path'') (str (si_properties s) ''service-path'')
         (get_list (si_properties s) ''assetsDir'' (Some []) CHR '';'')
         (get_list (si_properties s) ''documentDir'' (Some []) CHR '';'')
         (str cfg ''repositoryPath'') (str cfg ''monitoringPath'') (str cfg ''jspFileType'')))"

section \<open>Properties\<close>

definition serves :: "site \<Rightarrow> string \<Rightarrow> bool" where
  "serves s host = (host = si_host s \<or> host \<in> set (si_host_aliases s))"

text \<open>What a platform scope offers: the configuration and the sites.\<close>

definition platform_offers :: "environment \<Rightarrow> world \<Rightarrow> prop_holder \<Rightarrow> (string \<times> site) list \<Rightarrow> bool" where
  "platform_offers e w cfg m =
     (\<exists>c. get_environment e PLATFORM = Some (ContextEnv (scope_name PLATFORM))
        \<and> assoc_get (w_context w) (scope_name PLATFORM) = Some c
        \<and> assoc_get c ''platformConfig'' = Some (Plain (VProps cfg)) \<and> assoc_get c ''sites'' = Some (Plain (VSites m)))"

lemma platform_attributes:
  assumes "platform_offers e w cfg m"
  shows "get_attribute e PLATFORM ''platformConfig'' w = (Inr (Some (VProps cfg)), w)"
    and "get_attribute e PLATFORM ''sites'' w = (Inr (Some (VSites m)), w)"
  using assms
  by (auto simp: platform_offers_def get_attribute_def scoped_get_def bind_op_def get_container_def ret_def)

lemma platform_reads:
  assumes "platform_offers e w cfg m"
  shows "platform_config e w = (Inr cfg, w)" "get_site_map e w = (Inr m, w)"
  using platform_attributes [OF assms]
  by (simp_all add: platform_config_def get_site_map_def bind_pair lift_def cast_props_def cast_sites_def)

lemma find_host_serves: "find_host h m = Some s \<Longrightarrow> s \<in> snd ` set m \<and> serves s h"
  by (induction m) (auto simp: find_host_def serves_def split: if_splits)

definition example_config :: prop_holder where
  "example_config = new_holder [] [(''vHostMode'', new_property None (Some ''NAME_BASED'') None)]"

definition example_site :: site where
  "example_site = \<lparr>si_id = Some 1, si_name = ''shop'', si_host = ''shop.example.com'', si_host_aliases = [],
     si_domain = ''http://shop.example.com'', si_active = True, si_applications = [],
     si_properties = new_holder [] [], si_state = Some STARTED, si_running = True, si_requests = 0,
     si_reload_count = 0, si_sender = False\<rparr>"

definition example_request :: servlet_request where
  "example_request = \<lparr>rq_local_addr = ''127.0.0.1'', rq_server_name = ''localhost'', rq_attr_site = None,
     rq_header_site = Some ''shop'', rq_servlet_path = Some ''/''\<rparr>"

definition example_world :: world where
  "example_world = empty_world\<lparr>w_context := [(''PLATFORM'',
     [(''platformConfig'', Plain (VProps example_config)), (''sites'', Plain (VSites [(''shop'', example_site)]))])]\<rparr>"

text \<open>C19: The site of a request is a site of the platform.  With address based hosts it answers to the address the
  request came in on; with name based hosts the name set by the connector decides, then the name in the site
  header, and only without both of them the server name is matched against hosts and aliases.\<close>

theorem get_site_sound:
  assumes "platform_offers e w cfg m" "vhost_mode_of (get_string cfg ''vHostMode'' None) = Inr mode"
    and "get_site (Some e) (Some rq) w = (Inr (Some s), w')"
  shows "w' = w \<and> s \<in> snd ` set m
    \<and> (mode = IP_BASED \<longrightarrow> serves s (rq_local_addr rq))
    \<and> (mode = NAME_BASED \<longrightarrow>
         (case (trim_to_null (rq_attr_site rq), trim_to_null (rq_header_site rq)) of
            (Some v, _) \<Rightarrow> assoc_get m v = Some s
          | (None, Some v) \<Rightarrow> assoc_get m v = Some s
          | (None, None) \<Rightarrow> serves s (rq_server_name rq)))"
proof -
  note r = platform_reads [OF assms(1)]
  have id: "get_request_identifier e rq w = (Inr (identify mode rq), w)"
    using r assms(2) by (simp add: get_request_identifier_def bind_pair lift_def)
  have g: "(case identify mode rq of (name, sc) \<Rightarrow>
      (case sc of MATCH_SITE_NAME \<Rightarrow> get_site_by_name e name | MATCH_SITE_HOSTS \<Rightarrow> get_site_by_host e (Some name)
        | UNDEFINED \<Rightarrow> ret None) w) = (Inr (Some s), w')"
    using assms(3) id by (simp add: get_site_def bind_pair split: prod.splits)
  have host: "get_site_by_host e (Some h) w = (Inr (Some s), w') \<Longrightarrow> w' = w \<and> s \<in> snd ` set m \<and> serves s h" for h
    using r find_host_serves by (auto simp: get_site_by_host_def bind_pair split: if_splits)
  have name: "get_site_by_name e n w = (Inr (Some s), w') \<Longrightarrow> w' = w \<and> s \<in> snd ` set m \<and> assoc_get m n = Some s" for n
    using r by (auto simp: get_site_by_name_def bind_pair assoc_get_def dest!: map_of_SomeD intro: rev_image_eqI)
  from g show ?thesis
    by (auto simp: identify_def split: if_splits option.splits dest!: host name)
qed

theorem get_site_sound_witness:
  "\<exists>w'. get_site (Some (site_env ''a'')) (Some example_request) example_world = (Inr (Some example_site), w')
      \<and> assoc_get [(''shop'', example_site)] ''shop'' = Some example_site"
proof -
  have p: "platform_offers (site_env ''a'') example_world example_config [(''shop'', example_site)]"
    by (simp add: platform_offers_def example_world_def get_environment_def site_env_def assoc_get_def scope_name_def)
  have v: "vhost_mode_of (get_string example_config ''vHostMode'' None) = Inr NAME_BASED"
    by (simp add: example_config_def new_holder_def get_string_def get_property_def assoc_get_def new_property_def
        prop_string_def is_empty_str_def vhost_mode_of_def)
  have t: "trim_to_null None = None" "trim_to_null (Some ''shop'') = Some ''shop''"
    by (simp_all add: trim_to_null_def trim_def code_def)
  have "get_site (Some (site_env ''a'')) (Some example_request) example_world = (Inr (Some example_site), example_world)"
    using platform_reads [OF p] v t
    by (simp add: get_site_def get_request_identifier_def bind_pair lift_def identify_def example_request_def
        get_site_by_name_def assoc_get_def)
  with get_site_sound [OF p v this] show ?thesis by (simp add: example_request_def t)
qed


text \<open>Look-up \<open>j\<close> ends the waiting when \<open>t\<close> milliseconds have been waited.\<close>

definition wait_over :: "(nat \<Rightarrow> site option) \<Rightarrow> int \<Rightarrow> nat \<Rightarrow> int \<Rightarrow> bool" where
  "wait_over look maxWaitTime j t =
     (case look j of None \<Rightarrow> True | Some s \<Rightarrow> has_state s (Some [STARTED]) \<or> maxWaitTime \<le> t)"

lemma wait_loop_bounded:
  assumes "0 < wt" "\<And>j. \<not> interrupted j"
  shows "\<exists>n. wait_loop look interrupted wt mwt waited k = Some (k + n)
    \<and> (n = 0 \<or> waited + (int n - 1) * wt < mwt)
    \<and> wait_over look mwt (k + n) (waited + int n * wt)"
proof (induction "nat (mwt - waited)" arbitrary: waited k rule: less_induct)
  case less
  show ?case
  proof (cases "look k")
    case None
    then show ?thesis by (intro exI [of _ 0]) (simp add: wait_loop.simps wait_over_def)
  next
    case (Some s)
    show ?thesis
    proof (cases "waited < mwt \<and> \<not> has_state s (Some [STARTED])")
      case False
      with Some show ?thesis by (intro exI [of _ 0]) (auto simp: wait_loop.simps wait_over_def)
    next
      case True
      with assms(1) have "nat (mwt - (waited + wt)) < nat (mwt - waited)" by simp
      from less.hyps [OF this, of "k + 1"] obtain n where n:
        "wait_loop look interrupted wt mwt (waited + wt) (k + 1) = Some (k + 1 + n)"
        "n = 0 \<or> waited + wt + (int n - 1) * wt < mwt"
        "wait_over look mwt (k + 1 + n) (waited + wt + int n * wt)"
        by blast
      have "wait_loop look interrupted wt mwt waited k = Some (k + Suc n)"
        using n(1) Some True assms(2) by (subst wait_loop.simps) simp
      moreover have "waited + (int (Suc n) - 1) * wt < mwt"
        using n(2) True by (auto simp: algebra_simps)
      moreover have "wait_over look mwt (k + Suc n) (waited + int (Suc n) * wt)"
        using n(3) by (simp add: algebra_simps)
      ultimately show ?thesis by blast
    qed
  qed
qed

text \<open>A waiting thread that is interrupted while the site does not start.\<close>

definition stuck :: "(nat \<Rightarrow> site option) \<Rightarrow> (nat \<Rightarrow> bool) \<Rightarrow> int \<Rightarrow> int \<Rightarrow> nat \<Rightarrow> bool" where
  "stuck look interrupted maxWaitTime waited k =
     (waited < maxWaitTime \<and>
      (\<forall>j \<ge> k. interrupted j \<and> (\<exists>s. look j = Some s \<and> \<not> has_state s (Some [STARTED]))))"

lemma wait_loop_not_stuck:
  assumes "wait_loop look interrupted wt mwt waited k = Some r"
  shows "\<not> stuck look interrupted mwt waited k"
  using assms
proof (rule wait_loop.raw_induct [rotated])
  fix loop look interrupted waitTime maxWaitTime waited k r
  assume IH: "\<And>look interrupted waitTime maxWaitTime waited k r.
      loop look interrupted waitTime maxWaitTime waited k = Some r \<Longrightarrow> \<not> stuck look interrupted maxWaitTime waited k"
    and body: "(case look k of
        None \<Rightarrow> Some k
      | Some s \<Rightarrow>
          (if waited < maxWaitTime \<and> \<not> has_state s (Some [STARTED])
           then loop look interrupted waitTime maxWaitTime
                  (if interrupted k then waited else waited + waitTime) (k + 1)
           else Some k)) = Some r"
  show "\<not> stuck look interrupted maxWaitTime waited k"
  proof
    assume st: "stuck look interrupted maxWaitTime waited k"
    then obtain s where "look k = Some s" "\<not> has_state s (Some [STARTED])" "interrupted k" "waited < maxWaitTime"
      unfolding stuck_def by blast
    with body have "loop look interrupted waitTime maxWaitTime waited (k + 1) = Some r" by simp
    moreover from st have "stuck look interrupted maxWaitTime waited (k + 1)"
      unfolding stuck_def by (meson le_add1 le_trans)
    ultimately show False using IH by blast
  qed
qed

text \<open>C36: Waiting for a site ends: without interruption and with a positive wait time the loop stops after at most
  the number of sleeps that exceeds the maximal wait time, because the site is gone, is started, or the time is
  over, and the site as it is looked up after that is returned.\<close>

theorem wait_for_site_returns:
  assumes "get_integer cfg ''waitTime'' (Some 1000) = Some wt" "0 < wt"
    and "get_integer cfg ''maxWaitTime'' (Some 30000) = Some mwt" "\<And>j. \<not> interrupted j"
  shows "\<exists>k r. wait_for_site (Some cfg) look interrupted = Some (Inr r) \<and> r = look k
    \<and> (k = 0 \<or> (\<exists>n. k = n + 2 \<and> (n = 0 \<or> (int n - 1) * wt < mwt)
         \<and> wait_over look mwt (n + 1) (int n * wt)))"
proof (cases "case look 0 of None \<Rightarrow> True | Some s \<Rightarrow> has_state s (Some [STARTED, SUSPENDED, INACTIVE, DELETED])")
  case True
  then show ?thesis by (intro exI [of _ 0]) (simp add: wait_for_site_def)
next
  case False
  obtain n where n: "wait_loop look interrupted wt mwt 0 1 = Some (1 + n)"
      "n = 0 \<or> (int n - 1) * wt < mwt"
      "wait_over look mwt (n + 1) (int n * wt)"
    using wait_loop_bounded [of wt interrupted look mwt 0 1, OF assms(2,4)] by auto
  then have "wait_for_site (Some cfg) look interrupted = Some (Inr (look (n + 2)))"
    using False assms(1,3) by (simp add: wait_for_site_def)
  with n(2,3) show ?thesis by (intro exI [of _ "n + 2"] exI [of _ "look (n + 2)"]) auto
qed

theorem wait_for_site_returns_witness:
  "wait_for_site (Some (new_holder [] [])) (\<lambda>_. Some (example_site\<lparr>si_state := Some STARTING\<rparr>)) (\<lambda>_. False)
     = Some (Inr (Some (example_site\<lparr>si_state := Some STARTING\<rparr>)))"
  using wait_for_site_returns [of "new_holder [] []" 1000 30000 "\<lambda>_. False"
      "\<lambda>_. Some (example_site\<lparr>si_state := Some STARTING\<rparr>)"]
  by (auto simp: get_integer_def get_property_def new_holder_def assoc_get_def)



end
