(* ===== verification/Session_Lifecycle.thy ===== *)
theory Session_Lifecycle
  imports Site_Lookup
begin

text \<open>
  The life cycle of \<^verbatim>\<open>DefaultEnvironment\<close> (appng-api): initialisation for a request,
  login with a renewed session, logout, location, and the site scope.  Locale and time zone are kept by
  their names; the defaults of the virtual machine are arguments.
\<close>

section \<open>Subject and location\<close>

definition cast_subject :: "env_value option \<Rightarrow> java_exn + subject option" where
  "cast_subject v = (case v of None \<Rightarrow> Inr None | Some (VSubject s) \<Rightarrow> Inr (Some s) | Some _ \<Rightarrow> Inl ClassCast)"

definition subject_key :: string where
  "subject_key = ''SESSION.currentSubject''"

definition get_subject :: "environment \<Rightarrow> subject option op" where
  "get_subject e = bind_op (get_attribute e SESSION subject_key) (\<lambda>v. lift (cast_subject v))"

definition is_subject_authenticated :: "environment \<Rightarrow> bool op" where
  "is_subject_authenticated e =
     bind_op (get_subject e) (\<lambda>s. ret (case s of None \<Rightarrow> False | Some x \<Rightarrow> su_authenticated x))"

definition get_env_site :: "environment \<Rightarrow> env_value option op" where
  "get_env_site e = get_attribute e SITE ''site''"

definition set_locale :: "string \<Rightarrow> environment \<Rightarrow> environment op" where
  "set_locale l e =
     (if en_session e = None then ret (e\<lparr>en_locale := l\<rparr>)
      else bind_op (set_attribute e SESSION ''locale'' (Some (VLocale l))) (\<lambda>_. ret e))"

definition get_locale :: "environment \<Rightarrow> env_value option op" where
  "get_locale e =
     (if en_session e = None then ret (Some (VLocale (en_locale e))) else get_attribute e SESSION ''locale'')"

definition set_time_zone :: "string \<Rightarrow> environment \<Rightarrow> environment op" where
  "set_time_zone z e =
     (if en_session e = None then ret (e\<lparr>en_time_zone := z\<rparr>)
      else bind_op (set_attribute e SESSION ''timezone'' (Some (VZone z))) (\<lambda>_. ret e))"

definition get_time_zone :: "environment \<Rightarrow> env_value option op" where
  "get_time_zone e =
     (if en_session e = None then ret (Some (VZone (en_time_zone e))) else get_attribute e SESSION ''timezone'')"

definition property_from_site_or_platform :: "environment \<Rightarrow> servlet_request option \<Rightarrow> string \<Rightarrow> jstring op" where
  "property_from_site_or_platform e rq name =
     bind_op (get_site (Some e) rq) (\<lambda>site.
       case site of
         Some s \<Rightarrow> ret (get_string (si_properties s) name None)
       | None \<Rightarrow>
           bind_op (get_attribute e PLATFORM ''platformConfig'') (\<lambda>v.
             case v of
               None \<Rightarrow> ret None
             | Some (VProps p) \<Rightarrow> ret (get_string p name None)
             | Some _ \<Rightarrow> lift (Inl ClassCast)))"

definition init_location :: "string \<Rightarrow> string \<Rightarrow> servlet_request option \<Rightarrow> environment \<Rightarrow> environment op" where
  "init_location def_locale def_zone rq e =
     bind_op (get_subject e) (\<lambda>s.
       if s = None then
         bind_op (property_from_site_or_platform e rq ''timeZone'') (\<lambda>z.
         bind_op (set_time_zone (case z of None \<Rightarrow> def_zone | Some x \<Rightarrow> x) e) (\<lambda>e.
         bind_op (property_from_site_or_platform e rq ''locale'') (\<lambda>l.
         set_locale (case l of None \<Rightarrow> def_locale | Some x \<Rightarrow> x) e)))
       else ret e)"

definition location_from_subject :: "subject \<Rightarrow> environment \<Rightarrow> environment op" where
  "location_from_subject s e =
     bind_op (case su_time_zone s of None \<Rightarrow> ret e | Some z \<Rightarrow> set_time_zone z e) (\<lambda>e.
       case su_language s of None \<Rightarrow> ret e | Some l \<Rightarrow> set_locale l e)"

section \<open>Initialisation\<close>

definition new_environment :: "string \<Rightarrow> string \<Rightarrow> environment" where
  "new_environment def_locale def_zone =
     \<lparr>en_platform = False, en_site = None, en_session = None, en_request = False, en_initialized = False,
      en_locale = def_locale, en_time_zone = def_zone, en_enabled = []\<rparr>"

text \<open>The constructor of \<^verbatim>\<open>SiteEnvironment\<close> puts the site into its scope.\<close>

definition new_site_scope :: "site \<Rightarrow> unit op" where
  "new_site_scope s = scoped_set (ContextEnv (site_identifier (si_name s))) ''site'' (Some (VSite s))"

definition init :: "string \<Rightarrow> string \<Rightarrow> bool \<Rightarrow> servlet_request option \<Rightarrow> environment \<Rightarrow> environment op" where
  "init def_locale def_zone has_context request e0 =
     (if en_initialized e0 then lift (Inl (IllegalState ''environment has already been initialized!''))
      else
        (let e1 = (if has_context then enable PLATFORM (e0\<lparr>en_platform := True\<rparr>) else disable PLATFORM e0)
         in bind_op
              (case request of
                 None \<Rightarrow> ret (disable REQUEST e1)
               | Some rq \<Rightarrow>
                   bind_op (get_site (Some e1) (Some rq)) (\<lambda>currentSite.
                     let e2 = enable REQUEST (e1\<lparr>en_request := True\<rparr>);
                         e3 = enable SESSION
                           (e2\<lparr>en_session := Some \<lparr>se_fixed = None, se_site = map_option si_name currentSite\<rparr>\<rparr>)
                     in case currentSite of
                          Some s \<Rightarrow>
                            bind_op (new_site_scope s) (\<lambda>_.
                              ret (enable SITE (e3\<lparr>en_site := Some (site_identifier (si_name s))\<rparr>)))
                        | None \<Rightarrow>
                            ret (if assoc_get (en_enabled e3) SITE = None then disable SITE e3 else e3)))
              (\<lambda>e. init_location def_locale def_zone request (e\<lparr>en_initialized := True\<rparr>))))"

text \<open>\<^verbatim>\<open>get(HttpSession)\<close>: an environment without a request.\<close>

definition environment_of_session :: "string \<Rightarrow> string \<Rightarrow> nat \<Rightarrow> environment op" where
  "environment_of_session def_locale def_zone i =
     bind_op
       (init_location def_locale def_zone None
          (enable PLATFORM (enable SESSION
            ((new_environment def_locale def_zone)
              \<lparr>en_session := Some \<lparr>se_fixed = Some i, se_site = None\<rparr>, en_platform := True\<rparr>))))
       (\<lambda>e. ret (e\<lparr>en_initialized := True\<rparr>))"

section \<open>Login and logout\<close>

definition renew_session :: "session_env \<Rightarrow> environment \<Rightarrow> environment op" where
  "renew_session se e =
     bind_op (get_container (SessionEnv se)) (\<lambda>_.
     bind_op (remove_attribute e SESSION ''SID'') (\<lambda>_.
     bind_op (remove_attribute e SESSION ''timeout'') (\<lambda>_.
     bind_op (remove_attribute e SESSION ''starttime'') (\<lambda>_.
     bind_op (get_container (SessionEnv se)) (\<lambda>oldContainer.
     bind_op (session_logout se) (\<lambda>_.
       let new = \<lparr>se_fixed = None, se_site = se_site se\<rparr>
       in bind_op (if oldContainer = [] then ret ()
                   else update_container (SessionEnv new)
                          (fold (put_some (\<lambda>key. key) (assoc_get oldContainer)) (map fst oldContainer))) (\<lambda>_.
            ret (e\<lparr>en_session := Some new\<rparr>))))))))"

definition set_subject :: "servlet_request \<Rightarrow> subject option \<Rightarrow> environment \<Rightarrow> environment op" where
  "set_subject rq subj e =
     (case subj of
        None \<Rightarrow> ret e
      | Some s \<Rightarrow>
          if \<not> en_request e then lift (Inl NullPointer)
          else
            bind_op (get_site (Some e) (Some rq)) (\<lambda>site.
            bind_op (case site of
                       None \<Rightarrow> ret True
                     | Some x \<Rightarrow>
                         (case get_boolean (si_properties x) ''renewSessionAfterLogin'' (Some True) of
                            None \<Rightarrow> lift (Inl NullPointer) | Some b \<Rightarrow> ret b)) (\<lambda>createNewSession.
            bind_op (if createNewSession \<and> su_authenticated s then
                       (case en_session e of None \<Rightarrow> lift (Inl NullPointer) | Some se \<Rightarrow> renew_session se e)
                     else ret e) (\<lambda>e.
            bind_op (location_from_subject s e) (\<lambda>e.
            bind_op (set_attribute e SESSION subject_key (Some (VSubject s))) (\<lambda>_. ret e))))))"

definition logout_subject :: "environment \<Rightarrow> environment op" where
  "logout_subject e =
     (case en_session e of
        None \<Rightarrow> ret e
      | Some se \<Rightarrow>
          bind_op (scoped_remove (SessionEnv se) subject_key) (\<lambda>_.
          bind_op (session_logout se) (\<lambda>_. ret (e\<lparr>en_session := None\<rparr>))))"

definition get_session :: "environment \<Rightarrow> (string \<times> env_value) list op" where
  "get_session e =
     (case en_session e of None \<Rightarrow> lift (Inl NullPointer) | Some se \<Rightarrow> session_attributes se)"

section \<open>The site scope\<close>

definition clear_site_scope :: "site \<Rightarrow> unit op" where
  "clear_site_scope s w = (Inr (), w\<lparr>w_context := assoc_remove (site_identifier (si_name s)) (w_context w)\<rparr>)"

definition init_site_scope :: "site \<Rightarrow> environment \<Rightarrow> environment op" where
  "init_site_scope s e =
     bind_op (clear_site_scope s) (\<lambda>_.
     bind_op (new_site_scope s) (\<lambda>_. ret (enable SITE (e\<lparr>en_site := Some (site_identifier (si_name s))\<rparr>))))"

section \<open>Frame of the session operations\<close>

text \<open>The sessions that exist, the current one and the next id are as before.\<close>

definition same_ids :: "world \<Rightarrow> world \<Rightarrow> bool" where
  "same_ids w w' = (w_current w' = w_current w \<and> w_next w' = w_next w
     \<and> (\<forall>j. assoc_get (w_sessions w') j = None \<longleftrightarrow> assoc_get (w_sessions w) j = None))"

definition keeps_ids :: "session_env \<Rightarrow> 'a op \<Rightarrow> bool" where
  "keeps_ids se m = (\<forall>i w. in_session se i w \<longrightarrow> same_ids w (snd (m w)))"

lemma same_ids_in_session: "same_ids w w' \<Longrightarrow> in_session se i w \<Longrightarrow> in_session se i w'"
  by (auto simp: same_ids_def in_session_def split: option.splits)

lemma same_ids_trans [trans]: "same_ids u v \<Longrightarrow> same_ids v w \<Longrightarrow> same_ids u w"
  by (simp add: same_ids_def)

lemma same_ids_update: "in_session se i w \<Longrightarrow> same_ids w (update_session i f w)"
  by (auto simp: same_ids_def in_session_def)

lemma keeps_bind: "keeps_ids se m \<Longrightarrow> (\<And>x. keeps_ids se (f x)) \<Longrightarrow> keeps_ids se (bind_op m f)"
  unfolding keeps_ids_def bind_op_def
  by (auto split: prod.splits sum.splits) (metis same_ids_in_session same_ids_trans snd_conv)+

lemma keeps_ret: "keeps_ids se (ret x)" "keeps_ids se (\<lambda>w. (r, w))"
  by (simp_all add: keeps_ids_def ret_def same_ids_def)

lemma keeps_update: "keeps_ids se (bind_op (get_http_session se) (\<lambda>i w. (r, update_session i f w)))"
  by (auto simp: keeps_ids_def bind_session same_ids_update)

lemma keeps_container: "keeps_ids se (get_container (SessionEnv se))"
  unfolding keeps_ids_def
proof (intro allI impI)
  fix i w
  assume "in_session se i w"
  then show "same_ids w (snd (get_container (SessionEnv se) w))"
    by (auto simp: get_container_def bind_session [of se i] same_ids_update split: option.splits)
       (simp add: same_ids_def)
qed

lemma keeps_dirty: "keeps_ids se (mark_dirty se)"
  unfolding mark_dirty_def by (rule keeps_update)

lemma keeps_container_update: "keeps_ids se (update_container (SessionEnv se) f)"
  unfolding update_container_def scoped_env.case
  by (rule keeps_bind [OF keeps_container]) (simp add: keeps_update)

lemma keeps_set: "keeps_ids se (scoped_set (SessionEnv se) n v)"
proof (cases "new_wrapper (se_site se) v")
  case (Inl e)
  then show ?thesis
    unfolding scoped_set_def scoped_get_def scoped_env.case
    by (auto intro!: keeps_bind keeps_container keeps_dirty keeps_ret)
next
  case (Inr x)
  then show ?thesis
    unfolding scoped_set_def scoped_get_def scoped_env.case
    by (auto intro!: keeps_bind keeps_container keeps_dirty keeps_container_update keeps_ret)
qed

lemma keeps_remove: "keeps_ids se (scoped_remove (SessionEnv se) n)"
  unfolding scoped_remove_def scoped_env.case
  by (auto intro!: keeps_bind keeps_container keeps_dirty keeps_container_update keeps_ret)


lemma put_same_ids: "in_session se i w \<Longrightarrow> same_ids w (scope_put (SessionEnv se) n v w)"
  using keeps_set by (simp add: keeps_ids_def scope_put_def)

lemma del_same_ids: "in_session se i w \<Longrightarrow> same_ids w (scope_del (SessionEnv se) n w)"
  using keeps_remove by (simp add: keeps_ids_def scope_del_def)

lemma touched_same_ids: "in_session se i w \<Longrightarrow> same_ids w (touched (SessionEnv se) w)"
  using keeps_container by (simp add: keeps_ids_def touched_def)

section \<open>An invalidated session stays invalid\<close>

definition gone :: "nat \<Rightarrow> world \<Rightarrow> bool" where
  "gone i w = (assoc_get (w_sessions w) i = None \<and> w_current w \<noteq> Some i \<and> i < w_next w)"

definition keeps_gone :: "nat \<Rightarrow> 'a op \<Rightarrow> bool" where
  "keeps_gone i m = (\<forall>w. gone i w \<longrightarrow> gone i (snd (m w)))"

lemma gone_bind: "keeps_gone i m \<Longrightarrow> (\<And>x. keeps_gone i (f x)) \<Longrightarrow> keeps_gone i (bind_op m f)"
  unfolding keeps_gone_def bind_op_def by (auto split: prod.splits sum.splits)

lemma gone_ret: "keeps_gone i (ret x)" "keeps_gone i (\<lambda>w. (r, w))"
  by (simp_all add: keeps_gone_def ret_def)

lemma gone_session_update:
  assumes "se_fixed se = None"
  shows "keeps_gone i (bind_op (get_http_session se) (\<lambda>j w. (r j w, update_session j f w)))"
    and "keeps_gone i (bind_op (get_http_session se) (\<lambda>j w. case g j w of None \<Rightarrow> (r j w, update_session j f w) | Some c \<Rightarrow> (Inr c, w)))"
  using assms
  by (auto simp: keeps_gone_def gone_def bind_op_def get_http_session_def split: option.splits)

lemma gone_container: "se_fixed se = None \<Longrightarrow> keeps_gone i (get_container (SessionEnv se))"
  using gone_session_update(2) [where g = "\<lambda>j w. hs_container (session_state w j)" and r = "\<lambda>j w. Inr []"]
  by (simp add: get_container_def keeps_gone_def)

lemma gone_container_update: "se_fixed se = None \<Longrightarrow> keeps_gone i (update_container (SessionEnv se) f)"
  unfolding update_container_def scoped_env.case
  by (rule gone_bind [OF gone_container]) (simp_all add: gone_session_update(1))

lemma gone_set: "se_fixed se = None \<Longrightarrow> keeps_gone i (scoped_set (SessionEnv se) n v)"
proof (cases "new_wrapper (se_site se) v")
  case (Inl e)
  then show "se_fixed se = None \<Longrightarrow> ?thesis"
    unfolding scoped_set_def scoped_get_def scoped_env.case mark_dirty_def
    by (auto intro!: gone_bind gone_container gone_session_update(1) [where r = "\<lambda>_ _. Inr ()"] gone_ret)
next
  case (Inr x)
  then show "se_fixed se = None \<Longrightarrow> ?thesis"
    unfolding scoped_set_def scoped_get_def scoped_env.case mark_dirty_def
    by (auto intro!: gone_bind gone_container gone_session_update(1) [where r = "\<lambda>_ _. Inr ()"] gone_container_update gone_ret)
qed

section \<open>Renewing a session\<close>

text \<open>An environment whose session is the session \<open>i\<close> of the current request.\<close>

definition request_session :: "environment \<Rightarrow> session_env \<Rightarrow> nat \<Rightarrow> world \<Rightarrow> bool" where
  "request_session e se i w =
     (get_environment e SESSION = Some (SessionEnv se) \<and> se_fixed se = None \<and> in_session se i w
      \<and> (\<forall>j. assoc_get (w_sessions w) j \<noteq> None \<longrightarrow> j < w_next w))"

definition volatile_keys :: "string list" where
  "volatile_keys = [''SID'', ''timeout'', ''starttime'']"

lemma session_env_request: "se_fixed se = None \<Longrightarrow> \<lparr>se_fixed = None, se_site = se_site se\<rparr> = se"
  by simp

lemma update_touched:
  "scope_usable env w \<Longrightarrow> update_container env f w = update_container env f (touched env w)"
  using container_usable [of env w] by (simp add: update_container_def bind_pair opened_def)

lemma fresh_session:
  assumes "se_fixed se = None" "w_current w = None"
  shows "in_session se (w_next w) (touched (SessionEnv se) w)"
    and "entries_of (SessionEnv se) w = []"
    and "assoc_get (w_sessions (touched (SessionEnv se) w)) j = None \<longleftrightarrow>
      assoc_get (w_sessions w) j = None \<and> j \<noteq> w_next w"
  using assms
  by (auto simp: touched_def entries_of_def get_container_def bind_op_def get_http_session_def in_session_def
      session_state_def empty_session_def)

lemma logout_world:
  assumes "in_session se i w" "se_fixed se = None"
  shows "session_logout se w = (Inr (), w\<lparr>w_sessions := assoc_remove i (w_sessions w), w_current := None\<rparr>)"
  using assms by (auto simp: session_logout_def bind_session [of se i] in_session_def)

lemma renew_session_spec:
  assumes "request_session e se i w"
  shows "\<exists>w'. renew_session se e w = (Inr e, w')
    \<and> gone i w' \<and> scope_usable (SessionEnv se) w'
    \<and> (\<forall>n. scope_look (SessionEnv se) w' n =
         (if n \<in> set volatile_keys then None else scope_look (SessionEnv se) w n))"
proof -
  let ?env = "SessionEnv se"
  have e: "get_environment e SESSION = Some ?env" "se_fixed se = None" and i: "in_session se i w"
    and fresh: "\<And>j. assoc_get (w_sessions w) j \<noteq> None \<Longrightarrow> j < w_next w"
    using assms by (auto simp: request_session_def)
  have es: "e\<lparr>en_session := Some \<lparr>se_fixed = None, se_site = se_site se\<rparr>\<rparr> = e"
    using e by (auto simp: get_environment_def session_env_request split: if_splits)
  define w1 where "w1 = touched ?env w"
  define w4 where "w4 = fold (scope_del ?env) volatile_keys w1"
  define c where "c = entries_of ?env w4"
  define w5 where "w5 = touched ?env w4"
  define w6 where "w6 = w5\<lparr>w_sessions := assoc_remove i (w_sessions w5), w_current := None\<rparr>"
  have u: "scope_usable ?env w" using i by (rule in_session_usable)
  have u1: "scope_usable ?env w1" unfolding w1_def by (rule touched_usable [OF u])
  have look1: "scope_look ?env w1 n = scope_look ?env w n" for n
    using container_usable [OF u] u u1 opened_simps(2) by (simp add: scope_look_entries w1_def)
  have u4: "scope_usable ?env w4" and look4: "scope_look ?env w4 n = (if n \<in> set volatile_keys then None else scope_look ?env w1 n)" for n
    using scope.del_all_look [OF u1, of volatile_keys] by (simp_all add: w4_def)
  have s4: "same_ids w w4"
  proof -
    have del: "same_ids w v \<Longrightarrow> same_ids w (scope_del ?env a v)" for a v
      using same_ids_trans del_same_ids same_ids_in_session i by metis
    have "same_ids w v \<Longrightarrow> same_ids w (fold (scope_del ?env) ns v)" for ns v
      by (induction ns arbitrary: v) (use del in auto)
    then show ?thesis using touched_same_ids [OF i] by (simp add: w4_def w1_def)
  qed
  then have s5: "same_ids w w5" unfolding w5_def
    by (meson same_ids_trans touched_same_ids same_ids_in_session i)
  have i5: "in_session se i w5" using s5 i by (rule same_ids_in_session)
  have c4: "get_container ?env w4 = (Inr c, w5)" "opened ?env c w5"
    using container_usable [OF u4] by (simp_all add: c_def w5_def)
  have chain: "renew_session se e w =
      bind_op (if c = [] then ret ()
        else update_container ?env (fold (put_some (\<lambda>key. key) (assoc_get c)) (map fst c))) (\<lambda>_. ret e) w6"
  proof -
    have d: "remove_attribute e SESSION n v = (Inr (scope_look ?env v n), scope_del ?env n v)" if "scope_usable ?env v" for n v
      using scope_del_entries [OF that] e by (simp add: remove_attribute_def)
    have u2: "scope_usable ?env (scope_del ?env ''SID'' w1)" by (rule scope.del_usable [OF u1])
    have u3: "scope_usable ?env (scope_del ?env ''timeout'' (scope_del ?env ''SID'' w1))" by (rule scope.del_usable [OF u2])
    have w4: "w4 = scope_del ?env ''starttime'' (scope_del ?env ''timeout'' (scope_del ?env ''SID'' w1))"
      by (simp add: w4_def volatile_keys_def)
    show ?thesis
      using container_usable(1) [OF u] d [OF u1] d [OF u2] d [OF u3] c4(1) logout_world [OF i5 e(2)] es
        session_env_request [OF e(2)]
      by (simp add: renew_session_def bind_pair w1_def [symmetric] w4 [symmetric] w6_def [symmetric] Let_def)
  qed
  have f6: "se_fixed se = None" "w_current w6 = None" using e by (simp_all add: w6_def)
  have g6: "gone i w6" using s5 fresh [of i] i by (auto simp: gone_def w6_def same_ids_def in_session_def)
  have u6: "scope_usable ?env w6" using f6 by (simp add: scope_usable_def)
  have c_look: "map_option entry_value (assoc_get c n) = scope_look ?env w4 n" for n
    using u4 by (simp add: scope_look_entries c_def)
  show ?thesis
  proof (cases "c = []")
    case True
    have "scope_look ?env w6 n = None" for n
      using fresh_session(2) [OF f6] u6 by (simp add: scope_look_entries assoc_get_def)
    moreover have "scope_look ?env w4 n = None" for n using c_look [of n] True by (simp add: assoc_get_def)
    ultimately show ?thesis using True chain g6 u6 look4 look1 by (simp add: bind_pair) metis
  next
    case False
    let ?f = "fold (put_some (\<lambda>key. key) (assoc_get c)) (map fst c)"
    note fs = fresh_session [OF f6]
    obtain w7 where w7: "update_container ?env ?f w6 = (Inr (), w7)" "opened ?env (?f []) w7" "scope_usable ?env w7"
      using update_opened [OF container_usable(2) [OF u6] touched_usable [OF u6], of ?f] fs(2)
      by (auto simp: update_touched [OF u6])
    have copy: "assoc_get (?f []) n = assoc_get c n" for n
    proof (cases "n \<in> set (map fst c)")
      case True
      then show ?thesis by (intro fold_put_some) (simp_all add: assoc_get_def)
    next
      case False
      then have "assoc_get c n = None" by (auto simp: assoc_get_def map_of_eq_None_iff)
      moreover have "assoc_get (?f []) n = assoc_get [] n"
        using False by (intro fold_put_some_other) simp
      ultimately show ?thesis by (simp add: assoc_get_def)
    qed
    have "scope_look ?env w7 n = scope_look ?env w4 n" for n
      using w7(3) opened_simps(2) [OF w7(2)] c_look [of n] copy by (simp add: scope_look_entries)
    moreover have "gone i w7"
      using gone_container_update [OF e(2), of i ?f] g6 w7(1) by (metis keeps_gone_def snd_conv)
    ultimately show ?thesis using False chain w7(1,3) look4 look1 by (simp add: bind_pair)
  qed
qed


section \<open>Login\<close>

lemma session_set:
  assumes "get_environment e SESSION = Some env" "scope_usable env w"
  shows "set_attribute e SESSION n (Some v) w = (Inr (), scope_put env n v w)"
  using scope_put_entries [OF assms(2)] assms(1) by (simp add: set_attribute_def)

lemma session_not_None: "get_environment e SESSION = Some env \<Longrightarrow> en_session e \<noteq> None"
  by (auto simp: get_environment_def split: if_splits)

text \<open>Storing the location and the subject of a login keeps the other attributes of the session.\<close>

lemma gone_put: "se_fixed se = None \<Longrightarrow> gone i w \<Longrightarrow> gone i (scope_put (SessionEnv se) n v w)"
  using gone_set by (simp add: keeps_gone_def scope_put_def)

lemma gone_put_all: "se_fixed se = None \<Longrightarrow> gone i w \<Longrightarrow> gone i (scope.put_all (SessionEnv se) kvs w)"
  by (induction kvs arbitrary: w) (auto simp: gone_put)

lemma location_puts:
  assumes "get_environment e SESSION = Some env" "scope_usable env w"
  shows "\<exists>kvs. location_from_subject s e w = (Inr e, scope.put_all env kvs w) \<and> fst ` set kvs \<subseteq> {''locale'', ''timezone''}"
proof -
  obtain se where ne: "en_session e = Some se" using session_not_None [OF assms(1)] by blast
  define l where "l = (case su_language s of None \<Rightarrow> [] | Some x \<Rightarrow> [(''locale'', VLocale x)])"
  define z where "z = (case su_time_zone s of None \<Rightarrow> [] | Some x \<Rightarrow> [(''timezone'', VZone x)])"
  have tz: "(case su_time_zone s of None \<Rightarrow> ret e | Some z \<Rightarrow> set_time_zone z e) w = (Inr e, scope.put_all env z w)"
    using session_set [OF assms] ne by (auto simp: set_time_zone_def bind_pair z_def split: option.split)
  have u: "scope_usable env (scope.put_all env z w)" by (rule scope.put_all_usable [OF assms(2)])
  have "(case su_language s of None \<Rightarrow> ret e | Some l \<Rightarrow> set_locale l e) (scope.put_all env z w)
      = (Inr e, scope.put_all env l (scope.put_all env z w))"
    using session_set [OF assms(1) u] ne by (auto simp: set_locale_def bind_pair l_def split: option.split)
  then have "location_from_subject s e w = (Inr e, scope.put_all env (z @ l) w)"
    using tz by (simp add: location_from_subject_def bind_pair)
  moreover have "fst ` set (z @ l) \<subseteq> {''locale'', ''timezone''}"
    by (auto simp: z_def l_def split: option.splits)
  ultimately show ?thesis by blast
qed

lemma location_spec:
  assumes "get_environment e SESSION = Some env" "scope_usable env w"
  shows "\<exists>w'. location_from_subject s e w = (Inr e, w') \<and> scope_usable env w'
     \<and> (\<forall>n. n \<notin> {''locale'', ''timezone''} \<longrightarrow> scope_look env w' n = scope_look env w n)"
proof -
  obtain kvs where "location_from_subject s e w = (Inr e, scope.put_all env kvs w)" "fst ` set kvs \<subseteq> {''locale'', ''timezone''}"
    using location_puts [OF assms] by blast
  with scope.put_all_usable [OF assms(2)] scope.put_all_other [OF assms(2)] show ?thesis by blast
qed

lemma set_subject_steps:
  assumes "en_request e" "get_site (Some e) (Some rq) w = (Inr site, w)"
    and "case site of None \<Rightarrow> b = True
           | Some x \<Rightarrow> get_boolean (si_properties x) ''renewSessionAfterLogin'' (Some True) = Some b"
    and "(if b \<and> su_authenticated s then (case en_session e of None \<Rightarrow> lift (Inl NullPointer) | Some se \<Rightarrow> renew_session se e)
          else ret e) w = (Inr e, w1)"
    and "get_environment e SESSION = Some env" "scope_usable env w1"
  shows "\<exists>w'. set_subject rq (Some s) e w = (Inr e, w') \<and> scope_usable env w'
     \<and> scope_eqv env (Some (VSubject s)) (scope_look env w' subject_key)
     \<and> (\<forall>n. n \<notin> {''locale'', ''timezone'', subject_key} \<longrightarrow> scope_look env w' n = scope_look env w1 n)
     \<and> (\<exists>w2. location_from_subject s e w1 = (Inr e, w2) \<and> w' = scope_put env subject_key (VSubject s) w2
           \<and> scope_look env w2 subject_key = scope_look env w1 subject_key \<and> scope_usable env w2)"
proof -
  obtain w2 where w2: "location_from_subject s e w1 = (Inr e, w2)" "scope_usable env w2"
      "\<And>n. n \<notin> {''locale'', ''timezone''} \<Longrightarrow> scope_look env w2 n = scope_look env w1 n"
    using location_spec [OF assms(5,6), of s] by blast
  let ?w = "scope_put env subject_key (VSubject s) w2"
  have "set_subject rq (Some s) e w = (Inr e, ?w)"
  proof (cases site)
    case None
    then show ?thesis
      using assms w2(1) session_set [OF assms(5) w2(2)] by (simp add: set_subject_def bind_pair)
  next
    case (Some x)
    then show ?thesis
      using assms w2(1) session_set [OF assms(5) w2(2)] by (simp add: set_subject_def bind_pair)
  qed
  then show ?thesis
    using scope.put_usable [OF w2(2)] scope.look_put [OF w2(2)] scope.look_put_other [OF w2(2)] w2 by (auto simp: subject_key_def)
qed

definition world_with :: "site \<Rightarrow> entries \<Rightarrow> world" where
  "world_with s attrs = \<lparr>w_context = [(''PLATFORM'',
     [(''platformConfig'', Plain (VProps example_config)), (''sites'', Plain (VSites [(''shop'', s)]))])],
     w_request = None, w_sessions = [(0, \<lparr>hs_container = Some attrs, hs_changed = False\<rparr>)],
     w_current = Some 0, w_next = 1\<rparr>"

lemma world_with_site:
  "get_site (Some (site_env ''shop'')) (Some example_request) (world_with s attrs) = (Inr (Some s), world_with s attrs)"
proof -
  have p: "platform_offers (site_env ''shop'') (world_with s attrs) example_config [(''shop'', s)]"
    by (simp add: platform_offers_def world_with_def get_environment_def site_env_def assoc_get_def scope_name_def)
  have v: "vhost_mode_of (get_string example_config ''vHostMode'' None) = Inr NAME_BASED"
    by (simp add: example_config_def new_holder_def get_string_def get_property_def assoc_get_def new_property_def
        prop_string_def is_empty_str_def vhost_mode_of_def)
  have "trim_to_null None = None" "trim_to_null (Some ''shop'') = Some ''shop''"
    by (simp_all add: trim_to_null_def trim_def code_def)
  with platform_reads [OF p] v show ?thesis
    by (simp add: get_site_def get_request_identifier_def bind_pair lift_def identify_def example_request_def
        get_site_by_name_def assoc_get_def)
qed

lemma world_with_session:
  "request_session (site_env ''shop'') \<lparr>se_fixed = None, se_site = Some ''shop''\<rparr> 0 (world_with s attrs)"
  by (auto simp: request_session_def get_environment_def site_env_def in_session_def world_with_def assoc_get_def
      split: if_splits)

lemma world_with_look:
  "scope_look (SessionEnv \<lparr>se_fixed = None, se_site = Some ''shop''\<rparr>) (world_with s attrs) n
     = map_option entry_value (assoc_get attrs n)"
  by (simp add: scope_look_def scoped_get_def bind_op_def get_container_def get_http_session_def world_with_def
      session_state_def assoc_get_def ret_def)




text \<open>When the site does not renew sessions and the session already holds a subject with the same id and name,
  logging in leaves the old object in the session: none of the new subject's groups or flags is seen.\<close>

theorem login_keeps_stale_subject:
  assumes "get_environment e SESSION = Some (SessionEnv se)" "scope_usable (SessionEnv se) w" "en_request e"
    and "get_site (Some e) (Some rq) w = (Inr (Some site), w)"
    and "get_boolean (si_properties site) ''renewSessionAfterLogin'' (Some True) = Some False"
    and "scope_look (SessionEnv se) w subject_key = Some (VSubject old)"
    and "su_id old = su_id s" "su_name old = su_name s"
  shows "\<exists>w'. set_subject rq (Some s) e w = (Inr e, w')
     \<and> scope_look (SessionEnv se) w' subject_key = Some (VSubject old)"
proof -
  let ?env = "SessionEnv se"
  obtain w' w2 where w': "set_subject rq (Some s) e w = (Inr e, w')"
      "w' = scope_put ?env subject_key (VSubject s) w2" "scope_usable ?env w2"
      "scope_look ?env w2 subject_key = Some (VSubject old)"
    using set_subject_steps [OF assms(3,4), of False s w ?env] assms(1,2,5,6) by auto
  then have "keeps_old ?env subject_key (VSubject s) w2"
    using assms(7,8) by (simp add: keeps_old_def)
  then have "entries_of ?env w' = entries_of ?env w2" "scope_usable ?env w'"
    using scope_put_entries [OF w'(3), of subject_key "VSubject s"] w'(2) by simp_all
  with w'(1,3,4) show ?thesis by (auto simp: scope_look_entries)
qed

theorem login_keeps_stale_subject_witness:
  "\<exists>w'. set_subject example_request (Some (example_subject\<lparr>su_groups := Some []\<rparr>)) (site_env ''shop'')
        (world_with (example_site\<lparr>si_properties :=
            new_holder [] [(''renewSessionAfterLogin'', new_property None (Some ''false'') None)]\<rparr>)
          [(subject_key, Wrapped None (VSubject example_subject))]) = (Inr (site_env ''shop''), w')
     \<and> scope_look (SessionEnv \<lparr>se_fixed = None, se_site = Some ''shop''\<rparr>) w' subject_key = Some (VSubject example_subject)"
proof (rule login_keeps_stale_subject)
  show "get_environment (site_env ''shop'') SESSION = Some (SessionEnv \<lparr>se_fixed = None, se_site = Some ''shop''\<rparr>)"
    "en_request (site_env ''shop'')"
    by (simp_all add: get_environment_def site_env_def assoc_get_def)
  show "get_boolean (si_properties (example_site\<lparr>si_properties :=
            new_holder [] [(''renewSessionAfterLogin'', new_property None (Some ''false'') None)]\<rparr>))
         ''renewSessionAfterLogin'' (Some True) = Some False"
    by (simp add: get_boolean_def get_property_def new_holder_def assoc_get_def prop_boolean_def prop_string_def
        new_property_def is_empty_str_def to_lower_def is_upper_def code_def)
  show "scope_usable (SessionEnv \<lparr>se_fixed = None, se_site = Some ''shop''\<rparr>)
        (world_with (example_site\<lparr>si_properties :=
            new_holder [] [(''renewSessionAfterLogin'', new_property None (Some ''false'') None)]\<rparr>)
          [(subject_key, Wrapped None (VSubject example_subject))])"
    by (simp add: scope_usable_def world_with_def assoc_get_def)
  show "scope_look (SessionEnv \<lparr>se_fixed = None, se_site = Some ''shop''\<rparr>)
        (world_with (example_site\<lparr>si_properties :=
            new_holder [] [(''renewSessionAfterLogin'', new_property None (Some ''false'') None)]\<rparr>)
          [(subject_key, Wrapped None (VSubject example_subject))]) subject_key = Some (VSubject example_subject)"
    by (simp add: world_with_look assoc_get_def)
qed (simp_all add: world_with_site)


text \<open>C30: After a logout the session is invalidated, the request has no session, and the environment has no
  subject and is not authenticated any more.\<close>

theorem logout_ends_session:
  assumes "request_session e se i w"
  shows "\<exists>e' w'. logout_subject e w = (Inr e', w') \<and> gone i w' \<and> w_current w' = None
     \<and> get_subject e' w' = (Inr None, w') \<and> is_subject_authenticated e' w' = (Inr False, w')"
proof -
  let ?env = "SessionEnv se"
  have e: "get_environment e SESSION = Some ?env" "se_fixed se = None" "en_session e = Some se" and i: "in_session se i w"
    using assms by (auto simp: request_session_def get_environment_def split: if_splits)
  let ?w = "scope_del ?env subject_key w"
  have s: "same_ids w ?w" by (rule del_same_ids [OF i])
  define v where "v = ?w\<lparr>w_sessions := assoc_remove i (w_sessions ?w), w_current := None\<rparr>"
  have "logout_subject e w = (Inr (e\<lparr>en_session := None\<rparr>), v)"
    using scope_del_entries [OF in_session_usable [OF i], of subject_key] e
      logout_world [OF same_ids_in_session [OF s i] e(2)]
    by (simp add: logout_subject_def bind_pair v_def)
  moreover have "gone i v"
    using s assms by (auto simp: gone_def v_def same_ids_def request_session_def in_session_def)
  moreover have g: "get_subject (e\<lparr>en_session := None\<rparr>) v = (Inr None, v)"
    by (simp add: get_subject_def get_attribute_def get_environment_def bind_pair lift_def cast_subject_def)
  moreover have "is_subject_authenticated (e\<lparr>en_session := None\<rparr>) v = (Inr False, v)"
    using g by (simp add: is_subject_authenticated_def bind_pair)
  moreover have "w_current v = None" by (simp add: v_def)
  ultimately show ?thesis by blast
qed

theorem logout_ends_session_witness:
  "\<exists>e' w'. logout_subject (site_env ''shop'') (world_with example_site [(subject_key, Wrapped None (VSubject example_subject))])
      = (Inr e', w') \<and> gone 0 w' \<and> get_subject e' w' = (Inr None, w')"
  using logout_ends_session [OF world_with_session] by blast

end
