(* ===== verification/Login.thy ===== *)
theory Login
  imports Session_Lifecycle
begin

text \<open>
  Authentication (appng-core): the login operations of \<^verbatim>\<open>core.service.CoreService\<close>,
  \<^verbatim>\<open>security.DigestValidator\<close> and
  \<^verbatim>\<open>security.BCryptPasswordHandler\<close>.  BCrypt, the salted digest of a password reset, the
  MD5 digest, the date format, LDAP and the calendar are arguments.  The subject a login operation works on
  is returned with the changes that the transaction writes back.
\<close>

section \<open>Passwords\<close>

definition apply_password :: "(string \<Rightarrow> string) \<Rightarrow> int \<Rightarrow> string \<Rightarrow> subject \<Rightarrow> subject" where
  "apply_password hashpw now password s =
     s\<lparr>su_digest := Some (hashpw password), su_salt := None, su_password_last_changed := Some now\<rparr>"

definition is_valid_password :: "(string \<Rightarrow> jstring \<Rightarrow> bool) \<Rightarrow> string \<Rightarrow> subject \<Rightarrow> bool" where
  "is_valid_password checkpw password s = checkpw password (su_digest s)"

definition calculate_reset_digest :: "(jstring \<Rightarrow> jstring \<Rightarrow> string) \<Rightarrow> string \<Rightarrow> subject \<Rightarrow> string \<times> subject" where
  "calculate_reset_digest salted_digest fresh_salt s =
     (salted_digest (su_email s) (Some fresh_salt), s\<lparr>su_salt := Some fresh_salt\<rparr>)"

definition is_valid_reset_digest :: "(jstring \<Rightarrow> jstring \<Rightarrow> string) \<Rightarrow> subject \<Rightarrow> string \<Rightarrow> bool" where
  "is_valid_reset_digest salted_digest s digest = (salted_digest (su_email s) (su_salt s) = digest)"

definition can_reset_password :: "int \<Rightarrow> subject option \<Rightarrow> bool" where
  "can_reset_password now subj =
     (case subj of
        None \<Rightarrow> False
      | Some s \<Rightarrow> \<not> (su_change_policy s = Some MUST_NOT \<or> is_expired s (Some now)))"

definition forgot_password ::
  "(jstring \<Rightarrow> jstring \<Rightarrow> string) \<Rightarrow> string \<Rightarrow> int \<Rightarrow> subject option \<Rightarrow> java_exn + string \<times> subject" where
  "forgot_password salted_digest fresh_salt now subj =
     (if can_reset_password now subj then Inr (calculate_reset_digest salted_digest fresh_salt (the subj))
      else Inl (Business ''user does not exist, is locked or must not change password!''))"

text \<open>\<^verbatim>\<open>resetPassword\<close>: the digest is checked against the given subject, the stored
  one takes over its new digest.  Returned are the new password, the given and the stored subject.\<close>

definition reset_password ::
  "(jstring \<Rightarrow> jstring \<Rightarrow> string) \<Rightarrow> (string \<Rightarrow> string) \<Rightarrow> string \<Rightarrow> int \<Rightarrow> subject \<Rightarrow> subject option \<Rightarrow> string
     \<Rightarrow> jstring \<times> subject \<times> subject option" where
  "reset_password salted_digest hashpw new_password now auth_subject stored hash =
     (if can_reset_password now stored \<and> is_valid_reset_digest salted_digest auth_subject hash then
        (let auth' = apply_password hashpw now new_password auth_subject
         in (Some new_password, auth',
             map_option (\<lambda>s. s\<lparr>su_digest := su_digest auth', su_salt := None,
               su_password_last_changed := Some now, su_change_policy := Some MAY\<rparr>) stored))
      else (None, auth_subject, stored))"

section \<open>Digest login\<close>

record digest_validator =
  dv_max_offset_minutes :: int
  dv_errors :: bool
  dv_username :: string
  dv_timestamp :: string
  dv_utc_offset :: string
  dv_hashed_part :: string

definition check_digest_part :: "string \<Rightarrow> bool \<times> string" where
  "check_digest_part dp = (if \<not> is_blank (Some dp) then (False, dp) else (True, []))"

definition new_digest_validator :: "string \<Rightarrow> int \<Rightarrow> digest_validator" where
  "new_digest_validator digest maxOffsetMinutes =
     (case split_str (CHR ''|'') digest of
        [a, b, c, d] \<Rightarrow>
          \<lparr>dv_max_offset_minutes = maxOffsetMinutes,
           dv_errors = (fst (check_digest_part a) \<or> fst (check_digest_part b) \<or> fst (check_digest_part c)
             \<or> fst (check_digest_part d)),
           dv_username = snd (check_digest_part a), dv_timestamp = snd (check_digest_part b),
           dv_utc_offset = snd (check_digest_part c), dv_hashed_part = snd (check_digest_part d)\<rparr>
      | _ \<Rightarrow>
          \<lparr>dv_max_offset_minutes = maxOffsetMinutes, dv_errors = True, dv_username = [], dv_timestamp = [],
           dv_utc_offset = [], dv_hashed_part = []\<rparr>)"

definition unhashed_digest :: "digest_validator \<Rightarrow> string \<Rightarrow> string" where
  "unhashed_digest v sharedSecret =
     dv_username v @ ''|'' @ dv_timestamp v @ ''|'' @ dv_utc_offset v @ ''|'' @ sharedSecret"

text \<open>
  \<^verbatim>\<open>validate\<close>: \<open>parse_date\<close> is the date format, \<open>zone_offset\<close> the offset of the
  default time zone at a point of time, \<open>server_time\<close> the clock.  The maximal offset is computed in
  \<^verbatim>\<open>int\<close>.
\<close>

definition validate_timestamp :: "(int \<Rightarrow> int) \<Rightarrow> int \<Rightarrow> int \<Rightarrow> int \<Rightarrow> bool" where
  "validate_timestamp zone_offset server_time client_time maxOffsetMinutes =
     (\<bar>(server_time + zone_offset server_time) - (client_time + zone_offset client_time)\<bar>
        \<le> int32 (60000 * maxOffsetMinutes))"

definition validate_digest ::
  "(string \<Rightarrow> int option) \<Rightarrow> (int \<Rightarrow> int) \<Rightarrow> (string \<Rightarrow> string) \<Rightarrow> int \<Rightarrow> digest_validator \<Rightarrow> string \<Rightarrow> bool" where
  "validate_digest parse_date zone_offset md5 server_time v sharedSecret =
     (if dv_errors v then False
      else (case parse_date (dv_timestamp v @ ''|'' @ dv_utc_offset v) of
              None \<Rightarrow> False
            | Some client_time \<Rightarrow>
                validate_timestamp zone_offset server_time client_time (dv_max_offset_minutes v)
                \<and> md5 (unhashed_digest v sharedSecret) = dv_hashed_part v))"

section \<open>Verifying a subject\<close>

datatype audit_event =
    RejectedLocked | LockedExpired | LockedInactive | RejectedRecovery | MustChange int
  | LockedAttempts int | FailedAttempts int

text \<open>The password change that an expired password enforces; the result is the new policy and event.\<close>

definition enforce_change ::
  "(int \<Rightarrow> int \<Rightarrow> int) \<Rightarrow> prop_holder \<Rightarrow> int \<Rightarrow> subject \<Rightarrow> java_exn + subject \<times> audit_event list" where
  "enforce_change add_days cfg now s =
     (let forceChangePassword = get_boolean cfg ''forceChangePassword'' (Some False);
          maxPasswordValidity = get_integer cfg ''passwordMaxValidity'' (Some (-1))
      in if su_user_type s = Some LOCAL_USER \<and> su_change_policy s = Some MAY then
           (case forceChangePassword of
              None \<Rightarrow> Inl NullPointer
            | Some force \<Rightarrow>
                (if \<not> force then Inr (s, [])
                 else (case maxPasswordValidity of
                         None \<Rightarrow> Inl NullPointer
                       | Some days \<Rightarrow>
                           (if days > 0 then
                              (case su_password_last_changed s of
                                 None \<Rightarrow> Inr (s, [])
                               | Some changed \<Rightarrow>
                                   (if add_days changed days < now
                                    then Inr (s\<lparr>su_change_policy := Some MUST\<rparr>, [MustChange days])
                                    else Inr (s, [])))
                            else Inr (s, [])))))
         else Inr (s, []))"

record verdict =
  vd_success :: bool
  vd_subject :: subject
  vd_events :: "audit_event list"
  vd_must_recover :: bool

definition rejected :: "subject \<Rightarrow> audit_event \<Rightarrow> verdict" where
  "rejected s ev = \<lparr>vd_success = False, vd_subject = s, vd_events = [ev], vd_must_recover = (ev = RejectedRecovery)\<rparr>"

definition judge_accepted ::
  "(int \<Rightarrow> int \<Rightarrow> int) \<Rightarrow> prop_holder \<Rightarrow> int \<Rightarrow> subject \<Rightarrow> java_exn + verdict" where
  "judge_accepted add_days cfg now s =
     (if su_locked s then Inr (rejected s RejectedLocked)
      else if is_expired s (Some now) then Inr (rejected (s\<lparr>su_locked := True\<rparr>) LockedExpired)
      else (case is_inactive add_days s now (get_integer cfg ''inactiveLockPeriod'' None) of
              Inl e \<Rightarrow> Inl e
            | Inr inactive \<Rightarrow>
                (if inactive then Inr (rejected (s\<lparr>su_locked := True\<rparr>) LockedInactive)
                 else if su_user_type s = Some LOCAL_USER \<and> su_change_policy s = Some MUST_RECOVER
                 then Inr (rejected s RejectedRecovery)
                 else (case enforce_change add_days cfg now s of
                         Inl e \<Rightarrow> Inl e
                       | Inr (s', evs) \<Rightarrow>
                           Inr \<lparr>vd_success = True,
                              vd_subject = s'\<lparr>su_authenticated := True, su_last_login := Some now,
                                             su_failed_attempts := Some 0\<rparr>,
                              vd_events = evs, vd_must_recover = False\<rparr>))))"

definition judge_failed :: "prop_holder \<Rightarrow> subject \<Rightarrow> java_exn + verdict" where
  "judge_failed cfg s =
     (case su_failed_attempts s of
        None \<Rightarrow> Inl NullPointer
      | Some n \<Rightarrow>
          (let attempts = int32 (n + 1);
               s' = s\<lparr>su_authenticated := False, su_failed_attempts := Some attempts\<rparr>
           in case get_integer cfg ''maxLoginAttempts'' None of
                None \<Rightarrow> Inl NullPointer
              | Some maxAttempts \<Rightarrow>
                  (if maxAttempts \<le> attempts
                   then Inr (rejected (s'\<lparr>su_locked := True\<rparr>) (LockedAttempts attempts))
                   else Inr (rejected s' (FailedAttempts attempts)))))"

definition judge ::
  "(int \<Rightarrow> int \<Rightarrow> int) \<Rightarrow> prop_holder \<Rightarrow> int \<Rightarrow> bool \<Rightarrow> subject \<Rightarrow> java_exn + verdict" where
  "judge add_days cfg now precondition s =
     (if precondition then judge_accepted add_days cfg now s else judge_failed cfg s)"

text \<open>\<^verbatim>\<open>verifySubject\<close>: the verdict, and what it leaves in the request scope.\<close>

definition verify_subject ::
  "(int \<Rightarrow> int \<Rightarrow> int) \<Rightarrow> prop_holder \<Rightarrow> int \<Rightarrow> bool \<Rightarrow> subject \<Rightarrow> environment \<Rightarrow> verdict op" where
  "verify_subject add_days cfg now precondition s e =
     bind_op (lift (judge add_days cfg now precondition s)) (\<lambda>v.
       if vd_success v then ret v
       else
         bind_op (if vd_must_recover v
                  then set_attribute e REQUEST ''subject.mustRecoverPassword'' (Some (VBool True)) else ret ()) (\<lambda>_.
         bind_op (set_attribute e REQUEST ''subject.locked'' (Some (VBool (su_locked (vd_subject v))))) (\<lambda>_.
         ret v)))"

section \<open>Login operations\<close>

definition init_authenticated_subject :: "subject \<Rightarrow> subject" where
  "init_authenticated_subject s = s\<lparr>su_authenticated := True, su_salt := None, su_digest := None\<rparr>"

text \<open>The object in the session is the one the operation goes on to change.\<close>

definition reflect_in_session :: "environment \<Rightarrow> subject \<Rightarrow> subject \<Rightarrow> unit op" where
  "reflect_in_session e s s' =
     (case en_session e of
        None \<Rightarrow> ret ()
      | Some se \<Rightarrow>
          update_container (SessionEnv se)
            (map (\<lambda>(k, x). case x of
                Wrapped l v \<Rightarrow> (k, Wrapped l (if k = subject_key \<and> v = VSubject s then VSubject s' else v))
              | Plain v \<Rightarrow> (k, Plain v))))"

text \<open>\<^verbatim>\<open>login(Environment, SubjectImpl)\<close>: whether it succeeds, and the subject that is
  saved.\<close>

definition login :: "servlet_request \<Rightarrow> environment \<Rightarrow> subject option \<Rightarrow> (environment \<times> bool \<times> subject option) op" where
  "login rq e subj =
     (case subj of
        None \<Rightarrow> ret (e, False, None)
      | Some s \<Rightarrow>
          bind_op (set_subject rq (Some s) e) (\<lambda>e'.
          bind_op (reflect_in_session e' s (init_authenticated_subject s)) (\<lambda>_.
          ret (e', True, if su_id s \<noteq> None then Some s else None))))"

text \<open>A new \<^verbatim>\<open>SubjectImpl\<close>.\<close>

definition new_subject :: subject where
  "new_subject = \<lparr>su_id = None, su_name = None, su_realname = None, su_email = None, su_language = None,
     su_time_zone = None, su_digest = None, su_salt = None, su_groups = Some [], su_user_type = None,
     su_authenticated = False, su_last_login = None, su_password_last_changed = None, su_locked = False,
     su_change_policy = Some MAY, su_failed_attempts = Some 0, su_expiry = None\<rparr>"

text \<open>The first half of \<^verbatim>\<open>loginSubject\<close>: a known user, by password or LDAP.\<close>

definition credentials_ok ::
  "(string \<Rightarrow> jstring \<Rightarrow> bool) \<Rightarrow> (string \<Rightarrow> string \<Rightarrow> bool) \<Rightarrow> string \<Rightarrow> string \<Rightarrow> subject \<Rightarrow> java_exn + bool" where
  "credentials_ok checkpw ldap_login username password s =
     (case su_user_type s of
        None \<Rightarrow> Inl NullPointer
      | Some LOCAL_USER \<Rightarrow> Inr (is_valid_password checkpw password s)
      | Some GLOBAL_USER \<Rightarrow> Inr (ldap_login username password)
      | Some GLOBAL_GROUP \<Rightarrow> Inr False)"

definition login_known_user ::
  "(int \<Rightarrow> int \<Rightarrow> int) \<Rightarrow> (string \<Rightarrow> jstring \<Rightarrow> bool) \<Rightarrow> (string \<Rightarrow> string \<Rightarrow> bool) \<Rightarrow> prop_holder \<Rightarrow> int
     \<Rightarrow> servlet_request \<Rightarrow> environment \<Rightarrow> string \<Rightarrow> string \<Rightarrow> subject \<Rightarrow> (environment \<times> bool \<times> verdict) op" where
  "login_known_user add_days checkpw ldap_login cfg now rq e username password s =
     bind_op (lift (credentials_ok checkpw ldap_login username password s)) (\<lambda>pre.
     bind_op (verify_subject add_days cfg now pre s e) (\<lambda>v.
       if vd_success v then bind_op (login rq e (Some (vd_subject v))) (\<lambda>(e', ok, _). ret (e', ok, v))
       else ret (e, False, v)))"

text \<open>The second half: membership in LDAP groups, whose subjects give their groups.\<close>

definition login_ldap_group ::
  "(string \<Rightarrow> string \<Rightarrow> string list) \<Rightarrow> (string \<Rightarrow> subject option) \<Rightarrow> subject list \<Rightarrow> string \<Rightarrow> string \<Rightarrow> java_exn + subject option" where
  "login_ldap_group ldap_group find_subject globalGroups username password =
     (if globalGroups = [] then Inr None
      else
        (let names = ldap_group username password;
             template = new_subject\<lparr>su_user_type := Some GLOBAL_GROUP, su_change_policy := Some MUST_NOT\<rparr>
         in if names = [] then Inr None
            else (case map_m (\<lambda>n. case find_subject n of
                                None \<Rightarrow> Inl NullPointer
                              | Some s \<Rightarrow> (case su_groups s of None \<Rightarrow> Inl NullPointer | Some gs \<Rightarrow> Inr gs)) names of
                    Inl e \<Rightarrow> Inl e
                  | Inr gss \<Rightarrow> Inr (Some (template\<lparr>su_groups := Some (concat gss)\<rparr>)))))"

definition login_group ::
  "(string \<Rightarrow> jstring \<Rightarrow> bool) \<Rightarrow> servlet_request \<Rightarrow> environment \<Rightarrow> subject \<Rightarrow> string \<Rightarrow> authgroup option \<Rightarrow> (environment \<times> bool) op" where
  "login_group checkpw rq e auth password grp =
     (case grp of
        None \<Rightarrow> ret (e, False)
      | Some g \<Rightarrow>
          if is_valid_password checkpw password auth then
            bind_op
              (login rq e (Some (set_email (su_email auth)
                 (new_subject\<lparr>su_groups := Some [g], su_language := su_language auth,
                   su_time_zone := su_time_zone auth, su_realname := su_realname auth, su_name := su_name auth\<rparr>))))
              (\<lambda>(e', ok, _). ret (e', ok))
          else ret (e, False))"

definition login_user_with_groups ::
  "servlet_request \<Rightarrow> environment \<Rightarrow> string \<Rightarrow> jstring \<Rightarrow> jstring \<Rightarrow> authgroup list \<Rightarrow> (environment \<times> bool) op" where
  "login_user_with_groups rq e userName email realName groups =
     (if groups = [] then ret (e, False)
      else bind_op
        (login rq e (Some ((set_email email new_subject)
           \<lparr>su_name := Some userName, su_realname := realName, su_groups := Some groups\<rparr>)))
        (\<lambda>(e', ok, _). ret (e', ok)))"

definition login_by_user_name :: "servlet_request \<Rightarrow> environment \<Rightarrow> subject option \<Rightarrow> (environment \<times> bool) op" where
  "login_by_user_name rq e stored =
     (case stored of
        Some s \<Rightarrow>
          if su_user_type s = Some LOCAL_USER
          then bind_op (login rq e (Some s)) (\<lambda>(e', ok, _). ret (e', ok))
          else ret (e, False)
      | None \<Rightarrow> ret (e, False))"

definition login_digest ::
  "(int \<Rightarrow> int \<Rightarrow> int) \<Rightarrow> (string \<Rightarrow> int option) \<Rightarrow> (int \<Rightarrow> int) \<Rightarrow> (string \<Rightarrow> string) \<Rightarrow> prop_holder \<Rightarrow> int
     \<Rightarrow> (string \<Rightarrow> subject option) \<Rightarrow> servlet_request \<Rightarrow> environment \<Rightarrow> string \<Rightarrow> int \<Rightarrow> (environment \<times> bool) op" where
  "login_digest add_days parse_date zone_offset md5 cfg now find_subject rq e digest maxValidity =
     (let v = new_digest_validator digest maxValidity
      in if is_blank (Some (dv_username v)) then ret (e, False)
         else (case find_subject (dv_username v) of
                 None \<Rightarrow> ret (e, False)
               | Some s \<Rightarrow>
                   bind_op (lift (case get_string cfg ''sharedSecret'' None of
                       None \<Rightarrow> Inr (validate_digest parse_date zone_offset md5 now v ''null'')
                     | Some secret \<Rightarrow> Inr (validate_digest parse_date zone_offset md5 now v secret))) (\<lambda>success.
                   bind_op (verify_subject add_days cfg now success s e) (\<lambda>vd.
                     if vd_success vd
                     then bind_op (login rq e (Some (vd_subject vd))) (\<lambda>(e', ok, _). ret (e', ok))
                     else ret (e, False)))))"

text \<open>\<^verbatim>\<open>logoutSubject\<close>: the name of the subject is logged after the logout.\<close>

definition core_logout :: "environment \<Rightarrow> environment op" where
  "core_logout e =
     bind_op (get_subject e) (\<lambda>s.
     bind_op (logout_subject e) (\<lambda>e'.
       if s = None then lift (Inl NullPointer) else ret e'))"

section \<open>Runs of login attempts\<close>

text \<open>
  The attempts on one stored subject, in order: each is given as whether the credentials were right and
  whether it succeeded.  The times of the attempts are arbitrary.
\<close>

inductive login_run ::
  "(int \<Rightarrow> int \<Rightarrow> int) \<Rightarrow> prop_holder \<Rightarrow> subject \<Rightarrow> (bool \<times> bool) list \<Rightarrow> subject \<Rightarrow> bool"
  for add_days cfg s where
  start: "login_run add_days cfg s [] s"
| attempt: "login_run add_days cfg s as t \<Longrightarrow> judge add_days cfg now pre t = Inr v \<Longrightarrow>
     login_run add_days cfg s (as @ [(pre, vd_success v)]) (vd_subject v)"

inductive_cases login_run_snocE: "login_run add_days cfg s (as @ [a]) t"
inductive_simps login_run_Nil [simp]: "login_run add_days cfg s [] t"

lemma judge_locked:
  assumes "judge add_days cfg now pre s = Inr v" "su_locked s"
  shows "\<not> vd_success v \<and> su_locked (vd_subject v)"
  using assms
  by (auto simp: judge_def judge_accepted_def judge_failed_def rejected_def Let_def split: if_splits option.splits)

lemma judge_wrong:
  assumes "judge add_days cfg now False s = Inr v" "su_failed_attempts s = Some n"
    and "get_integer cfg ''maxLoginAttempts'' None = Some m"
  shows "\<not> vd_success v \<and> su_failed_attempts (vd_subject v) = Some (int32 (n + 1))
    \<and> (su_locked (vd_subject v) \<longleftrightarrow> su_locked s \<or> m \<le> int32 (n + 1))"
  using assms by (auto simp: judge_def judge_failed_def rejected_def Let_def split: if_splits)

lemma locked_run: "login_run add_days cfg s as t \<Longrightarrow> su_locked s \<Longrightarrow> su_locked t \<and> (\<forall>a \<in> set as. \<not> snd a)"
  by (induction rule: login_run.induct) (auto dest: judge_locked)

lemma login_run_split:
  "login_run add_days cfg s (as @ bs) t \<Longrightarrow> \<exists>u. login_run add_days cfg s as u \<and> login_run add_days cfg u bs t"
proof (induction bs arbitrary: t rule: rev_induct)
  case Nil
  then show ?case by (auto intro: login_run.start)
next
  case (snoc b bs)
  then obtain t' now pre v where r: "login_run add_days cfg s (as @ bs) t'"
      "judge add_days cfg now pre t' = Inr v" "b = (pre, vd_success v)" "t = vd_subject v"
    by (auto simp flip: append_assoc elim: login_run_snocE)
  with snoc.IH show ?case by (blast intro: login_run.attempt)
qed

lemma wrong_run:
  assumes "login_run add_days cfg s as t"
    and "su_failed_attempts s = Some 0" "get_integer cfg ''maxLoginAttempts'' None = Some m" "0 < m"
  shows "\<forall>a \<in> set as. \<not> fst a \<Longrightarrow> int (length as) < 2 ^ 31 \<Longrightarrow>
    su_failed_attempts t = Some (int (length as)) \<and> (su_locked t \<longleftrightarrow> su_locked s \<or> m \<le> int (length as))"
  using assms(1)
proof (induction rule: login_run.induct)
  case start
  then show ?case using assms by simp
next
  case (attempt as t now pre v)
  then have t: "su_failed_attempts t = Some (int (length as))" "su_locked t \<longleftrightarrow> su_locked s \<or> m \<le> int (length as)"
    by auto
  have "int32 (int (length as) + 1) = int (length as) + 1"
    using attempt.prems by (intro int32_id) (simp add: is_int32_def)
  with judge_wrong [OF _ t(1) assms(3), of add_days now v] attempt t show ?case by auto
qed

definition example_login_config :: prop_holder where
  "example_login_config = new_holder [] [(''maxLoginAttempts'', new_property None (Some ''1'') None),
     (''inactiveLockPeriod'', new_property None (Some ''0'') None)]"

lemma example_login_integers:
  "get_integer example_login_config ''maxLoginAttempts'' None = Some 1"
  "get_integer example_login_config ''inactiveLockPeriod'' None = Some 0"
  by (simp_all add: get_integer_def get_property_def example_login_config_def new_holder_def assoc_get_def
      new_property_def prop_integer_def prop_string_def is_empty_str_def parse_int_def is_digit_def code_def
      read_nat_def is_int32_def)

text \<open>C2: Brute force ends in a lock: once as many attempts in a row failed as the platform allows, the subject is
  locked, and whatever is tried afterwards, at any time and with the right credentials too, no attempt succeeds.\<close>

theorem brute_force_locked:
  assumes "login_run add_days cfg s (as @ bs) t"
    and "su_failed_attempts s = Some 0" "get_integer cfg ''maxLoginAttempts'' None = Some m" "0 < m"
    and "\<forall>a \<in> set as. \<not> fst a" "m \<le> int (length as)" "int (length as) < 2 ^ 31"
  shows "su_locked t \<and> (\<forall>b \<in> set bs. \<not> snd b)"
proof -
  obtain u where u: "login_run add_days cfg s as u" "login_run add_days cfg u bs t"
    using login_run_split [OF assms(1)] by blast
  have "su_locked u" using wrong_run [OF u(1) assms(2-4)] assms(5-7) by simp
  with locked_run [OF u(2)] show ?thesis by simp
qed

theorem brute_force_locked_witness:
  "\<exists>v w. judge (\<lambda>d n. d) example_login_config 0 False example_subject = Inr v
     \<and> judge (\<lambda>d n. d) example_login_config 1 True (vd_subject v) = Inr w
     \<and> su_locked (vd_subject w) \<and> \<not> vd_success w"
proof -
  let ?j = "judge (\<lambda>d n. d) example_login_config"
  have f: "su_failed_attempts example_subject = Some 0" by (simp add: example_subject_def)
  obtain v where v: "?j 0 False example_subject = Inr v"
    using f example_login_integers by (auto simp: judge_def judge_failed_def Let_def is_int32_def)
  have "su_locked (vd_subject v)"
    using judge_wrong [OF v f example_login_integers(1)] by (simp add: is_int32_def)
  then obtain w where w: "?j 1 True (vd_subject v) = Inr w"
    by (simp add: judge_def judge_accepted_def)
  have "login_run (\<lambda>d n. d) example_login_config example_subject ([(False, vd_success v)] @ [(True, vd_success w)]) (vd_subject w)"
    using login_run.attempt [OF login_run.attempt [OF login_run.start v, simplified] w] by simp
  from brute_force_locked [OF this f example_login_integers(1)] show ?thesis using v w by simp
qed


section \<open>Properties\<close>

lemma enforce_change_subject:
  assumes "enforce_change add_days cfg now s = Inr (s', evs)"
  shows "s' = s \<or> s' = s\<lparr>su_change_policy := Some MUST\<rparr>"
  using assms by (auto simp: enforce_change_def Let_def split: if_splits option.splits)

text \<open>C32: With the right credentials a login succeeds if and only if the subject is not locked, not expired, not
  inactive for too long, and no local user that must recover the password; success authenticates the subject and
  resets its failed attempts, failure leaves it locked or asks for recovery and authenticates nobody.\<close>

theorem verify_success_iff:
  assumes "judge add_days cfg now True s = Inr v"
    and "get_integer cfg ''inactiveLockPeriod'' None = Some period"
  shows "(vd_success v \<longleftrightarrow>
       \<not> su_locked s \<and> \<not> is_expired s (Some now)
       \<and> \<not> (\<exists>l. su_last_login s = Some l \<and> 0 < period \<and> add_days l period < now)
       \<and> \<not> (su_user_type s = Some LOCAL_USER \<and> su_change_policy s = Some MUST_RECOVER))
    \<and> (vd_success v \<longrightarrow> su_authenticated (vd_subject v) \<and> su_failed_attempts (vd_subject v) = Some 0
         \<and> su_last_login (vd_subject v) = Some now \<and> \<not> su_locked (vd_subject v))
    \<and> (\<not> vd_success v \<longrightarrow> (su_locked (vd_subject v) \<or> vd_must_recover v) \<and>
         su_authenticated (vd_subject v) = su_authenticated s \<and> su_failed_attempts (vd_subject v) = su_failed_attempts s)"
  using assms
  by (auto simp: judge_def judge_accepted_def rejected_def is_inactive_def
      split: if_splits option.splits sum.splits prod.splits dest!: enforce_change_subject)

theorem verify_success_iff_witness:
  "\<exists>v. judge (\<lambda>d n. d) example_login_config 0 True example_subject = Inr v \<and> vd_success v"
proof -
  obtain v where v: "judge (\<lambda>d n. d) example_login_config 0 True example_subject = Inr v"
    by (simp add: judge_def judge_accepted_def example_subject_def is_expired_def is_inactive_def enforce_change_def
        get_boolean_def get_property_def example_login_config_def new_holder_def assoc_get_def)
  from verify_success_iff [OF v example_login_integers(2)] have "vd_success v"
    by (simp add: example_subject_def is_expired_def)
  with v show ?thesis by blast
qed


text \<open>C21: A digest put together from user name, time stamp, offset and the MD5 of these parts with the shared secret
  names the user, is valid exactly within the allowed time offset, and is valid under another secret only where
  MD5 collides.\<close>

theorem digest_login_roundtrip:
  assumes parts: "\<forall>p \<in> {u, t, z, md5 (u @ ''|'' @ t @ ''|'' @ z @ ''|'' @ secret)}.
      CHR ''|'' \<notin> set p \<and> \<not> is_blank (Some p)"
    and date: "parse_date (t @ ''|'' @ z) = Some c"
    and v: "v = new_digest_validator (join_str ''|'' [u, t, z, md5 (u @ ''|'' @ t @ ''|'' @ z @ ''|'' @ secret)]) m"
  shows "dv_username v = u
    \<and> (validate_digest parse_date zone_offset md5 now v secret \<longleftrightarrow> validate_timestamp zone_offset now c m)
    \<and> (validate_digest parse_date zone_offset md5 now v other \<longrightarrow>
         md5 (u @ ''|'' @ t @ ''|'' @ z @ ''|'' @ other) = md5 (u @ ''|'' @ t @ ''|'' @ z @ ''|'' @ secret))"
proof -
  let ?h = "md5 (u @ ''|'' @ t @ ''|'' @ z @ ''|'' @ secret)"
  have "?h \<noteq> []" using parts by (auto simp: is_blank_def)
  then have "split_str (CHR ''|'') (join_str ''|'' [u, t, z, ?h]) = [u, t, z, ?h]"
    using parts by (intro split_join) auto
  then show ?thesis
    using parts date by (auto simp: v new_digest_validator_def check_digest_part_def validate_digest_def unhashed_digest_def)
qed

theorem digest_login_roundtrip_witness:
  "validate_digest (\<lambda>_. Some 0) (\<lambda>_. 0) (\<lambda>s. ''x'' @ filter (\<lambda>c. c \<noteq> CHR ''|'') s) 1000
     (new_digest_validator ''u|t|z|xutzk'' 3) ''k''"
  using digest_login_roundtrip [of "''u''" "''t''" "''z''" "\<lambda>s. ''x'' @ filter (\<lambda>c. c \<noteq> CHR ''|'') s" "''k''"
      "\<lambda>_. Some 0" 0 "new_digest_validator ''u|t|z|xutzk'' 3" 3 "\<lambda>_. 0" 1000]
  by (simp add: is_blank_def java_ws_def code_def validate_timestamp_def is_int32_def)


lemma same_ids_put_all: "in_session se i w \<Longrightarrow> same_ids w (scope.put_all (SessionEnv se) kvs w)"
proof (induction kvs arbitrary: w)
  case Nil
  then show ?case by (simp add: same_ids_def)
next
  case (Cons kv kvs)
  obtain n v where kv: "kv = (n, v)" by (cases kv)
  have s: "same_ids w (scope_put (SessionEnv se) n v w)" by (rule put_same_ids [OF Cons.prems])
  from Cons.IH [OF same_ids_in_session [OF s Cons.prems]] s show ?case
    by (auto simp: kv intro: same_ids_trans)
qed

text \<open>C38: A subject that is not marked as authenticated before it is handed to the environment (a login by user
  name, by group or with given groups) becomes the authenticated subject of the session that existed before the
  login: the session is not renewed, whatever the site is configured to do.\<close>

theorem login_keeps_session_id:
  assumes "request_session e se i w" "en_request e" "\<not> su_authenticated s"
    and "get_site (Some e) (Some rq) w = (Inr site, w)"
    and "case site of None \<Rightarrow> True
           | Some x \<Rightarrow> get_boolean (si_properties x) ''renewSessionAfterLogin'' (Some True) \<noteq> None"
    and "scope_look (SessionEnv se) w subject_key = None"
  shows "\<exists>r w' w''. login rq e (Some s) w = (Inr (e, True, r), w') \<and> in_session se i w'
     \<and> get_subject e w' = (Inr (Some (init_authenticated_subject s)), w'')"
proof -
  let ?env = "SessionEnv se" and ?s' = "init_authenticated_subject s"
  have e: "get_environment e SESSION = Some ?env" "en_session e = Some se" and i: "in_session se i w"
    using assms(1) by (auto simp: request_session_def get_environment_def split: if_splits)
  have u: "scope_usable ?env w" by (rule in_session_usable [OF i])
  obtain b where b: "case site of None \<Rightarrow> b = True
      | Some x \<Rightarrow> get_boolean (si_properties x) ''renewSessionAfterLogin'' (Some True) = Some b"
    using assms(5) by (cases site) auto
  have p: "(if b \<and> su_authenticated s
      then (case en_session e of None \<Rightarrow> lift (Inl NullPointer) | Some se \<Rightarrow> renew_session se e) else ret e) w = (Inr e, w)"
    using assms(3) by simp
  obtain w1 w2 where w1: "set_subject rq (Some s) e w = (Inr e, w1)" "scope_usable ?env w1"
      "location_from_subject s e w = (Inr e, w2)" "w1 = scope_put ?env subject_key (VSubject s) w2"
      "scope_look ?env w2 subject_key = scope_look ?env w subject_key" "scope_usable ?env w2"
    using set_subject_steps [OF assms(2,4) b p e(1) u] by blast
  obtain kvs where "w2 = scope.put_all ?env kvs w"
    using location_puts [OF e(1) u, of s] w1(3) by auto
  then have "same_ids w w2" using same_ids_put_all [OF i] by simp
  then have i2: "in_session se i w2" using i by (rule same_ids_in_session)
  then have i1: "in_session se i w1" using put_same_ids [OF i2] w1(4) by (auto intro: same_ids_in_session)
  have entry: "assoc_get (entries_of ?env w1) subject_key = Some (Wrapped (se_site se) (VSubject s))"
    using scope_put_entries [OF w1(6), of subject_key "VSubject s"] w1(4,5) assms(6)
    by (simp add: keeps_old_def wrap_def)
  define f where "f = map (\<lambda>(k, x). case x of
                Wrapped l v \<Rightarrow> (k, Wrapped l (if k = subject_key \<and> v = VSubject s then VSubject ?s' else v))
              | Plain v \<Rightarrow> (k, Plain v))"
  obtain w3 where w3: "update_container ?env f w1 = (Inr (), w3)" "opened ?env (f (entries_of ?env w1)) w3"
      "scope_usable ?env w3"
    using update_opened [OF container_usable(2) [OF w1(2)] touched_usable [OF w1(2)], of f]
    unfolding update_touched [OF w1(2), of f, symmetric] by blast
  have "same_ids w1 w3"
    using keeps_container_update [of se f] i1 w3(1) by (metis keeps_ids_def snd_conv)
  then have i3: "in_session se i w3" using i1 by (rule same_ids_in_session)
  have map_get: "assoc_get (f c) subject_key = Some (Wrapped l (VSubject ?s'))"
    if "assoc_get c subject_key = Some (Wrapped l (VSubject s))" for c l
    using that unfolding f_def by (induction c) (auto simp: assoc_get_def split: if_splits entry.splits)
  have l3: "scope_look ?env w3 subject_key = Some (VSubject ?s')"
    using map_get [OF entry] opened_simps(2) [OF w3(2)] w3(3) by (simp add: scope_look_entries)
  have "login rq e (Some s) w = (Inr (e, True, if su_id s \<noteq> None then Some s else None), w3)"
    using w1(1) w3(1) e(2) by (simp add: login_def bind_pair reflect_in_session_def f_def)
  moreover have "get_subject e w3 = (Inr (Some ?s'), touched ?env w3)"
    using e(1) l3 w3(3)
    by (auto simp: get_subject_def get_attribute_def bind_pair scoped_get_usable scope_look_entries lift_def cast_subject_def)
  ultimately show ?thesis using i3 by blast
qed

theorem login_keeps_session_id_witness:
  "\<exists>r w' w''. login example_request (site_env ''shop'') (Some example_subject) (world_with example_site [])
       = (Inr (site_env ''shop'', True, r), w')
     \<and> in_session \<lparr>se_fixed = None, se_site = Some ''shop''\<rparr> 0 w'
     \<and> get_subject (site_env ''shop'') w' = (Inr (Some (init_authenticated_subject example_subject)), w'')"
proof (rule login_keeps_session_id [OF world_with_session _ _ world_with_site])
  show "en_request (site_env ''shop'')" by (simp add: site_env_def)
  show "\<not> su_authenticated example_subject" by (simp add: example_subject_def)
  show "case Some example_site of None \<Rightarrow> True
     | Some x \<Rightarrow> get_boolean (si_properties x) ''renewSessionAfterLogin'' (Some True) \<noteq> None"
    by (simp add: example_site_def get_boolean_def get_property_def new_holder_def assoc_get_def)
  show "scope_look (SessionEnv \<lparr>se_fixed = None, se_site = Some ''shop''\<rparr>) (world_with example_site []) subject_key = None"
    by (simp add: world_with_look assoc_get_def)
qed

end
