(* ===== verification/JS_Prelude.thy ===== *)
theory JS_Prelude
  imports Java_Prelude "HOL-Library.Word"
begin

text \<open>
  Shared vocabulary of the theories that model the JavaScript of the API console (the files under
  \<^verbatim>\<open>appng-rest-api/src/main/resources/org/appng/api/rest/swagger-ui\<close>, each
  of which holds its whole code on its second line).  A JavaScript string is the list of its 16-bit
  code units; \<open>js\<close> turns a literal into one.  The values that travel through actions and
  the store are \<open>json\<close>; \<^verbatim>\<open>Number\<close> is used by the modelled code for integers only.
\<close>

type_synonym jchar = "16 word"
type_synonym jstr = "jchar list"

named_theorems js_string \<open>evaluation rules of JavaScript strings\<close>

definition js :: "string \<Rightarrow> jstr" where
  "js s = map of_char s"

datatype json =
    JUndef
  | JNull
  | JBool bool
  | JNum int
  | JStr jstr
  | JArr "json list"
  | JObj "(jstr \<times> json) list"

fun truthy :: "json \<Rightarrow> bool" where
  "truthy JUndef = False"
| "truthy JNull = False"
| "truthy (JBool b) = b"
| "truthy (JNum n) = (n \<noteq> 0)"
| "truthy (JStr s) = (s \<noteq> [])"
| "truthy (JArr _) = True"
| "truthy (JObj _) = True"

lemma js_simps [js_string, simp]:
  "js [] = []"
  "js (c # cs) = of_char c # js cs"
  "js (s @ t) = js s @ js t"
  by (simp_all add: js_def)

lemma length_js [simp]: "length (js s) = length s"
  by (simp add: js_def)

lemma js_eq_Nil [simp]: "js s = [] \<longleftrightarrow> s = []"
  by (simp add: js_def)

lemma unat_of_char_16 [simp]: "unat (of_char c :: 16 word) = of_char c"
proof -
  have "(of_char c :: nat) < 2 ^ 16"
    by (rule less_le_trans [OF nat_of_char_less_256]) simp
  moreover have "(of_char c :: 16 word) = of_nat (of_char c)"
    by (simp add: of_nat_of_char)
  ultimately show ?thesis
    by (simp add: unsigned_of_nat take_bit_nat_eq_self)
qed

lemma js_inj [simp]: "js s = js t \<longleftrightarrow> s = t"
proof -
  have "inj (of_char :: char \<Rightarrow> 16 word)"
    by (rule injI) (metis unat_of_char_16 of_char_eq_iff)
  then show ?thesis
    by (simp add: js_def inj_map_eq_map)
qed

section \<open>Characters\<close>

text \<open>The whitespace of \<^verbatim>\<open>String.prototype.trim\<close> and of \<^verbatim>\<open>\s\<close>, the class \<^verbatim>\<open>\w\<close>, decimal digits.\<close>

definition js_space :: "jchar \<Rightarrow> bool" where
  "js_space c \<longleftrightarrow>
     (9 \<le> c \<and> c \<le> 13) \<or> c = 32 \<or> c = 0xA0 \<or> c = 0x1680 \<or> (0x2000 \<le> c \<and> c \<le> 0x200A) \<or>
     c = 0x2028 \<or> c = 0x2029 \<or> c = 0x202F \<or> c = 0x205F \<or> c = 0x3000 \<or> c = 0xFEFF"

definition js_trim :: "jstr \<Rightarrow> jstr" where
  "js_trim s = rev (dropWhile js_space (rev (dropWhile js_space s)))"

definition js_digit :: "jchar \<Rightarrow> bool" where
  "js_digit c \<longleftrightarrow> 48 \<le> c \<and> c \<le> 57"

definition js_word :: "jchar \<Rightarrow> bool" where
  "js_word c \<longleftrightarrow> js_digit c \<or> (65 \<le> c \<and> c \<le> 90) \<or> (97 \<le> c \<and> c \<le> 122) \<or> c = 95"

lemma js_trim_id [js_string]:
  assumes "\<forall>c \<in> set s. \<not> js_space c"
  shows "js_trim s = s"
proof -
  have d: "dropWhile js_space u = u" if "\<forall>c \<in> set u. \<not> js_space c" for u
    using that by (cases u) auto
  have "dropWhile js_space s = s" and "dropWhile js_space (rev s) = rev s"
    using assms by (intro d; simp)+
  then show ?thesis
    by (simp add: js_trim_def)
qed

lemma js_trim_ends:
  assumes "js_trim s = c # cs"
  shows "\<not> js_space c" and "\<not> js_space (last (c # cs))"
proof -
  let ?u = "dropWhile js_space s"
  have r: "rev (c # cs) = dropWhile js_space (rev ?u)"
    using assms by (metis js_trim_def rev_rev_ident)
  then show "\<not> js_space (last (c # cs))"
    by (metis hd_dropWhile hd_rev list.distinct(1) rev_is_Nil_conv)
  from r have "suffix (rev (c # cs)) (rev ?u)"
    by (simp add: suffix_dropWhile)
  then have "prefix (c # cs) ?u"
    by (simp add: suffix_to_prefix)
  then obtain zs where "?u = c # cs @ zs"
    by (auto simp only: prefix_def append_Cons)
  then show "\<not> js_space c"
    by (metis hd_dropWhile list.distinct(1) list.sel(1))
qed

section \<open>Searching and replacing\<close>

fun js_contains :: "jstr \<Rightarrow> jstr \<Rightarrow> bool" where
  "js_contains [] p = (p = [])"
| "js_contains (c # cs) p = (prefix p (c # cs) \<or> js_contains cs p)"

definition replace_char :: "jchar \<Rightarrow> jchar \<Rightarrow> jstr \<Rightarrow> jstr" where
  "replace_char a b s = map (\<lambda>c. if c = a then b else c) s"

lemma js_contains_iff: "js_contains s p \<longleftrightarrow> sublist p s"
  by (induction s) (auto simp: sublist_Cons_right)

lemma assoc_get_simps [simp]:
  "assoc_get [] k = None"
  "assoc_get ((a, b) # m) k = (if k = a then Some b else assoc_get m k)"
  by (simp_all add: assoc_get_def)

lemma replace_char_id [js_string]: "a \<notin> set s \<Longrightarrow> replace_char a b s = s"
  by (induction s) (auto simp: replace_char_def)

text \<open>The members every plain object inherits.\<close>

definition object_members :: "jstr list" where
  "object_members = map js
     [''constructor'', ''__defineGetter__'', ''__defineSetter__'', ''hasOwnProperty'',
      ''__lookupGetter__'', ''__lookupSetter__'', ''isPrototypeOf'', ''propertyIsEnumerable'',
      ''toString'', ''valueOf'', ''__proto__'', ''toLocaleString'']"

end
