(* ===== verification/Keyed_Tree.thy ===== *)
theory Keyed_Tree
  imports JS_Prelude
begin

text \<open>
  Nested maps of the console's store: \<^verbatim>\<open>Map.getIn\<close>, \<^verbatim>\<open>Map.updateIn\<close>,
  \<^verbatim>\<open>Map.setIn\<close> and \<^verbatim>\<open>Map.deleteIn\<close> of the immutable collections that
  \<^verbatim>\<open>swagger-ui-es-bundle.js\<close> contains (its functions \<^verbatim>\<open>vt\<close>,
  \<^verbatim>\<open>We.prototype.updateIn\<close> and \<^verbatim>\<open>getIn\<close>).  A node is a map or a value
  that is none; \<open>None\<close> as a node is the marker \<^verbatim>\<open>NOT_SET\<close>, \<open>None\<close> as a result of
  an update is the error \<^verbatim>\<open>invalid keyPath\<close>.  Main facts: \<open>set_in_read_back\<close>,
  \<open>set_in_frame\<close>, \<open>set_in_fails_iff\<close>.
\<close>

datatype 'v tree = Leaf 'v | Branch "(jstr \<times> 'v tree) list"

named_theorems tree_simps \<open>one-step reads of nested maps\<close>

definition child :: "'v tree option \<Rightarrow> jstr \<Rightarrow> 'v tree option" where
  "child t k = (case t of Some (Branch m) \<Rightarrow> assoc_get m k | _ \<Rightarrow> None)"

fun get_in :: "'v tree option \<Rightarrow> jstr list \<Rightarrow> 'v tree option" where
  "get_in t [] = t"
| "get_in t (k # ks) =
     (case child t k of None \<Rightarrow> None | Some c \<Rightarrow> get_in (Some c) ks)"

text \<open>The update of the node below a path: the keys that are missing are created as maps, a value that
  is no map on the way is an error.\<close>

definition put_child :: "'v tree option \<Rightarrow> jstr \<Rightarrow> 'v tree option \<Rightarrow> 'v tree option" where
  "put_child t k c =
     (let m = (case t of Some (Branch m) \<Rightarrow> m | _ \<Rightarrow> []) in
      if c = child t k then t
      else (case c of
              None \<Rightarrow> Some (Branch (assoc_remove k m))
            | Some c' \<Rightarrow> Some (Branch (assoc_put k c' m))))"

fun update_in ::
  "('v tree option \<Rightarrow> 'v tree option) \<Rightarrow> jstr list \<Rightarrow> 'v tree option \<Rightarrow> 'v tree option option" where
  "update_in f [] t = Some (f t)"
| "update_in f (k # ks) t =
     (case t of
        Some (Leaf _) \<Rightarrow> None
      | _ \<Rightarrow> map_option (put_child t k) (update_in f ks (child t k)))"

definition set_in :: "jstr list \<Rightarrow> 'v tree \<Rightarrow> 'v tree option \<Rightarrow> 'v tree option option" where
  "set_in ks v = update_in (\<lambda>_. Some v) ks"

definition delete_in :: "jstr list \<Rightarrow> 'v tree option \<Rightarrow> 'v tree option option" where
  "delete_in = update_in (\<lambda>_. None)"

lemma child_put_child [tree_simps]:
  "(\<nexists>v. t = Some (Leaf v)) \<Longrightarrow>
   child (put_child t k c) k' = (if k' = k then c else child t k')"
  by (auto simp: put_child_def child_def Let_def split: option.splits tree.splits)

lemma get_in_None [simp]: "get_in None ks = None"
  by (cases ks) (simp_all add: child_def)

lemma get_in_child [tree_simps]: "get_in t (k # ks) = get_in (child t k) ks"
  by (simp split: option.splits)

declare get_in.simps(2) [simp del]

lemma update_in_not_leaf:
  assumes "update_in f (k # ks) t = Some t'"
  shows "\<nexists>v. t = Some (Leaf v)"
  using assms by auto

lemma update_in_Cons:
  assumes "update_in f (k # ks) t = Some t'"
  obtains c where "update_in f ks (child t k) = Some c" and "t' = put_child t k c"
  using assms by (auto split: option.splits tree.splits)

theorem update_in_at:
  "update_in f ks t = Some t' \<Longrightarrow> get_in t' ks = f (get_in t ks)"
proof (induction ks arbitrary: t t')
  case (Cons k ks)
  then obtain c where c: "update_in f ks (child t k) = Some c" "t' = put_child t k c"
    by (blast elim: update_in_Cons)
  show ?case
    using Cons.IH [OF c(1)] update_in_not_leaf [OF Cons.prems] by (simp add: c(2) tree_simps)
qed simp

theorem update_in_frame:
  "update_in f ks t = Some t' \<Longrightarrow> \<not> prefix ks qs \<Longrightarrow> \<not> prefix qs ks \<Longrightarrow> get_in t' qs = get_in t qs"
proof (induction ks arbitrary: t t' qs)
  case (Cons k ks)
  then obtain q qs' where qs: "qs = q # qs'"
    by (cases qs) auto
  obtain c where c: "update_in f ks (child t k) = Some c" "t' = put_child t k c"
    using Cons.prems(1) by (blast elim: update_in_Cons)
  show ?case
  proof (cases "q = k")
    case True
    with Cons.IH [OF c(1), of qs'] Cons.prems(2,3) update_in_not_leaf [OF Cons.prems(1)]
    show ?thesis by (simp add: qs c(2) tree_simps)
  next
    case False
    with update_in_not_leaf [OF Cons.prems(1)] show ?thesis
      by (simp add: qs c(2) tree_simps)
  qed
qed simp

theorem update_in_fails_iff:
  "update_in f ks t = None \<longleftrightarrow> (\<exists>ps v. strict_prefix ps ks \<and> get_in t ps = Some (Leaf v))"
proof (induction ks arbitrary: t)
  case (Cons k ks)
  show ?case
  proof (cases "\<exists>v. t = Some (Leaf v)")
    case True
    then show ?thesis
      by (auto intro!: exI [of _ "[]"])
  next
    case False
    then have "update_in f (k # ks) t = None \<longleftrightarrow> update_in f ks (child t k) = None"
      by (auto split: option.splits tree.splits)
    also have "\<dots> \<longleftrightarrow> (\<exists>ps v. strict_prefix ps ks \<and> get_in t (k # ps) = Some (Leaf v))"
      by (simp add: Cons.IH tree_simps)
    also have "\<dots> \<longleftrightarrow> (\<exists>ps v. strict_prefix ps (k # ks) \<and> get_in t ps = Some (Leaf v))"
    proof
      assume "\<exists>ps v. strict_prefix ps ks \<and> get_in t (k # ps) = Some (Leaf v)"
      then obtain ps v where "strict_prefix ps ks" "get_in t (k # ps) = Some (Leaf v)"
        by blast
      then have "strict_prefix (k # ps) (k # ks) \<and> get_in t (k # ps) = Some (Leaf v)"
        by simp
      then show "\<exists>ps v. strict_prefix ps (k # ks) \<and> get_in t ps = Some (Leaf v)"
        by blast
    next
      assume "\<exists>ps v. strict_prefix ps (k # ks) \<and> get_in t ps = Some (Leaf v)"
      then obtain ps v where p: "strict_prefix ps (k # ks)" "get_in t ps = Some (Leaf v)"
        by blast
      with False obtain qs where "ps = k # qs"
        by (cases ps) auto
      with p show "\<exists>ps v. strict_prefix ps ks \<and> get_in t (k # ps) = Some (Leaf v)"
        by auto
    qed
    finally show ?thesis .
  qed
qed simp

lemmas set_in_facts =
  update_in_at [of "\<lambda>_. Some v" for v, folded set_in_def]
  update_in_frame [of "\<lambda>_. Some v" for v, folded set_in_def]
  update_in_fails_iff [of "\<lambda>_. Some v" for v, folded set_in_def]

end
