(* ===== verification/Ordered_Map.thy ===== *)
theory Ordered_Map
  imports JS_Prelude
begin

text \<open>
  The insertion-ordered map of \<^verbatim>\<open>swagger-ui-es-bundle.js\<close> (\<^verbatim>\<open>OrderedMap\<close>
  of the immutable collections in it: the constructor \<^verbatim>\<open>Ut\<close>, its prototype and
  \<^verbatim>\<open>$t\<close>), which holds the operations by tag, the paths and the definitions of the
  console.  The data are an index from keys to positions and a list of entries with holes; removing
  leaves a hole and, once half of a list of 32 or more positions are holes, compacts it.  The results of
  \<open>om_get\<close> and \<open>om_set\<close> are options because both read a field of a list element that
  may be missing (\<open>None\<close> is the \<^verbatim>\<open>TypeError\<close>).  The locale \<open>ordered_store\<close> is
  the contract the rest of the console relies on; it is interpreted on these definitions as
  \<open>om\<close>.
\<close>

record ('k, 'v) omap =
  om_index :: "('k \<times> nat) list"
  om_list :: "('k \<times> 'v) option list"

definition list_entry :: "('k \<times> 'v) option list \<Rightarrow> nat \<Rightarrow> ('k \<times> 'v) option" where
  "list_entry l n = (if n < length l then l ! n else None)"

definition om_empty :: "('k, 'v) omap" where
  "om_empty = \<lparr>om_index = [], om_list = []\<rparr>"

definition om_size :: "('k, 'v) omap \<Rightarrow> nat" where
  "om_size m = length (om_index m)"

definition om_get :: "('k, 'v) omap \<Rightarrow> 'k \<Rightarrow> 'v \<Rightarrow> 'v option" where
  "om_get m k d =
     (case assoc_get (om_index m) k of
        None \<Rightarrow> Some d
      | Some n \<Rightarrow> map_option snd (list_entry (om_list m) n))"

definition om_set :: "'k \<Rightarrow> 'v \<Rightarrow> ('k, 'v) omap \<Rightarrow> ('k, 'v) omap option" where
  "om_set k v m =
     (case assoc_get (om_index m) k of
        Some u \<Rightarrow>
          (case list_entry (om_list m) u of
             None \<Rightarrow> None
           | Some e \<Rightarrow> Some (if v = snd e then m else m\<lparr>om_list := (om_list m)[u := Some (k, v)]\<rparr>))
      | None \<Rightarrow>
          Some \<lparr>om_index = assoc_put k (length (om_list m)) (om_index m),
                om_list = om_list m @ [Some (k, v)]\<rparr>)"

fun present :: "('k \<times> 'v) option list \<Rightarrow> ('k \<times> 'v) list" where
  "present [] = []"
| "present (None # l) = present l"
| "present (Some e # l) = e # present l"

definition without :: "nat \<Rightarrow> ('k \<times> 'v) option list \<Rightarrow> ('k \<times> 'v) list" where
  "without u l = present (map snd (filter (\<lambda>(j, e). e \<noteq> None \<and> u \<noteq> j) (enumerate 0 l)))"

definition index_entries :: "('k \<times> 'v) list \<Rightarrow> ('k \<times> nat) list" where
  "index_entries es = fold (\<lambda>(j, e). assoc_put (fst e) j) (enumerate 0 es) []"

definition om_remove :: "'k \<Rightarrow> ('k, 'v) omap \<Rightarrow> ('k, 'v) omap" where
  "om_remove k m =
     (let i = om_list m in
      case assoc_get (om_index m) k of
        None \<Rightarrow> m
      | Some u \<Rightarrow>
          if 32 \<le> length i \<and> 2 * om_size m \<le> length i
          then \<lparr>om_index = index_entries (without u i), om_list = map Some (without u i)\<rparr>
          else \<lparr>om_index = assoc_remove k (om_index m),
                om_list = (if u + 1 = length i then butlast i else i[u := None])\<rparr>)"

definition om_entries :: "('k, 'v) omap \<Rightarrow> ('k \<times> 'v) list" where
  "om_entries m = present (om_list m)"

fun om_build :: "('k \<times> 'v) list \<Rightarrow> ('k, 'v) omap \<Rightarrow> ('k, 'v) omap option" where
  "om_build [] m = Some m"
| "om_build ((k, v) # es) m = Option.bind (om_set k v m) (om_build es)"

definition om_of :: "('k \<times> 'v) list \<Rightarrow> ('k, 'v) omap option" where
  "om_of es = om_build es om_empty"

section \<open>Representation\<close>

definition om_inv :: "('k, 'v) omap \<Rightarrow> bool" where
  "om_inv m \<longleftrightarrow>
     distinct (map fst (om_index m)) \<and>
     distinct (map fst (om_entries m)) \<and>
     (\<forall>k u. assoc_get (om_index m) k = Some u \<longleftrightarrow> (\<exists>v. list_entry (om_list m) u = Some (k, v)))"

lemma present_append [simp]: "present (a @ b) = present a @ present b"
  by (induction a rule: present.induct) auto

lemma present_Some [simp]: "present (map Some es) = es"
  by (induction es) auto

lemma in_present: "e \<in> set (present l) \<longleftrightarrow> (\<exists>u. list_entry l u = Some e)"
proof (induction l rule: present.induct)
  case 1
  then show ?case by (simp add: list_entry_def)
next
  case (2 l)
  have "(\<exists>u. list_entry (None # l) u = Some e) \<longleftrightarrow> (\<exists>u. list_entry l u = Some e)"
    by (metis (mono_tags, opaque_lifting) Suc_less_eq length_Cons list_entry_def not0_implies_Suc nth_Cons_0
        nth_Cons_Suc option.distinct(1))
  with 2 show ?case by simp
next
  case (3 x l)
  have "(\<exists>u. list_entry (Some x # l) u = Some e) \<longleftrightarrow> x = e \<or> (\<exists>u. list_entry l u = Some e)"
  proof
    assume "\<exists>u. list_entry (Some x # l) u = Some e"
    then obtain u where "list_entry (Some x # l) u = Some e" by blast
    then show "x = e \<or> (\<exists>u. list_entry l u = Some e)"
      by (cases u) (auto simp: list_entry_def split: if_splits)
  next
    assume "x = e \<or> (\<exists>u. list_entry l u = Some e)"
    then consider "x = e" | u where "list_entry l u = Some e" by blast
    then show "\<exists>u. list_entry (Some x # l) u = Some e"
    proof cases
      case 1
      then show ?thesis by (intro exI [of _ 0]) (simp add: list_entry_def)
    next
      case 2
      then show ?thesis by (intro exI [of _ "Suc u"]) (simp add: list_entry_def split: if_splits)
    qed
  qed
  with 3 show ?case by auto
qed

lemma split_at:
  assumes "list_entry l u = Some e"
  obtains a b where "l = a @ Some e # b" and "length a = u"
proof -
  have "u < length l" and "l ! u = Some e"
    using assms by (auto simp: list_entry_def split: if_splits)
  then have "l = take u l @ Some e # drop (Suc u) l" and "length (take u l) = u"
    using id_take_nth_drop [of u l] by simp_all
  then show thesis by (rule that)
qed

lemma update_at [simp]: "length a = u \<Longrightarrow> (a @ x # b)[u := y] = a @ y # b"
  by (auto simp: list_update_append)

lemma list_entry_append:
  "list_entry (a @ b) n = (if n < length a then list_entry a n else list_entry b (n - length a))"
  by (auto simp: list_entry_def nth_append)

lemma assoc_put_append:
  "k \<notin> fst ` set a \<Longrightarrow> assoc_put k v (a @ b) = a @ assoc_put k v b"
  by (induction a) auto

lemma assoc_put_absent: "k \<notin> fst ` set a \<Longrightarrow> assoc_put k v a = a @ [(k, v)]"
  by (induction a) auto

lemma assoc_remove_absent: "k \<notin> fst ` set a \<Longrightarrow> assoc_remove k a = a"
  by (induction a) (auto simp: assoc_remove_def)

lemma assoc_remove_hit: "k \<notin> fst ` set b \<Longrightarrow> assoc_remove k ((k, v) # b) = b"
  using assoc_remove_absent [of k b] by (simp add: assoc_remove_def)

lemma assoc_remove_append: "assoc_remove k (a @ b) = assoc_remove k a @ assoc_remove k b"
  by (simp add: assoc_remove_def)

lemma assoc_remove_distinct [intro]: "distinct (map fst m) \<Longrightarrow> distinct (map fst (assoc_remove k m))"
  by (simp add: assoc_remove_def distinct_map_filter)

lemma without_split: "length a = u \<Longrightarrow> without u (a @ Some e # b) = present a @ present b"
proof -
  have drop_holes: "present (map snd (filter (\<lambda>(j, e). e \<noteq> None \<and> u \<noteq> j) (enumerate n l))) = present l"
    if "u < n \<or> n + length l \<le> u" for n and l :: "('k \<times> 'v) option list"
    using that by (induction l arbitrary: n rule: present.induct) auto
  assume "length a = u"
  then show "without u (a @ Some e # b) = present a @ present b"
    by (simp add: without_def enumerate_append_eq drop_holes del: not_None_eq)
qed


lemma map_of_index_entries:
  assumes "distinct (map fst es)"
  shows "assoc_get (index_entries es) k = Some j \<longleftrightarrow> (\<exists>v. list_entry (map Some es) j = Some (k, v))"
    and "distinct (map fst (index_entries es))"
proof -
  have gen: "distinct (map fst es) \<Longrightarrow>
    (assoc_get (fold (\<lambda>(j, e). assoc_put (fst e) j) (enumerate n es) m) k =
       (case map_of (map (\<lambda>(j, e). (fst e, j)) (enumerate n es)) k of Some j \<Rightarrow> Some j | None \<Rightarrow> assoc_get m k))"
    for n and m :: "('a \<times> nat) list" and es :: "('a \<times> 'b) list"
  proof (induction es arbitrary: n m)
    case (Cons e es)
    have "snd x \<in> set es" if "x \<in> set (enumerate (Suc n) es)" for x
      using that by (metis list.set_map image_eqI map_snd_enumerate)
    then have "fst (snd x) \<noteq> fst e" if "x \<in> set (enumerate (Suc n) es)" for x
      using that Cons.prems by (metis distinct.simps(2) image_eqI list.set_map list.simps(9))
    then have "map_of (map (\<lambda>(j, e). (fst e, j)) (enumerate (Suc n) es)) (fst e) = None"
      by (force simp: map_of_eq_None_iff)
    with Cons show ?case by (auto split: option.splits)
  qed simp
  have "assoc_get (index_entries es) k = map_of (map (\<lambda>(j, e). (fst e, j)) (enumerate 0 es)) k"
    unfolding index_entries_def using gen [OF assms] by (simp split: option.splits)
  also have "\<dots> = Some j \<longleftrightarrow> (k, j) \<in> set (map (\<lambda>(j, e). (fst e, j)) (enumerate 0 es))"
  proof (rule map_of_eq_Some_iff)
    have "map fst (map (\<lambda>(j, e). (fst e, j)) (enumerate 0 es)) = map fst (map snd (enumerate 0 es))"
      by (simp only: map_map comp_def case_prod_unfold fst_conv)
    with assms show "distinct (map fst (map (\<lambda>(j, e). (fst e, j)) (enumerate 0 es)))"
      by (simp only: map_snd_enumerate)
  qed
  also have "\<dots> \<longleftrightarrow> (\<exists>e. (j, e) \<in> set (enumerate 0 es) \<and> fst e = k)"
    unfolding set_map image_iff by (auto intro: bexI [rotated])
  also have "\<dots> \<longleftrightarrow> j < length es \<and> fst (es ! j) = k"
    unfolding in_set_enumerate_eq by auto
  also have "\<dots> \<longleftrightarrow> (\<exists>v. list_entry (map Some es) j = Some (k, v))"
    by (cases "es ! j") (auto simp: list_entry_def)
  finally show "assoc_get (index_entries es) k = Some j \<longleftrightarrow> (\<exists>v. list_entry (map Some es) j = Some (k, v))" .
  have "distinct (map fst (fold (\<lambda>(j, e). assoc_put (fst e) j) xs m))" if "distinct (map fst m)"
    for xs :: "(nat \<times> 'a \<times> 'b) list" and m :: "('a \<times> nat) list"
    using that by (induction xs arbitrary: m) (auto intro: assoc_put_distinct)
  then show "distinct (map fst (index_entries es))"
    by (simp add: index_entries_def)
qed

section \<open>Refinement of an insertion-ordered association list\<close>

lemma om_invD:
  assumes "om_inv m"
  shows "distinct (map fst (om_index m))"
    and "distinct (map fst (om_entries m))"
    and "assoc_get (om_index m) k = Some u \<longleftrightarrow> (\<exists>v. list_entry (om_list m) u = Some (k, v))"
  using assms by (simp_all add: om_inv_def)

lemma om_present_key:
  assumes "om_inv m" and "assoc_get (om_index m) k = Some u"
  obtains v a b where "om_list m = a @ Some (k, v) # b" "length a = u"
    "k \<notin> fst ` set (present a)" "k \<notin> fst ` set (present b)"
proof -
  from om_invD(3) [OF assms(1)] assms(2) obtain v where "list_entry (om_list m) u = Some (k, v)"
    by blast
  then obtain a b where l: "om_list m = a @ Some (k, v) # b" "length a = u"
    by (rule split_at)
  moreover have "k \<notin> fst ` set (present a)" "k \<notin> fst ` set (present b)"
    using om_invD(2) [OF assms(1)] by (auto simp: om_entries_def l(1))
  ultimately show thesis by (rule that)
qed

lemma om_absent_key:
  assumes "om_inv m" and "assoc_get (om_index m) k = None"
  shows "k \<notin> fst ` set (om_entries m)"
proof
  assume "k \<in> fst ` set (om_entries m)"
  then obtain v where "(k, v) \<in> set (present (om_list m))"
    by (auto simp: om_entries_def)
  then obtain u where "list_entry (om_list m) u = Some (k, v)"
    unfolding in_present by blast
  with om_invD(3) [OF assms(1), of k u] assms(2) show False by simp
qed

lemma om_empty_facts: "om_inv om_empty" "om_entries om_empty = []"
  by (simp_all add: om_inv_def om_empty_def om_entries_def list_entry_def)

lemma om_get_refines:
  assumes "om_inv m"
  shows "om_get m k d = Some (case assoc_get (om_entries m) k of None \<Rightarrow> d | Some v \<Rightarrow> v)"
proof (cases "assoc_get (om_index m) k")
  case None
  with om_absent_key [OF assms None] have "assoc_get (om_entries m) k = None"
    by (simp add: assoc_get_def map_of_eq_None_iff)
  with None show ?thesis by (simp add: om_get_def)
next
  case (Some u)
  then obtain v a b where l: "om_list m = a @ Some (k, v) # b" "length a = u" "k \<notin> fst ` set (present a)"
    using om_present_key [OF assms] by metis
  then have "list_entry (om_list m) u = Some (k, v)"
    by (auto simp: list_entry_def nth_append)
  moreover have "assoc_get (om_entries m) k = Some v"
    unfolding assoc_get_def
    by (rule map_of_is_SomeI [OF om_invD(2) [OF assms]]) (simp add: om_entries_def l(1))
  ultimately show ?thesis
    using Some by (simp add: om_get_def)
qed

lemma om_set_present:
  assumes "om_inv m" and "assoc_get (om_index m) k = Some u"
  shows "om_set k v m = Some (m\<lparr>om_list := (om_list m)[u := Some (k, v)]\<rparr>)"
proof -
  obtain v0 a b where l: "om_list m = a @ Some (k, v0) # b" "length a = u"
    using om_present_key [OF assms] by metis
  then have "list_entry (om_list m) u = Some (k, v0)"
    by (auto simp: list_entry_def nth_append)
  moreover have "(om_list m)[u := Some (k, v0)] = om_list m"
    using l by simp
  ultimately show ?thesis
    using assms(2) by (auto simp: om_set_def)
qed

lemma om_set_refines:
  assumes "om_inv m"
  obtains m' where "om_set k v m = Some m'" "om_inv m'" "om_entries m' = assoc_put k v (om_entries m)"
proof (cases "assoc_get (om_index m) k")
  case (Some u)
  let ?m = "m\<lparr>om_list := (om_list m)[u := Some (k, v)]\<rparr>"
  obtain v0 a b where l: "om_list m = a @ Some (k, v0) # b" "length a = u" "k \<notin> fst ` set (present a)"
    using om_present_key [OF assms Some] by metis
  have e: "om_entries ?m = assoc_put k v (om_entries m)"
    using l by (simp add: om_entries_def assoc_put_append del: list_update_length)
  have "(\<exists>w. list_entry (om_list ?m) n = Some (k', w)) \<longleftrightarrow> (\<exists>w. list_entry (om_list m) n = Some (k', w))" for n k'
    using l by (auto simp: list_entry_def nth_append nth_Cons split: nat.splits)
  with om_invD(1,3) [OF assms] have "om_inv ?m"
    unfolding om_inv_def e using om_invD(2) [OF assms] by (auto intro: assoc_put_distinct)
  with e show thesis
    by (intro that [of ?m] om_set_present [OF assms Some])
next
  case None
  let ?m = "\<lparr>om_index = assoc_put k (length (om_list m)) (om_index m), om_list = om_list m @ [Some (k, v)]\<rparr>"
  have e: "om_entries ?m = assoc_put k v (om_entries m)"
    using om_absent_key [OF assms None] by (simp add: om_entries_def assoc_put_absent)
  have old: "assoc_get (om_index m) k' = Some n \<longleftrightarrow> (\<exists>w. list_entry (om_list m) n = Some (k', w))" for n k'
    by (rule om_invD(3) [OF assms])
  have "assoc_get (om_index ?m) k' = Some n \<longleftrightarrow> (\<exists>w. list_entry (om_list ?m) n = Some (k', w))" for n k'
    using old [of k' n] None
    by (auto simp: list_entry_def nth_append split: if_splits)
  then have "om_inv ?m"
    unfolding om_inv_def e using om_invD(1,2) [OF assms] by (auto intro: assoc_put_distinct)
  moreover have "om_set k v m = Some ?m"
    using None by (simp add: om_set_def)
  ultimately show thesis
    using e by (intro that [of ?m])
qed

lemma om_remove_refines:
  assumes "om_inv m"
  shows "om_inv (om_remove k m)" and "om_entries (om_remove k m) = assoc_remove k (om_entries m)"
proof -
  have "om_inv (om_remove k m) \<and> om_entries (om_remove k m) = assoc_remove k (om_entries m)"
  proof (cases "assoc_get (om_index m) k")
    case None
    with om_absent_key [OF assms None] assms show ?thesis
      by (simp add: om_remove_def assoc_remove_absent)
  next
    case (Some u)
    obtain v a b where l: "om_list m = a @ Some (k, v) # b" "length a = u"
      and fresh: "k \<notin> fst ` set (present a)" "k \<notin> fst ` set (present b)"
      using om_present_key [OF assms Some] by metis
    have rest: "assoc_remove k (om_entries m) = present a @ present b"
      using fresh by (simp add: om_entries_def l(1) assoc_remove_append assoc_remove_absent assoc_remove_hit)
    have d: "distinct (map fst (present a @ present b))"
      using assoc_remove_distinct [OF om_invD(2) [OF assms], of k] unfolding rest .
    show ?thesis
    proof (cases "32 \<le> length (om_list m) \<and> 2 * om_size m \<le> length (om_list m)")
      case True
      define es where "es = present a @ present b"
      have "om_remove k m = \<lparr>om_index = index_entries es, om_list = map Some es\<rparr>"
        using Some True without_split [OF l(2), of "(k, v)" b] by (simp add: om_remove_def es_def l(1))
      then show ?thesis
        using map_of_index_entries [OF d [folded es_def]] d [folded es_def]
        by (simp add: om_inv_def rest es_def [symmetric]) (simp add: om_entries_def)
    next
      case False
      define l' where "l' = (if u + 1 = length (om_list m) then butlast (om_list m) else (om_list m)[u := None])"
      have r: "om_remove k m = \<lparr>om_index = assoc_remove k (om_index m), om_list = l'\<rparr>"
        using Some False by (auto simp: om_remove_def l'_def)
      have p: "present l' = present a @ present b"
        using l by (cases b rule: rev_cases) (auto simp: l'_def butlast_append)
      have old: "assoc_get (om_index m) k' = Some n \<longleftrightarrow> (\<exists>w. list_entry (om_list m) n = Some (k', w))" for n k'
        by (rule om_invD(3) [OF assms])
      have entry: "list_entry l' n = (if n = u then None else list_entry (om_list m) n)" for n
        using l by (auto simp: l'_def list_entry_def nth_append nth_list_update butlast_append nth_butlast)
      have "assoc_get (assoc_remove k (om_index m)) k' = Some n \<longleftrightarrow> (\<exists>w. list_entry l' n = Some (k', w))" for n k'
        using old [of k' n] old [of k u] old [of k n] old [of k' u] Some unfolding entry by auto
      with p d rest om_invD(1) [OF assms] show ?thesis
        unfolding r om_inv_def by (auto simp: om_entries_def intro: assoc_remove_distinct)
    qed
  qed
  then show "om_inv (om_remove k m)" and "om_entries (om_remove k m) = assoc_remove k (om_entries m)"
    by simp_all
qed

lemma om_size_entries:
  assumes "om_inv m"
  shows "om_size m = length (om_entries m)"
proof -
  have "k \<in> fst ` set (om_index m) \<longleftrightarrow> k \<in> fst ` set (om_entries m)" for k
  proof -
    have "k \<in> fst ` set (om_index m) \<longleftrightarrow> (\<exists>u. assoc_get (om_index m) k = Some u)"
      by (metis assoc_get_def map_of_eq_None_iff not_None_eq)
    also have "\<dots> \<longleftrightarrow> (\<exists>v. (k, v) \<in> set (om_entries m))"
      unfolding om_invD(3) [OF assms] om_entries_def in_present by blast
    also have "\<dots> \<longleftrightarrow> k \<in> fst ` set (om_entries m)"
      by force
    finally show ?thesis .
  qed
  then have "set (map fst (om_index m)) = set (map fst (om_entries m))"
    by auto
  with om_invD(1,2) [OF assms] show ?thesis
    unfolding om_size_def by (metis distinct_card length_map)
qed

section \<open>Bounded waste\<close>

definition om_compact :: "('k, 'v) omap \<Rightarrow> bool" where
  "om_compact m \<longleftrightarrow> length (om_list m) \<le> 31 + 2 * om_size m"

lemma length_assoc_put:
  "length (assoc_put k v m) = length m + (if assoc_get m k = None then 1 else 0)"
  by (induction m) (auto split: if_splits)

lemma length_assoc_remove:
  "distinct (map fst m) \<Longrightarrow> assoc_get m k = Some v \<Longrightarrow> length (assoc_remove k m) + 1 = length m"
proof (induction m)
  case (Cons e m)
  show ?case
  proof (cases "fst e = k")
    case True
    with Cons.prems(1) have "k \<notin> fst ` set m" by auto
    then have "assoc_remove k m = m" by (rule assoc_remove_absent)
    with True show ?thesis by (simp add: assoc_remove_def case_prod_unfold)
  next
    case False
    with Cons show ?thesis by (cases e) (simp add: assoc_remove_def)
  qed
qed simp

lemma om_compact_set:
  assumes "om_set k v m = Some m'" and "om_compact m"
  shows "om_compact m'"
  using assms
  by (auto simp: om_set_def om_compact_def om_size_def length_assoc_put split: option.splits if_splits)

lemma om_compact_remove:
  assumes "om_inv m" and "om_compact m"
  shows "om_compact (om_remove k m)"
proof (cases "assoc_get (om_index m) k")
  case None
  with assms show ?thesis by (simp add: om_remove_def)
next
  case (Some u)
  then obtain v a b where "om_list m = a @ Some (k, v) # b"
    using om_present_key [OF assms(1)] by metis
  then have "assoc_get (om_entries m) k = Some v"
    unfolding assoc_get_def
    by (intro map_of_is_SomeI [OF om_invD(2) [OF assms(1)]]) (simp add: om_entries_def)
  from length_assoc_remove [OF om_invD(2) [OF assms(1)] this]
  have s: "om_size m = om_size (om_remove k m) + 1"
    using om_remove_refines [OF assms(1), of k] by (simp add: om_size_entries assms(1))
  show ?thesis
  proof (cases "32 \<le> length (om_list m) \<and> 2 * om_size m \<le> length (om_list m)")
    case True
    then have "om_list (om_remove k m) = map Some (without u (om_list m))"
      using Some by (simp add: om_remove_def Let_def)
    then have "om_entries (om_remove k m) = without u (om_list m)"
      and "length (om_list (om_remove k m)) = length (without u (om_list m))"
      by (simp_all add: om_entries_def)
    with om_size_entries [OF om_remove_refines(1) [OF assms(1)], of k] show ?thesis
      by (simp add: om_compact_def)
  next
    case False
    then have "length (om_list (om_remove k m)) \<le> length (om_list m)"
      using Some by (auto simp: om_remove_def Let_def)
    with False assms(2) s show ?thesis
      by (auto simp: om_compact_def)
  qed
qed

section \<open>The contract of the map and its use\<close>

locale ordered_store =
  fixes empty :: "'m"
    and insert :: "'k \<Rightarrow> 'v \<Rightarrow> 'm \<Rightarrow> 'm option"
    and delete :: "'k \<Rightarrow> 'm \<Rightarrow> 'm"
    and lookup :: "'m \<Rightarrow> 'k \<Rightarrow> 'v \<Rightarrow> 'v option"
    and entries :: "'m \<Rightarrow> ('k \<times> 'v) list"
    and valid :: "'m \<Rightarrow> bool"
  assumes valid_empty: "valid empty" and entries_empty: "entries empty = []"
    and insert_ok: "valid m \<Longrightarrow> \<exists>m'. insert k v m = Some m' \<and> valid m' \<and> entries m' = assoc_put k v (entries m)"
    and valid_delete: "valid m \<Longrightarrow> valid (delete k m)"
    and entries_delete: "valid m \<Longrightarrow> entries (delete k m) = assoc_remove k (entries m)"
    and lookup_entries: "valid m \<Longrightarrow> lookup m k d = Some (case assoc_get (entries m) k of None \<Rightarrow> d | Some v \<Rightarrow> v)"
begin

lemma lookup_insert:
  assumes "valid m" and "insert k v m = Some m'"
  shows "lookup m' k' d = (if k' = k then Some v else lookup m k' d)"
proof -
  have "valid m'" and "entries m' = assoc_put k v (entries m)"
    using insert_ok [OF assms(1), of k v] assms(2) by auto
  with lookup_entries assms(1) show ?thesis by simp
qed

lemma lookup_delete:
  assumes "valid m"
  shows "lookup (delete k m) k' d = (if k' = k then Some d else lookup m k' d)"
  using assms by (simp add: lookup_entries valid_delete entries_delete)

lemma insert_keeps_order:
  assumes "valid m" and "insert k v m = Some m'"
  shows "map fst (entries m') =
    (if k \<in> fst ` set (entries m) then map fst (entries m) else map fst (entries m) @ [k])"
proof -
  have "map fst (assoc_put k v es) = (if k \<in> fst ` set es then map fst es else map fst es @ [k])"
    for es :: "('k \<times> 'v) list"
  proof (induction es)
    case (Cons e es)
    then show ?case by (cases e) simp
  qed simp
  then show ?thesis
    using insert_ok [OF assms(1), of k v] assms(2) by auto
qed

end

interpretation om: ordered_store om_empty om_set om_remove om_get om_entries om_inv
proof
  fix m :: "('a, 'b) omap" and k v d
  assume m: "om_inv m"
  show "\<exists>m'. om_set k v m = Some m' \<and> om_inv m' \<and> om_entries m' = assoc_put k v (om_entries m)"
    by (rule om_set_refines [OF m]) blast
  show "om_inv (om_remove k m)" "om_entries (om_remove k m) = assoc_remove k (om_entries m)"
    using om_remove_refines [OF m] by simp_all
  show "om_get m k d = Some (case assoc_get (om_entries m) k of None \<Rightarrow> d | Some v \<Rightarrow> v)"
    by (rule om_get_refines [OF m])
qed (simp_all add: om_empty_facts)

datatype ('k, 'v) om_op = OmSet 'k 'v | OmRemove 'k

fun om_run :: "('k, 'v) om_op list \<Rightarrow> ('k, 'v) omap \<Rightarrow> ('k, 'v) omap option" where
  "om_run [] m = Some m"
| "om_run (OmSet k v # ops) m = Option.bind (om_set k v m) (om_run ops)"
| "om_run (OmRemove k # ops) m = om_run ops (om_remove k m)"

fun spec_run :: "('k, 'v) om_op list \<Rightarrow> ('k \<times> 'v) list \<Rightarrow> ('k \<times> 'v) list" where
  "spec_run [] es = es"
| "spec_run (OmSet k v # ops) es = spec_run ops (assoc_put k v es)"
| "spec_run (OmRemove k # ops) es = spec_run ops (assoc_remove k es)"

lemma om_run_refines:
  "om_inv m \<Longrightarrow> om_compact m \<Longrightarrow>
   \<exists>m'. om_run ops m = Some m' \<and> om_inv m' \<and> om_compact m' \<and> om_entries m' = spec_run ops (om_entries m)"
proof (induction ops m rule: om_run.induct)
  case (2 k v ops m)
  then obtain m1 where "om_set k v m = Some m1" "om_inv m1" "om_entries m1 = assoc_put k v (om_entries m)"
    by (metis om.insert_ok)
  with 2 om_compact_set show ?case by fastforce
next
  case (3 k ops m)
  then show ?case
    using om_compact_remove om.valid_delete om.entries_delete by fastforce
qed simp

lemma om_build_run: "om_build es m = om_run (map (\<lambda>(k, v). OmSet k v) es) m"
  by (induction es m rule: om_build.induct) (auto split: bind_splits)

text \<open>C4: After any sequence of insertions and removals, none of which fails, the map holds what an
insertion-ordered association list holds after the same operations, in the same order, its size is the
number of entries, lookups agree, and the list with holes is at most 31 longer than twice the size.\<close>

theorem ordered_map_refines:
  "\<exists>m. om_run ops om_empty = Some m \<and>
       om_entries m = spec_run ops [] \<and>
       om_size m = length (spec_run ops []) \<and>
       length (om_list m) \<le> 31 + 2 * om_size m \<and>
       (\<forall>k d. om_get m k d = Some (case assoc_get (spec_run ops []) k of None \<Rightarrow> d | Some v \<Rightarrow> v))"
proof -
  have "om_compact om_empty" by (simp add: om_compact_def om_empty_def)
  from om_run_refines [OF om.valid_empty this, of ops] obtain m where
    "om_run ops om_empty = Some m" "om_inv m" "om_compact m" "om_entries m = spec_run ops []"
    by (auto simp: om.entries_empty)
  then show ?thesis
    using om_size_entries [of m] om.lookup_entries [of m] by (auto simp: om_compact_def)
qed

end
