(* ===== verification/Console_Layout.thy ===== *)
theory Console_Layout
  imports Keyed_Tree Ordered_Map
begin

text \<open>
  The layout plugin of the console in \<^verbatim>\<open>swagger-ui-es-bundle.js\<close>: its actions
  (module 109), reducers (262) and selectors (263), the selector that filters and cuts the list of tags
  (264) and the text filter of the filter plugin (291).  The part of the store it keeps is
  \<open>layout_state\<close>; \<open>ly_modes\<close> is the nested map below the key
  \<^verbatim>\<open>modes\<close>, \<open>ly_scroll\<close> the field of the deep linking plugin, which shares this part of
  the store.  A thing to show is a string or an array of strings, the filter is unset, a truth value of
  the configuration or a text.
\<close>

datatype thing = One jstr | Many "jstr list"
datatype filter_value = FUnset | FBool bool | FText jstr

record layout_state =
  ly_layout :: json
  ly_filter :: filter_value
  ly_shown :: "(jstr list \<times> bool) list"
  ly_modes :: "jstr tree option"
  ly_scroll :: "jstr list option"

datatype layout_action =
    UpdateLayout json
  | UpdateFilter filter_value
  | Show "jstr list" bool
  | UpdateMode "jstr list" jstr

fun normalize_array :: "thing \<Rightarrow> jstr list" where
  "normalize_array (One s) = [s]"
| "normalize_array (Many ss) = ss"

definition update_layout :: "json \<Rightarrow> layout_action" where
  "update_layout v = UpdateLayout v"

definition update_filter :: "filter_value \<Rightarrow> layout_action" where
  "update_filter v = UpdateFilter v"

definition show_action :: "thing \<Rightarrow> bool option \<Rightarrow> layout_action" where
  "show_action t shown = Show (normalize_array t) (case shown of None \<Rightarrow> True | Some b \<Rightarrow> b)"

definition change_mode :: "thing \<Rightarrow> jstr option \<Rightarrow> layout_action" where
  "change_mode t mode = UpdateMode (normalize_array t) (case mode of None \<Rightarrow> [] | Some m \<Rightarrow> m)"

fun layout_reduce :: "layout_action \<Rightarrow> layout_state \<Rightarrow> layout_state option" where
  "layout_reduce (UpdateLayout v) st = Some (st\<lparr>ly_layout := v\<rparr>)"
| "layout_reduce (UpdateFilter v) st = Some (st\<lparr>ly_filter := v\<rparr>)"
| "layout_reduce (Show k b) st = Some (st\<lparr>ly_shown := assoc_put k b (ly_shown st)\<rparr>)"
| "layout_reduce (UpdateMode k m) st =
     map_option (\<lambda>t. st\<lparr>ly_modes := t\<rparr>) (set_in k (Leaf m) (ly_modes st))"

definition current :: "layout_state \<Rightarrow> json" where
  "current st = ly_layout st"

definition current_filter :: "layout_state \<Rightarrow> filter_value" where
  "current_filter st = ly_filter st"

definition is_shown :: "layout_state \<Rightarrow> thing \<Rightarrow> bool \<Rightarrow> bool" where
  "is_shown st t d = (case assoc_get (ly_shown st) (normalize_array t) of None \<Rightarrow> d | Some b \<Rightarrow> b)"

definition what_mode :: "layout_state \<Rightarrow> thing \<Rightarrow> jstr tree \<Rightarrow> jstr tree" where
  "what_mode st t d = (case get_in (ly_modes st) (normalize_array t) of None \<Rightarrow> d | Some m \<Rightarrow> m)"

definition show_summary :: "layout_state \<Rightarrow> bool" where
  "show_summary st = (\<not> is_shown st (One (js ''editor'')) False)"

section \<open>Tags on display\<close>

definition ops_filter :: "(jstr \<times> 'v) list \<Rightarrow> jstr \<Rightarrow> (jstr \<times> 'v) list" where
  "ops_filter ops phrase = filter (\<lambda>(tag, _). js_contains tag phrase) ops"

definition tagged_operations ::
  "(jstr \<times> 'v) list \<Rightarrow> layout_state \<Rightarrow> int option \<Rightarrow> (jstr \<times> 'v) list" where
  "tagged_operations ops st max_tags =
     (let ops' =
        (case current_filter st of
           FText s \<Rightarrow>
             if s \<noteq> [] \<and> s \<noteq> js ''true'' \<and> s \<noteq> js ''false'' then ops_filter ops s else ops
         | _ \<Rightarrow> ops)
      in case max_tags of
           Some m \<Rightarrow> if m \<noteq> 0 \<and> m \<ge> 0 then take (nat m) ops' else ops'
         | None \<Rightarrow> ops')"

section \<open>Facts\<close>

lemma shown_after_show:
  assumes "layout_reduce (show_action t b) st = Some st'"
  shows "is_shown st' t' d =
    (if normalize_array t' = normalize_array t then (case b of None \<Rightarrow> True | Some b' \<Rightarrow> b') else is_shown st t' d)"
  using assms by (auto simp: show_action_def is_shown_def)

text \<open>After the mode of a thing is changed it is read back, the mode of every thing whose path neither
extends it nor is extended by it is as before, and nothing else of the layout changes.\<close>

theorem mode_update:
  assumes "layout_reduce (change_mode t (Some m)) st = Some st'"
  shows "what_mode st' t d = Leaf m \<and>
    (\<forall>t'. \<not> prefix (normalize_array t) (normalize_array t') \<and> \<not> prefix (normalize_array t') (normalize_array t) \<longrightarrow>
       what_mode st' t' d = what_mode st t' d) \<and>
    ly_shown st' = ly_shown st \<and> ly_filter st' = ly_filter st \<and> ly_layout st' = ly_layout st"
proof -
  obtain ms where ms: "set_in (normalize_array t) (Leaf m) (ly_modes st) = Some ms" "st' = st\<lparr>ly_modes := ms\<rparr>"
    using assms by (auto simp: change_mode_def)
  show ?thesis
    using set_in_facts(1) [OF ms(1)] set_in_facts(2) [OF ms(1)] by (simp add: ms(2) what_mode_def)
qed

theorem mode_update_witness:
  "\<exists>st'. layout_reduce (change_mode (Many [js ''a'', js ''b'']) (Some (js ''edit'')))
      \<lparr>ly_layout = JUndef, ly_filter = FUnset, ly_shown = [], ly_modes = None, ly_scroll = None\<rparr> = Some st' \<and>
    what_mode st' (Many [js ''a'', js ''b'']) (Leaf []) = Leaf (js ''edit'')"
proof -
  let ?st = "\<lparr>ly_layout = JUndef, ly_filter = FUnset, ly_shown = [], ly_modes = None, ly_scroll = None\<rparr>"
  obtain st' where st': "layout_reduce (change_mode (Many [js ''a'', js ''b'']) (Some (js ''edit''))) ?st = Some st'"
    by (simp add: change_mode_def set_in_def child_def)
  with mode_update [OF st'] show ?thesis by blast
qed


text \<open>Changing the mode of a thing fails exactly when a mode was set before for a proper prefix of its
path, which is the error of an invalid key path in the nested map of modes.\<close>

theorem mode_update_fails:
  "layout_reduce (change_mode t (Some m)) st = None \<longleftrightarrow>
   (\<exists>ps v. strict_prefix ps (normalize_array t) \<and> get_in (ly_modes st) ps = Some (Leaf v))"
  by (simp add: change_mode_def set_in_facts(3))

definition tag_kept :: "layout_state \<Rightarrow> jstr \<times> 'v \<Rightarrow> bool" where
  "tag_kept st e = (case current_filter st of
      FText s \<Rightarrow> s \<in> {js ''true'', js ''false''} \<or> sublist s (fst e)
    | _ \<Rightarrow> True)"

text \<open>The tags on display are those that contain the text of the filter, all of them when the filter is no
text, empty or the words true and false, in their order and cut to the configured number when that is
positive.\<close>

theorem tagged_operations_spec:
  "tagged_operations ops st mx =
    (case mx of
       Some m \<Rightarrow> if 0 < m then take (nat m) (filter (tag_kept st) ops) else filter (tag_kept st) ops
     | None \<Rightarrow> filter (tag_kept st) ops)"
proof -
  have "(case current_filter st of
           FText s \<Rightarrow> if s \<noteq> [] \<and> s \<noteq> js ''true'' \<and> s \<noteq> js ''false'' then ops_filter ops s else ops
         | _ \<Rightarrow> ops) = filter (tag_kept st) ops"
    unfolding tag_kept_def ops_filter_def js_contains_iff case_prod_unfold
    by (cases "current_filter st") (simp_all del: js_simps)
  then show ?thesis
    by (auto simp: tagged_operations_def Let_def split: option.splits)
qed

end
