(* ===== verification/String_Hash.thy ===== *)
theory String_Hash
  imports JS_Prelude
begin

unbundle bit_operations_syntax

text \<open>
  Hashing of strings in the immutable collections of \<^verbatim>\<open>swagger-ui-es-bundle.js\<close>: the
  31-bit form of a hash (\<^verbatim>\<open>Oe\<close>), the hash of a string (\<^verbatim>\<open>Te\<close>),
  its cache of at most 255 long strings (\<^verbatim>\<open>je\<close> with \<^verbatim>\<open>Ue\<close> and
  \<^verbatim>\<open>qe\<close>) and the string branch of \<^verbatim>\<open>Ce\<close>.  A hash is the integer the
  program computes; \<^verbatim>\<open>|0\<close> is \<open>int32\<close>.
\<close>

definition smi :: "int \<Rightarrow> int" where
  "smi e =
     (let w = word_of_int e :: 32 word
      in sint ((drop_bit 1 w AND 1073741824) OR (3221225471 AND w)))"

fun hash_loop :: "int \<Rightarrow> jstr \<Rightarrow> int" where
  "hash_loop t [] = t"
| "hash_loop t (c # cs) = hash_loop (int32 (31 * t + uint c)) cs"

definition hash_string :: "jstr \<Rightarrow> int" where
  "hash_string s = smi (hash_loop 0 s)"

text \<open>The cache is a plain object: a lookup also finds the members every object inherits.\<close>

datatype hash_value = HNum int | HMember jstr

record hash_cache =
  hc_map :: "(jstr \<times> int) list"
  hc_size :: nat

definition object_read :: "(jstr \<times> int) list \<Rightarrow> jstr \<Rightarrow> hash_value option" where
  "object_read m k =
     (case assoc_get m k of
        Some h \<Rightarrow> Some (HNum h)
      | None \<Rightarrow> if k \<in> set object_members then Some (HMember k) else None)"

definition cached_hash :: "jstr \<Rightarrow> hash_cache \<Rightarrow> hash_value \<times> hash_cache" where
  "cached_hash s c =
     (case object_read (hc_map c) s of
        Some t \<Rightarrow> (t, c)
      | None \<Rightarrow>
          let t = hash_string s;
              c' = (if hc_size c = 255 then \<lparr>hc_map = [], hc_size = 0\<rparr> else c)
          in (HNum t, \<lparr>hc_map = assoc_put s t (hc_map c'), hc_size = hc_size c' + 1\<rparr>))"

definition hash_of :: "jstr \<Rightarrow> hash_cache \<Rightarrow> hash_value \<times> hash_cache" where
  "hash_of s c = (if length s > 16 then cached_hash s c else (HNum (hash_string s), c))"

definition empty_cache :: hash_cache where
  "empty_cache = \<lparr>hc_map = [], hc_size = 0\<rparr>"

fun hash_all :: "jstr list \<Rightarrow> hash_cache \<Rightarrow> hash_value list \<times> hash_cache" where
  "hash_all [] c = ([], c)"
| "hash_all (s # ss) c =
     (let (h, c') = hash_of s c; (hs, c'') = hash_all ss c' in (h # hs, c''))"

section \<open>Range\<close>

lemma smi_bits: "bit ((drop_bit 1 w AND 1073741824) OR (3221225471 AND w)) 30 = bit (w :: 32 word) 31"
    "bit ((drop_bit 1 w AND 1073741824) OR (3221225471 AND w)) 31 = bit (w :: 32 word) 31"
  by (simp_all add: bit_simps)

lemma sint_31:
  fixes w :: "32 word"
  assumes "bit w 30 = bit w 31"
  shows "- (2 ^ 30) \<le> sint w" and "sint w < 2 ^ 30"
proof -
  have "sint w = signed_take_bit 30 (sint w)"
  proof (rule bit_eqI)
    fix n
    show "bit (sint w) n = bit (signed_take_bit 30 (sint w)) n"
      using assms by (cases "n \<le> 30") (auto simp: bit_simps bit_sint_iff min_def dest: le_antisym)
  qed
  then show "- (2 ^ 30) \<le> sint w" and "sint w < 2 ^ 30"
    using signed_take_bit_int_greater_eq_minus_exp [of 30 "sint w"]
      signed_take_bit_int_less_exp [of 30 "sint w"] by simp_all
qed

lemma smi_range: "- (2 ^ 30) \<le> smi e" "smi e < 2 ^ 30"
  unfolding smi_def Let_def by (rule sint_31, simp only: smi_bits)+

text \<open>The intermediate products stay far below \<open>2 ^ 53\<close>, so the arithmetic of the program is
  exact.\<close>

lemma hash_step_exact:
  assumes "is_int32 t"
  shows "\<bar>31 * t + uint (c :: jchar)\<bar> < 2 ^ 53"
proof -
  have "0 \<le> uint c" and "uint c < 65536"
    using uint_lt2p [of c] by simp_all
  moreover have "- 2147483648 \<le> t" and "t < 2147483648"
    using assms by (simp_all add: is_int32_def)
  moreover have "(2 :: int) ^ 53 = 9007199254740992"
    by simp
  ultimately show ?thesis
    by linarith
qed

fun hash_states :: "int \<Rightarrow> jstr \<Rightarrow> int list" where
  "hash_states t [] = []"
| "hash_states t (c # cs) = (31 * t + uint c) # hash_states (int32 (31 * t + uint c)) cs"

lemma hash_states_exact: "is_int32 t \<Longrightarrow> \<forall>x \<in> set (hash_states t s). \<bar>x\<bar> < 2 ^ 53"
  by (induction t s rule: hash_states.induct)
    (simp_all add: hash_step_exact [simplified] int32_range)

text \<open>C27: The hash of a string is an integer of 31 bits, and no intermediate value of the loop leaves the
range in which the arithmetic on doubles is exact.\<close>

theorem hash_bounds:
  "- (2 ^ 30) \<le> hash_string s \<and> hash_string s < 2 ^ 30 \<and> list_all (\<lambda>x. \<bar>x\<bar> < 2 ^ 53) (hash_states 0 s)"
  using smi_range hash_states_exact [of 0 s] by (simp add: hash_string_def is_int32_def list_all_iff)

section \<open>The cache\<close>

definition cache_ok :: "hash_cache \<Rightarrow> bool" where
  "cache_ok c \<longleftrightarrow>
     hc_size c \<le> 255 \<and> length (hc_map c) = hc_size c \<and>
     (\<forall>s t. assoc_get (hc_map c) s = Some t \<longrightarrow> t = hash_string s \<and> s \<notin> set object_members)"

lemma cached_hash_ok:
  assumes "cache_ok c"
  shows "fst (cached_hash s c) = (if s \<in> set object_members then HMember s else HNum (hash_string s))"
    and "cache_ok (snd (cached_hash s c))"
proof -
  have len: "length (assoc_put k v m) = length m + (if assoc_get m k = None then 1 else 0)"
    for k v and m :: "(jstr \<times> int) list"
    by (induction m) (auto split: if_splits)
  show "fst (cached_hash s c) = (if s \<in> set object_members then HMember s else HNum (hash_string s))"
    using assms by (auto simp: cached_hash_def object_read_def cache_ok_def Let_def split: option.splits)
  show "cache_ok (snd (cached_hash s c))"
    using assms by (auto simp: cached_hash_def object_read_def cache_ok_def Let_def len split: option.splits if_splits)
qed

lemma long_members: "s \<in> set object_members \<Longrightarrow> length s > 16 \<Longrightarrow> s = js ''propertyIsEnumerable''"
  by (auto simp: object_members_def simp del: js_simps)

definition inherited_key :: jstr where
  "inherited_key = js ''propertyIsEnumerable''"

lemma inherited_key: "s \<in> set object_members \<and> length s > 16 \<longleftrightarrow> s = inherited_key"
proof
  show "s \<in> set object_members \<and> length s > 16 \<Longrightarrow> s = inherited_key"
    unfolding inherited_key_def using long_members by blast
  have "inherited_key \<in> set object_members"
    by (simp add: object_members_def inherited_key_def del: js_simps)
  moreover have "length inherited_key = 20"
    by (simp add: inherited_key_def del: js_simps)
  ultimately show "s = inherited_key \<Longrightarrow> s \<in> set object_members \<and> length s > 16"
    by simp
qed

lemma hash_of_ok:
  assumes "cache_ok c"
  shows "fst (hash_of s c) = (if s = inherited_key then HMember s else HNum (hash_string s))"
    and "cache_ok (snd (hash_of s c))"
  using cached_hash_ok [OF assms, of s] assms
  by (simp_all add: hash_of_def flip: inherited_key)

lemma hash_all_ok:
  "cache_ok c \<Longrightarrow>
   fst (hash_all ss c) = map (\<lambda>s. if s = inherited_key then HMember s else HNum (hash_string s)) ss
   \<and> cache_ok (snd (hash_all ss c))"
proof (induction ss arbitrary: c)
  case (Cons s ss)
  then show ?case
    using hash_of_ok [OF Cons.prems, of s]
    by (simp add: case_prod_unfold Let_def)
qed simp

text \<open>C28: However many strings were hashed before, the cached hash of a string is its hash, and the cache never
holds more than 255 strings; the one exception is the string propertyIsEnumerable, for which the lookup
in the cache, a plain object, finds the inherited member instead of a number.\<close>

theorem hash_cache_transparent:
  "fst (hash_all ss empty_cache) =
     map (\<lambda>s. if s = inherited_key then HMember s else HNum (hash_string s)) ss \<and>
   length (hc_map (snd (hash_all ss empty_cache))) \<le> 255"
proof -
  have "cache_ok empty_cache"
    by (simp add: cache_ok_def empty_cache_def)
  from hash_all_ok [OF this, of ss] show ?thesis
    by (auto simp: cache_ok_def)
qed

end
