(* ===== verification/Uri_Component.thy ===== *)
theory Uri_Component
  imports JS_Prelude
begin

text \<open>
  The functions \<^verbatim>\<open>encodeURIComponent\<close> and \<^verbatim>\<open>decodeURIComponent\<close>
  of the language: a string is read as UTF-16, each code point that is not unreserved becomes the
  percent-escaped octets of its UTF-8 form.  \<open>None\<close> is the \<^verbatim>\<open>URIError\<close> (a lone
  surrogate, a malformed escape, octets that are not valid UTF-8).  Main fact:
  \<open>decode_encode\<close>.
\<close>

section \<open>Octets and escapes\<close>

definition hex_digit :: "nat \<Rightarrow> jchar" where
  "hex_digit n = of_nat (if n < 10 then 48 + n else 55 + n)"

definition hex_value :: "jchar \<Rightarrow> nat option" where
  "hex_value c =
     (if 48 \<le> c \<and> c \<le> 57 then Some (unat c - 48)
      else if 65 \<le> c \<and> c \<le> 70 then Some (unat c - 55)
      else if 97 \<le> c \<and> c \<le> 102 then Some (unat c - 87)
      else None)"

definition escape :: "nat \<Rightarrow> jstr" where
  "escape b = [37, hex_digit (b div 16), hex_digit (b mod 16)]"

fun octet :: "jstr \<Rightarrow> (nat \<times> jstr) option" where
  "octet (p # h # l # s) =
     (if p = 37 then
        (case (hex_value h, hex_value l) of
           (Some a, Some b) \<Rightarrow> Some (16 * a + b, s)
         | _ \<Rightarrow> None)
      else None)"
| "octet _ = None"

lemma hex_digit_inverse: "n < 16 \<Longrightarrow> hex_value (hex_digit n) = Some n"
proof -
  have "\<forall>k \<in> {..<16}. hex_value (hex_digit k) = Some k"
    by (simp add: lessThan_nat_numeral lessThan_Suc hex_value_def hex_digit_def)
  then show "n < 16 \<Longrightarrow> hex_value (hex_digit n) = Some n"
    by simp
qed

lemma octet_escape [js_string]: "b < 256 \<Longrightarrow> octet (escape b @ s) = Some (b, s)"
  by (simp add: escape_def hex_digit_inverse)

lemma octet_shorter: "octet s = Some (b, r) \<Longrightarrow> length r < length s"
  by (cases s rule: octet.cases) (auto split: if_splits option.splits)

section \<open>UTF-16 and UTF-8\<close>

definition lead_surrogate :: "jchar \<Rightarrow> bool" where
  "lead_surrogate c \<longleftrightarrow> 0xD800 \<le> c \<and> c \<le> 0xDBFF"

definition trail_surrogate :: "jchar \<Rightarrow> bool" where
  "trail_surrogate c \<longleftrightarrow> 0xDC00 \<le> c \<and> c \<le> 0xDFFF"

definition code_point :: "jchar \<Rightarrow> jchar \<Rightarrow> nat" where
  "code_point c d = 0x10000 + (unat c - 0xD800) * 1024 + (unat d - 0xDC00)"

definition scalar_value :: "nat \<Rightarrow> bool" where
  "scalar_value v \<longleftrightarrow> v < 0xD800 \<or> (0xDFFF < v \<and> v \<le> 0x10FFFF)"

definition utf16 :: "nat \<Rightarrow> jstr" where
  "utf16 v =
     (if v < 0x10000 then [of_nat v]
      else [of_nat (0xD800 + (v - 0x10000) div 1024), of_nat (0xDC00 + (v - 0x10000) mod 1024)])"

definition utf8 :: "nat \<Rightarrow> nat list" where
  "utf8 v =
     (if v < 0x80 then [v]
      else if v < 0x800 then [192 + v div 64, 128 + v mod 64]
      else if v < 0x10000 then [224 + v div 4096, 128 + v div 64 mod 64, 128 + v mod 64]
      else [240 + v div 262144, 128 + v div 4096 mod 64, 128 + v div 64 mod 64, 128 + v mod 64])"

text \<open>The leading octet of a longer form: how many octets follow, its payload, the least value
  that needs the form.\<close>

definition utf8_lead :: "nat \<Rightarrow> (nat \<times> nat \<times> nat) option" where
  "utf8_lead b =
     (if 192 \<le> b \<and> b < 224 then Some (1, b - 192, 0x80)
      else if 224 \<le> b \<and> b < 240 then Some (2, b - 224, 0x800)
      else if 240 \<le> b \<and> b < 248 then Some (3, b - 240, 0x10000)
      else None)"

fun continuation :: "nat \<Rightarrow> nat \<Rightarrow> jstr \<Rightarrow> (nat \<times> jstr) option" where
  "continuation 0 v s = Some (v, s)"
| "continuation (Suc n) v s =
     (case octet s of
        Some (b, r) \<Rightarrow> if 128 \<le> b \<and> b < 192 then continuation n (64 * v + (b - 128)) r else None
      | None \<Rightarrow> None)"

lemma continuation_shorter: "continuation n v s = Some (w, r) \<Longrightarrow> length r \<le> length s"
proof (induction n v s rule: continuation.induct)
  case (2 n v s)
  then show ?case
    by (fastforce split: option.splits prod.splits if_splits dest: octet_shorter)
qed simp

lemma continuation_steps:
  assumes "x < 64" and "y < 64" and "z < 64"
  shows "continuation 1 v (escape (128 + x) @ s) = Some (64 * v + x, s)"
    and "continuation 2 v (escape (128 + x) @ escape (128 + y) @ s) = Some (64 * (64 * v + x) + y, s)"
    and "continuation 3 v (escape (128 + x) @ escape (128 + y) @ escape (128 + z) @ s) =
      Some (64 * (64 * (64 * v + x) + y) + z, s)"
proof -
  have step: "continuation (Suc n) u (escape (128 + k) @ r) = continuation n (64 * u + k) r" if "k < 64" for n u k r
    using that by (simp add: octet_escape)
  have n: "1 = Suc 0" "2 = Suc (Suc 0)" "3 = Suc (Suc (Suc 0))" by simp_all
  show "continuation 1 v (escape (128 + x) @ s) = Some (64 * v + x, s)"
    unfolding n step [OF assms(1)] continuation.simps(1) ..
  show "continuation 2 v (escape (128 + x) @ escape (128 + y) @ s) = Some (64 * (64 * v + x) + y, s)"
    unfolding n step [OF assms(1)] step [OF assms(2)] continuation.simps(1) ..
  show "continuation 3 v (escape (128 + x) @ escape (128 + y) @ escape (128 + z) @ s) =
      Some (64 * (64 * (64 * v + x) + y) + z, s)"
    unfolding n step [OF assms(1)] step [OF assms(2)] step [OF assms(3)] continuation.simps(1) ..
qed

lemma utf16_code_point:
  assumes "lead_surrogate c" and "trail_surrogate d"
  shows "utf16 (code_point c d) = [c, d]"
proof -
  have c: "unat c = 0xD800 + (unat c - 0xD800)" "unat c - 0xD800 < 1024"
    using assms(1) by (auto simp: lead_surrogate_def word_le_nat_alt)
  have d: "unat d = 0xDC00 + (unat d - 0xDC00)" "unat d - 0xDC00 < 1024"
    using assms(2) by (auto simp: trail_surrogate_def word_le_nat_alt)
  define i j where "i = unat c - 0xD800" and "j = unat d - 0xDC00"
  have "(i * 1024 + j) div 1024 = i" and "(i * 1024 + j) mod 1024 = j"
    using d(2) by (simp_all add: i_def [symmetric] j_def [symmetric])
  then have "utf16 (code_point c d) = [of_nat (0xD800 + i), of_nat (0xDC00 + j)]"
    unfolding code_point_def utf16_def i_def [symmetric] j_def [symmetric] by simp
  also have "0xD800 + i = unat c"
    using c unfolding i_def by simp
  also have "0xDC00 + j = unat d"
    using d unfolding j_def by simp
  finally show ?thesis by simp
qed

lemma code_point_scalar:
  assumes "lead_surrogate c" and "trail_surrogate d"
  shows "scalar_value (code_point c d)"
  using assms
  by (auto simp: lead_surrogate_def trail_surrogate_def word_le_nat_alt code_point_def scalar_value_def)

section \<open>Encoding and decoding\<close>

definition unreserved :: "jchar \<Rightarrow> bool" where
  "unreserved c \<longleftrightarrow> (js_word c \<and> c \<noteq> 95) \<or> c \<in> set (js ''-_.!~*'' @ [39] @ js ''()'')"

definition escape_point :: "nat \<Rightarrow> jstr" where
  "escape_point v = concat (map escape (utf8 v))"

fun encode_component :: "jstr \<Rightarrow> jstr option" where
  "encode_component [] = Some []"
| "encode_component (c # s) =
     (if unreserved c then map_option ((#) c) (encode_component s)
      else if trail_surrogate c then None
      else if lead_surrogate c then
        (case s of
           d # s' \<Rightarrow> if trail_surrogate d then map_option ((@) (escape_point (code_point c d))) (encode_component s')
                     else None
         | [] \<Rightarrow> None)
      else map_option ((@) (escape_point (unat c))) (encode_component s))"

definition decode_point :: "nat \<Rightarrow> jstr \<Rightarrow> (jstr \<times> jstr) option" where
  "decode_point b s =
     (if b < 0x80 then Some ([of_nat b], s)
      else case utf8_lead b of
        None \<Rightarrow> None
      | Some (n, v, least) \<Rightarrow>
          (case continuation n v s of
             None \<Rightarrow> None
           | Some (w, r) \<Rightarrow> if least \<le> w \<and> scalar_value w then Some (utf16 w, r) else None))"

lemma decode_point_shorter: "decode_point b s = Some (u, r) \<Longrightarrow> length r \<le> length s"
  by (auto simp: decode_point_def split: if_splits option.splits prod.splits dest: continuation_shorter)

function decode_component :: "jstr \<Rightarrow> jstr option" where
  "decode_component s =
     (case s of
        [] \<Rightarrow> Some []
      | c # s' \<Rightarrow>
          if c \<noteq> 37 then map_option ((#) c) (decode_component s')
          else (case octet s of
                  None \<Rightarrow> None
                | Some (b, r) \<Rightarrow>
                    (case decode_point b r of
                       None \<Rightarrow> None
                     | Some (u, r') \<Rightarrow> map_option ((@) u) (decode_component r'))))"
  by pat_completeness auto
termination
  by (relation "measure length") (fastforce dest: octet_shorter decode_point_shorter)+

declare decode_component.simps [simp del]

lemma decode_Nil [js_string, simp]: "decode_component [] = Some []"
  by (simp add: decode_component.simps)

lemma decode_plain [js_string]:
  "c \<noteq> 37 \<Longrightarrow> decode_component (c # s) = map_option ((#) c) (decode_component s)"
  by (subst decode_component.simps) simp

lemma decode_escape:
  assumes "b < 256"
  shows "decode_component (escape b @ s) =
    (case decode_point b s of None \<Rightarrow> None | Some (u, r) \<Rightarrow> map_option ((@) u) (decode_component r))"
proof -
  have "escape b @ s = 37 # tl (escape b @ s)"
    by (simp add: escape_def)
  then show ?thesis
    using octet_escape [OF assms, of s] by (subst decode_component.simps) (auto split: list.splits option.splits)
qed

lemma utf8_digits:
  fixes v :: nat
  shows "64 * (v div 64) + v mod 64 = v"
    and "64 * (64 * (v div 4096) + v div 64 mod 64) + v mod 64 = v"
    and "64 * (64 * (64 * (v div 262144) + v div 4096 mod 64) + v div 64 mod 64) + v mod 64 = v"
proof -
  have d: "v div 4096 = v div 64 div 64" "v div 262144 = v div 64 div 64 div 64"
    by (simp_all add: div_mult2_eq [symmetric])
  show "64 * (v div 64) + v mod 64 = v" by simp
  show "64 * (64 * (v div 4096) + v div 64 mod 64) + v mod 64 = v"
    unfolding d mult_div_mod_eq ..
  show "64 * (64 * (64 * (v div 262144) + v div 4096 mod 64) + v div 64 mod 64) + v mod 64 = v"
    unfolding d mult_div_mod_eq ..
qed

lemma decode_utf8:
  assumes "scalar_value v" and "utf8 v = b # bs"
  shows "b < 256" and "decode_point b (concat (map escape bs) @ s) = Some (utf16 v, s)"
proof -
  have m: "v mod 64 < 64" "v div 64 mod 64 < 64" "v div 4096 mod 64 < 64" by simp_all
  consider "v < 0x80" | "0x80 \<le> v" "v < 0x800" | "0x800 \<le> v" "v < 0x10000"
    | "0x10000 \<le> v" "v \<le> 0x10FFFF"
    using assms(1) unfolding scalar_value_def by linarith
  then have "b < 256 \<and> decode_point b (concat (map escape bs) @ s) = Some (utf16 v, s)"
  proof cases
    case 1
    then show ?thesis
      using assms(2) by (auto simp: utf8_def decode_point_def utf16_def)
  next
    case 2
    then have d: "v div 64 < 32" by (simp add: div_less_iff_less_mult)
    have bs: "b = 192 + v div 64" "bs = [128 + v mod 64]"
      using assms(2) 2 by (auto simp: utf8_def)
    have "continuation 1 (b - 192) (concat (map escape bs) @ s) = Some (v, s)"
      using continuation_steps(1) [OF m(1) m(1) m(1)] utf8_digits(1) [of v] by (simp only: bs) simp
    with 2 d assms(1) show ?thesis
      unfolding decode_point_def utf8_lead_def by (simp add: bs(1))
  next
    case 3
    then have d: "v div 4096 < 16" by (simp add: div_less_iff_less_mult)
    have bs: "b = 224 + v div 4096" "bs = [128 + v div 64 mod 64, 128 + v mod 64]"
      using assms(2) 3 by (auto simp: utf8_def)
    have "continuation 2 (b - 224) (concat (map escape bs) @ s) = Some (v, s)"
      using continuation_steps(2) [OF m(2) m(1) m(1), of "b - 224" s] utf8_digits(2) [of v]
      by (simp only: bs) simp
    with 3 d assms(1) show ?thesis
      unfolding decode_point_def utf8_lead_def by (simp add: bs(1))
  next
    case 4
    then have d: "v div 262144 < 8" by (simp add: div_less_iff_less_mult)
    have bs: "b = 240 + v div 262144"
      "bs = [128 + v div 4096 mod 64, 128 + v div 64 mod 64, 128 + v mod 64]"
      using assms(2) 4 by (auto simp: utf8_def)
    have "continuation 3 (b - 240) (concat (map escape bs) @ s) = Some (v, s)"
      using continuation_steps(3) [OF m(3) m(2) m(1), of "b - 240" s] utf8_digits(3) [of v]
      by (simp only: bs) simp
    with 4 d assms(1) show ?thesis
      unfolding decode_point_def utf8_lead_def by (simp add: bs(1))
  qed
  then show "b < 256" and "decode_point b (concat (map escape bs) @ s) = Some (utf16 v, s)"
    by simp_all
qed

lemma decode_escape_point:
  assumes "scalar_value v"
  shows "decode_component (escape_point v @ s) = map_option ((@) (utf16 v)) (decode_component s)"
proof -
  have "utf8 v \<noteq> []"
    by (simp add: utf8_def)
  then obtain b bs where u: "utf8 v = b # bs"
    by (cases "utf8 v") auto
  show ?thesis
    using decode_utf8 [OF assms u] by (simp add: escape_point_def u decode_escape)
qed

lemma unreserved_plain: "unreserved c \<Longrightarrow> c \<noteq> 37"
  by (auto simp: unreserved_def js_word_def js_digit_def)

lemma unat_scalar:
  assumes "\<not> lead_surrogate c" and "\<not> trail_surrogate c"
  shows "scalar_value (unat c)" and "utf16 (unat c) = [c]"
proof -
  have "unat c < 0x10000"
    using unsigned_less [of c] by simp
  with assms show "scalar_value (unat c)" and "utf16 (unat c) = [c]"
    by (auto simp: lead_surrogate_def trail_surrogate_def word_le_nat_alt scalar_value_def utf16_def)
qed

theorem decode_encode_append:
  "encode_component s = Some e \<Longrightarrow>
   decode_component (e @ t) = map_option ((@) s) (decode_component t)"
proof (induction s arbitrary: e rule: encode_component.induct)
  case 1
  then show ?case by (simp add: option.map_ident)
next
  case (2 c s)
  show ?case
  proof (cases "unreserved c")
    case True
    with 2 show ?thesis
      by (auto simp: decode_plain unreserved_plain option.map_comp comp_def)
  next
    case u: False
    with 2(4) have t: "\<not> trail_surrogate c"
      by (auto split: if_splits)
    show ?thesis
    proof (cases "lead_surrogate c")
      case True
      with u t 2(4) obtain d s' e' where
        "s = d # s'" "trail_surrogate d" "encode_component s' = Some e'"
        "e = escape_point (code_point c d) @ e'"
        by (auto split: list.splits if_splits)
      with 2(2) [OF u t True] True show ?thesis
        by (simp add: decode_escape_point code_point_scalar utf16_code_point option.map_comp comp_def)
    next
      case False
      with u t 2(4) obtain e' where "encode_component s = Some e'" "e = escape_point (unat c) @ e'"
        by auto
      with 2(3) [OF u t False] show ?thesis
        by (simp add: decode_escape_point unat_scalar False t option.map_comp comp_def)
    qed
  qed
qed

corollary decode_encode: "encode_component s = Some e \<Longrightarrow> decode_component e = Some s"
  using decode_encode_append [of s e "[]"] by simp

lemma escape_unreserved:
  assumes "b < 256" and "c \<in> set (escape b)"
  shows "c = 37 \<or> unreserved c"
proof -
  have "\<forall>k \<in> {..<16}. unreserved (hex_digit k)"
    by (simp add: lessThan_nat_numeral lessThan_Suc unreserved_def js_word_def js_digit_def hex_digit_def)
  moreover have "b div 16 < 16" "b mod 16 < 16"
    using assms(1) by (simp_all add: div_less_iff_less_mult)
  ultimately show ?thesis
    using assms(2) by (auto simp: escape_def)
qed

lemma utf8_octets:
  assumes "v \<le> 0x10FFFF"
  shows "\<forall>b \<in> set (utf8 v). b < 256"
  using assms
  by (simp add: utf8_def div_less_iff_less_mult
      order_less_le_trans [OF add_strict_left_mono [OF mod_less_divisor]])

lemma escape_point_unreserved:
  assumes "scalar_value v" and "c \<in> set (escape_point v)"
  shows "c = 37 \<or> unreserved c"
proof -
  have "v \<le> 0x10FFFF"
    using assms(1) by (auto simp: scalar_value_def)
  then show ?thesis
    using assms(2) utf8_octets escape_unreserved by (fastforce simp: escape_point_def)
qed

lemma encode_chars: "encode_component s = Some e \<Longrightarrow> c \<in> set e \<Longrightarrow> c = 37 \<or> unreserved c"
proof (induction s arbitrary: e rule: encode_component.induct)
  case 1
  then show ?case by simp
next
  case (2 x s)
  show ?case
  proof (cases "unreserved x")
    case True
    with 2 show ?thesis by auto
  next
    case u: False
    with 2(4) have t: "\<not> trail_surrogate x"
      by (auto split: if_splits)
    show ?thesis
    proof (cases "lead_surrogate x")
      case True
      with u t 2(4) obtain d s' e' where
        s: "s = d # s'" "trail_surrogate d" "encode_component s' = Some e'"
        "e = escape_point (code_point x d) @ e'"
        by (auto split: list.splits if_splits)
      with 2(2) [OF u t True] 2(5) True show ?thesis
        using code_point_scalar [OF True s(2)] escape_point_unreserved by auto
    next
      case False
      with u t 2(4) obtain e' where "encode_component s = Some e'" "e = escape_point (unat x) @ e'"
        by auto
      with 2(3) [OF u t False] 2(5) show ?thesis
        using unat_scalar(1) [OF False t] escape_point_unreserved by auto
    qed
  qed
qed

lemma unreserved_visible: "unreserved c \<Longrightarrow> \<not> js_space c \<and> c \<noteq> 47 \<and> c \<noteq> 35"
  by (auto simp: unreserved_def js_word_def js_digit_def js_space_def word_le_nat_alt)

lemma encode_visible: "encode_component s = Some e \<Longrightarrow> c \<in> set e \<Longrightarrow> \<not> js_space c \<and> c \<noteq> 47 \<and> c \<noteq> 35"
  using encode_chars [of s e c] unreserved_visible [of c] by (auto simp: js_space_def)

end
