(* ===== verification/Deep_Linking.thy ===== *)
theory Deep_Linking
  imports Console_Layout Uri_Component
begin

text \<open>
  Deep links of the console in \<^verbatim>\<open>swagger-ui-es-bundle-core.js\<close>: the wrapped
  \<^verbatim>\<open>show\<close> action that writes what is opened into the hash of the page, the action
  \<^verbatim>\<open>parseDeepLinkHash\<close> that opens what the hash names, the translation of keys, the
  scrolling state and the hook that reads the hash once the configuration is loaded.  The console is its
  layout state and the hash of its location; \<^verbatim>\<open>setHash\<close> only ever writes characters
  that a browser leaves as they are, so the hash it reads back is the one it wrote.  An element of a key
  that is missing (\<^verbatim>\<open>undefined\<close>) is \<open>None\<close>.
\<close>

record console =
  c_layout :: layout_state
  c_hash :: jstr

definition array_at :: "'a list \<Rightarrow> nat \<Rightarrow> 'a option" where
  "array_at xs i = (if i < length xs then Some (xs ! i) else None)"

definition js_text :: "jstr option \<Rightarrow> jstr" where
  "js_text v = (case v of None \<Rightarrow> js ''undefined'' | Some s \<Rightarrow> s)"

section \<open>Keys and hashes\<close>

definition is_shown_key_from_url_hash_array :: "jstr list \<Rightarrow> jstr list" where
  "is_shown_key_from_url_hash_array h =
     (case (array_at h 0, array_at h 1) of
        (Some t, Some a) \<Rightarrow>
          if a \<noteq> [] then [js ''operations'', t, a]
          else if t \<noteq> [] then [js ''operations-tag'', t] else []
      | (Some t, None) \<Rightarrow> if t \<noteq> [] then [js ''operations-tag'', t] else []
      | _ \<Rightarrow> [])"

definition url_hash_array_from_is_shown_key :: "jstr list \<Rightarrow> jstr option list" where
  "url_hash_array_from_is_shown_key k =
     (if array_at k 0 = Some (js ''operations'') then [array_at k 1, array_at k 2]
      else if array_at k 0 = Some (js ''operations-tag'') then [array_at k 1]
      else [])"

definition create_deep_link_path :: "jstr \<Rightarrow> jstr" where
  "create_deep_link_path s = concat (map (\<lambda>c. if js_space c then js ''%20'' else [c]) (js_trim s))"

definition set_hash :: "jstr \<Rightarrow> console \<Rightarrow> console" where
  "set_hash e c = c\<lparr>c_hash := (if e \<noteq> [] then js ''#'' @ e else [])\<rparr>"

text \<open>The hash of what is shown; \<open>None\<close> when the code returns or catches an error before it calls
  \<^verbatim>\<open>setHash\<close>.\<close>

definition hash_path :: "jstr list \<Rightarrow> bool option \<Rightarrow> jstr option" where
  "hash_path k shown =
     (let l = url_hash_array_from_is_shown_key k in
      if l = [] then None
      else if shown \<noteq> Some True then Some (js ''/'')
      else
        (case l of
           [t, a] \<Rightarrow>
             (case (encode_component (js_text t), encode_component (js_text a)) of
                (Some t', Some a') \<Rightarrow> Some (create_deep_link_path (js ''/'' @ t' @ js ''/'' @ a'))
              | _ \<Rightarrow> None)
         | [t] \<Rightarrow> map_option (\<lambda>t'. create_deep_link_path (js ''/'' @ t')) (encode_component (js_text t))
         | _ \<Rightarrow> None))"

section \<open>Actions\<close>

definition plain_show :: "thing \<Rightarrow> bool option \<Rightarrow> console \<Rightarrow> console" where
  "plain_show t shown c =
     (case layout_reduce (show_action t shown) (c_layout c) of
        Some l \<Rightarrow> c\<lparr>c_layout := l\<rparr>
      | None \<Rightarrow> c)"

definition wrapped_show :: "bool \<Rightarrow> thing \<Rightarrow> bool option \<Rightarrow> console \<Rightarrow> console" where
  "wrapped_show deep_linking t shown c =
     (let c' = plain_show t shown c in
      if \<not> deep_linking then c'
      else case hash_path (normalize_array t) shown of None \<Rightarrow> c' | Some e \<Rightarrow> set_hash e c')"

definition scroll_to :: "thing \<Rightarrow> console \<Rightarrow> console" where
  "scroll_to t c = c\<lparr>c_layout := (c_layout c)\<lparr>ly_scroll := Some (normalize_array t)\<rparr>\<rparr>"

definition clear_scroll_to :: "console \<Rightarrow> console" where
  "clear_scroll_to c = c\<lparr>c_layout := (c_layout c)\<lparr>ly_scroll := None\<rparr>\<rparr>"

text \<open>The second component tells whether the element was scrolled to.\<close>

definition ready_to_scroll :: "jstr list \<Rightarrow> console \<Rightarrow> console \<times> bool" where
  "ready_to_scroll k c =
     (if ly_scroll (c_layout c) = Some k then (clear_scroll_to c, True) else (c, False))"

definition strip_first :: "jchar \<Rightarrow> jstr \<Rightarrow> jstr" where
  "strip_first x s = (case s of c # cs \<Rightarrow> if c = x then cs else s | [] \<Rightarrow> [])"

definition underscores_to_spaces :: "jstr list \<Rightarrow> jstr list" where
  "underscores_to_spaces = map (replace_char 95 32)"

definition parse_deep_link_hash :: "bool \<Rightarrow> jstr \<Rightarrow> console \<Rightarrow> console" where
  "parse_deep_link_hash deep_linking e c =
     (if deep_linking \<and> e \<noteq> [] then
        let hash = strip_first 47 (strip_first 33 (drop 1 e));
            key = is_shown_key_from_url_hash_array (pieces 47 hash);
            tag = (case array_at key 1 of None \<Rightarrow> [] | Some s \<Rightarrow> s);
            op = (case array_at key 2 of None \<Rightarrow> [] | Some s \<Rightarrow> s);
            open_key = (\<lambda>k. wrapped_show deep_linking (Many k) (Some True));
            c1 = (if array_at key 0 = Some (js ''operations'') then
                    let tag_key = is_shown_key_from_url_hash_array [tag];
                        c0 = (if 95 \<in> set tag then open_key (underscores_to_spaces tag_key) c else c)
                    in open_key tag_key c0
                  else c);
            c2 = (if 95 \<in> set tag \<or> 95 \<in> set op then open_key (underscores_to_spaces key) c1 else c1)
        in scroll_to (Many key) (open_key key c2)
      else c)"

text \<open>The wrapper of the action \<^verbatim>\<open>loaded\<close> of the configuration plugin; the original
  action runs first and its effect on the console is a parameter.  \<open>None\<close> is the
  \<^verbatim>\<open>URIError\<close> of a malformed hash.\<close>

definition configs_loaded :: "(console \<Rightarrow> console) \<Rightarrow> bool \<Rightarrow> console \<Rightarrow> console option" where
  "configs_loaded original deep_linking c =
     (let c' = original c in
      map_option (\<lambda>h. parse_deep_link_hash deep_linking h c') (decode_component (c_hash c')))"

section \<open>Links lead back\<close>

lemma layout_wrapped_show [simp]:
  "c_layout (wrapped_show dl (Many k) (Some b) c) = (c_layout c)\<lparr>ly_shown := assoc_put k b (ly_shown (c_layout c))\<rparr>"
  by (simp add: wrapped_show_def plain_show_def show_action_def set_hash_def Let_def split: option.splits)

lemma hash_wrapped_show:
  "c_hash (wrapped_show dl (Many k) s c) =
    (if dl then (case hash_path k s of None \<Rightarrow> c_hash c | Some e \<Rightarrow> if e = [] then [] else js ''#'' @ e) else c_hash c)"
  by (auto simp: wrapped_show_def plain_show_def set_hash_def Let_def split: option.splits)

lemma scroll_to_simps [simp]:
  "ly_shown (c_layout (scroll_to t c)) = ly_shown (c_layout c)"
  "ly_scroll (c_layout (scroll_to t c)) = Some (normalize_array t)"
  "c_hash (scroll_to t c) = c_hash c"
  by (simp_all add: scroll_to_def)

lemma create_deep_link_path_id:
  assumes "\<forall>c \<in> set s. \<not> js_space c"
  shows "create_deep_link_path s = s"
proof -
  have "concat (map (\<lambda>c. if js_space c then js ''%20'' else [c]) s) = s"
    using assms by (induction s) auto
  with js_trim_id [OF assms] show ?thesis
    by (simp add: create_deep_link_path_def)
qed

lemma slash_not_space [simp]: "\<not> js_space 47"
  by (simp add: js_space_def word_le_nat_alt)

lemma hash_path_operation:
  assumes "encode_component tag = Some t" and "encode_component op = Some a"
  shows "hash_path [js ''operations'', tag, op] (Some True) = Some (47 # t @ 47 # a)"
proof -
  have "\<forall>c \<in> set (47 # t @ 47 # a). \<not> js_space c"
    using encode_visible assms by auto
  from create_deep_link_path_id [OF this] assms show ?thesis
    by (simp add: hash_path_def url_hash_array_from_is_shown_key_def array_at_def js_text_def)
qed

lemma decode_deep_link:
  assumes "encode_component tag = Some t" and "encode_component op = Some a"
  shows "decode_component (js ''#'' @ 47 # t @ 47 # a) = Some (js ''#'' @ 47 # tag @ 47 # op)"
  using decode_encode_append [OF assms(1), of "47 # a"] decode_encode [OF assms(2)]
  by (simp add: decode_plain)

definition link_key :: "jstr \<Rightarrow> jstr list" where
  "link_key path = is_shown_key_from_url_hash_array (pieces 47 path)"

definition key_part :: "jstr list \<Rightarrow> nat \<Rightarrow> jstr" where
  "key_part key i = (case array_at key i of None \<Rightarrow> [] | Some s \<Rightarrow> s)"

text \<open>Every key that parsing a link opens.\<close>

definition opened_keys :: "jstr list \<Rightarrow> jstr list set" where
  "opened_keys key =
     (let tag = key_part key 1;
          tag_key = is_shown_key_from_url_hash_array [tag]
      in {key}
         \<union> (if array_at key 0 = Some (js ''operations'')
            then {tag_key} \<union> (if 95 \<in> set tag then {underscores_to_spaces tag_key} else {}) else {})
         \<union> (if 95 \<in> set tag \<or> 95 \<in> set (key_part key 2) then {underscores_to_spaces key} else {}))"

lemma parse_deep_link:
  assumes "h = js ''#'' @ 47 # s"
  shows "assoc_get (ly_shown (c_layout (parse_deep_link_hash True h c))) k =
      (if k \<in> opened_keys (link_key s) then Some True else assoc_get (ly_shown (c_layout c)) k)" (is ?shown)
    and "ly_scroll (c_layout (parse_deep_link_hash True h c)) = Some (link_key s)" (is ?scroll)
    and "c_hash (parse_deep_link_hash True h c) =
      (case hash_path (link_key s) (Some True) of
         Some e \<Rightarrow> if e = [] then [] else js ''#'' @ e
       | None \<Rightarrow> c_hash (parse_deep_link_hash True h c))" (is ?hash)
proof -
  define key where "key = link_key s"
  have k: "is_shown_key_from_url_hash_array (pieces 47 (strip_first 47 (strip_first 33 (drop 1 h)))) = key"
    by (simp add: assms strip_first_def key_def link_key_def)
  have h: "h \<noteq> []" by (simp add: assms)
  show ?scroll
    unfolding parse_deep_link_hash_def k Let_def key_def [symmetric] using h by simp
  obtain c2 where "parse_deep_link_hash True h c = scroll_to (Many key) (wrapped_show True (Many key) (Some True) c2)"
    unfolding parse_deep_link_hash_def k Let_def using h by (simp only: simp_thms if_True)
  then show ?hash
    unfolding key_def [symmetric] by (auto simp: hash_wrapped_show split: option.split)
  show ?shown
    unfolding parse_deep_link_hash_def k Let_def key_def [symmetric] opened_keys_def key_part_def [symmetric]
    using h by auto
qed

text \<open>C7: Opening an operation writes a hash from which another page, once its configuration is loaded,
opens the same operation and its tag, wants to scroll to it and keeps the hash, for every tag and
operation without a slash that can be encoded, whatever else they contain (blanks, underscores,
characters outside the basic plane).\<close>

theorem deep_link_roundtrip:
  fixes c d :: console
  defines "key tag op \<equiv> [js ''operations'', tag, op]"
  assumes "47 \<notin> set tag" and "47 \<notin> set op" and "op \<noteq> []"
    and "encode_component tag \<noteq> None" and "encode_component op \<noteq> None"
    and "c_hash (orig d) = c_hash (wrapped_show True (Many (key tag op)) (Some True) c)"
  shows "\<exists>d'. configs_loaded orig True d = Some d' \<and>
    is_shown (c_layout d') (Many (key tag op)) False \<and>
    (tag \<noteq> [] \<longrightarrow> is_shown (c_layout d') (Many [js ''operations-tag'', tag]) False) \<and>
    ly_scroll (c_layout d') = Some (key tag op) \<and>
    c_hash d' = c_hash (orig d)"
proof -
  obtain t a where enc: "encode_component tag = Some t" "encode_component op = Some a"
    using assms(5,6) by auto
  have hash: "c_hash (orig d) = js ''#'' @ 47 # t @ 47 # a"
    using assms(7) hash_path_operation [OF enc] by (simp add: key_def hash_wrapped_show)
  define h where "h = js ''#'' @ 47 # (tag @ 47 # op)"
  have link: "link_key (tag @ 47 # op) = key tag op"
    using assms(2,3,4)
    by (simp add: link_key_def pieces_append pieces_no_sep is_shown_key_from_url_hash_array_def array_at_def key_def)
  let ?d = "parse_deep_link_hash True h (orig d)"
  have "configs_loaded orig True d = Some ?d"
    using decode_deep_link [OF enc] by (simp add: configs_loaded_def hash h_def)
  moreover have "is_shown (c_layout ?d) (Many (key tag op)) False"
    by (simp add: is_shown_def parse_deep_link(1) [OF h_def] link opened_keys_def Let_def)
  moreover have "tag \<noteq> [] \<longrightarrow> is_shown (c_layout ?d) (Many [js ''operations-tag'', tag]) False"
    unfolding is_shown_def parse_deep_link(1) [OF h_def] link opened_keys_def Let_def
    by (simp add: key_def array_at_def key_part_def is_shown_key_from_url_hash_array_def)
  moreover have "ly_scroll (c_layout ?d) = Some (key tag op)"
    using parse_deep_link(2) [OF h_def] link by simp
  moreover have "c_hash ?d = c_hash (orig d)"
    using parse_deep_link(3) [OF h_def, of "orig d"] hash_path_operation [OF enc]
    unfolding link by (simp add: hash key_def)
  ultimately show ?thesis by blast
qed

definition start_console :: "jstr \<Rightarrow> console" where
  "start_console h =
     \<lparr>c_layout = \<lparr>ly_layout = JUndef, ly_filter = FUnset, ly_shown = [], ly_modes = None, ly_scroll = None\<rparr>, c_hash = h\<rparr>"

theorem deep_link_roundtrip_witness:
  "\<exists>d'. configs_loaded (\<lambda>c. c) True (start_console (js ''#/my%20pets/add_pet'')) = Some d' \<and>
    is_shown (c_layout d') (Many [js ''operations'', js ''my pets'', js ''add_pet'']) False \<and>
    ly_scroll (c_layout d') = Some [js ''operations'', js ''my pets'', js ''add_pet'']"
proof -
  let ?key = "[js ''operations'', js ''my pets'', js ''add_pet'']"
  have "47 \<notin> set (js ''my pets'')" "47 \<notin> set (js ''add_pet'')" "js ''add_pet'' \<noteq> []"
    by simp_all
  moreover have "encode_component (js ''my pets'') \<noteq> None" "encode_component (js ''add_pet'') \<noteq> None"
    by code_simp+
  moreover have "c_hash (start_console (js ''#/my%20pets/add_pet'')) =
      c_hash (wrapped_show True (Many ?key) (Some True) (start_console []))"
    by code_simp
  ultimately show ?thesis
    using deep_link_roundtrip [of "js ''my pets''" "js ''add_pet''" "\<lambda>c. c"
        "start_console (js ''#/my%20pets/add_pet'')" "start_console []"] by blast
qed


lemma array_at_set: "array_at xs i = Some x \<Longrightarrow> x \<in> set xs"
  by (auto simp: array_at_def split: if_splits)

lemma key_part_link: "47 \<notin> set (key_part (link_key s) 1)"
proof -
  have "47 \<notin> set p" if "array_at (pieces 47 s) i = Some p" for p i
    using array_at_set [OF that] by (rule pieces_elements)
  then show ?thesis
    by (auto simp: key_part_def link_key_def is_shown_key_from_url_hash_array_def array_at_def [of "_ # _"]
        array_at_def [of "[]"] split: option.splits if_splits)
qed

lemma key_part_spaces:
  "47 \<notin> set (key_part k i) \<Longrightarrow> 47 \<notin> set (key_part (underscores_to_spaces k) i)"
  by (auto simp: key_part_def underscores_to_spaces_def array_at_def replace_char_def split: if_splits)

lemma key_part_tag: "47 \<notin> set tag \<Longrightarrow> 47 \<notin> set (key_part (is_shown_key_from_url_hash_array [tag]) 1)"
  by (simp add: key_part_def is_shown_key_from_url_hash_array_def array_at_def)

lemma opened_keys_no_slash:
  assumes "k \<in> opened_keys (link_key s)"
  shows "47 \<notin> set (key_part k 1)"
  using assms key_part_link [of s] key_part_spaces key_part_tag
  by (auto simp: opened_keys_def Let_def split: if_splits)

text \<open>The hash written for an operation whose tag contains a slash does not lead back to it: the page
that reads the hash decodes it before it splits it at slashes, so it neither opens that operation nor
wants to scroll to it.\<close>

theorem deep_link_slash_lost:
  fixes c d :: console
  defines "key tag op \<equiv> [js ''operations'', tag, op]"
  assumes "tag = x @ 47 # y"
    and "encode_component tag \<noteq> None" and "encode_component op \<noteq> None"
    and "c_hash (orig d) = c_hash (wrapped_show True (Many (key tag op)) (Some True) c)"
    and "ly_shown (c_layout (orig d)) = []"
  shows "\<exists>d'. configs_loaded orig True d = Some d' \<and>
    \<not> is_shown (c_layout d') (Many (key tag op)) False \<and>
    ly_scroll (c_layout d') \<noteq> Some (key tag op)"
proof -
  obtain t a where enc: "encode_component tag = Some t" "encode_component op = Some a"
    using assms(3,4) by auto
  have hash: "c_hash (orig d) = js ''#'' @ 47 # t @ 47 # a"
    using assms(5) hash_path_operation [OF enc] by (simp add: key_def hash_wrapped_show)
  define h where "h = js ''#'' @ 47 # (tag @ 47 # op)"
  let ?d = "parse_deep_link_hash True h (orig d)"
  have conf: "configs_loaded orig True d = Some ?d"
    using decode_deep_link [OF enc] by (simp add: configs_loaded_def hash h_def)
  have tag: "47 \<in> set tag" using assms(2) by simp
  have "47 \<in> set (key_part (key tag op) 1)"
    using tag by (simp add: key_def key_part_def array_at_def)
  then have "key tag op \<notin> opened_keys (link_key (tag @ 47 # op))"
    using opened_keys_no_slash by blast
  moreover then have "link_key (tag @ 47 # op) \<noteq> key tag op"
    by (auto simp: opened_keys_def Let_def)
  ultimately show ?thesis
    using conf parse_deep_link(1,2) [OF h_def] by (simp add: is_shown_def assms(6))
qed

theorem deep_link_slash_lost_witness:
  "\<exists>d'. configs_loaded (\<lambda>c. c) True (start_console (js ''#/a%2Fb/get'')) = Some d' \<and>
    \<not> is_shown (c_layout d') (Many [js ''operations'', js ''a/b'', js ''get'']) False"
proof -
  have "js ''a/b'' = js ''a'' @ 47 # js ''b''"
    by simp
  moreover have "encode_component (js ''a/b'') \<noteq> None" "encode_component (js ''get'') \<noteq> None"
    by code_simp+
  moreover have "c_hash (start_console (js ''#/a%2Fb/get'')) =
      c_hash (wrapped_show True (Many [js ''operations'', js ''a/b'', js ''get'']) (Some True) (start_console []))"
    by code_simp
  moreover have "ly_shown (c_layout (start_console (js ''#/a%2Fb/get''))) = []"
    by (simp add: start_console_def)
  ultimately show ?thesis
    using deep_link_slash_lost [of "js ''a/b''" "js ''a''" "js ''b''" "js ''get''" "\<lambda>c. c"
        "start_console (js ''#/a%2Fb/get'')" "start_console []"] by blast
qed

end
