(* ===== verification/Sanitize_Url.thy ===== *)
theory Sanitize_Url
  imports JS_Prelude
begin

text \<open>
  The URL sanitizer in \<^verbatim>\<open>swagger-ui-standalone-preset.js\<close>
  (\<^verbatim>\<open>e.sanitizeUrl\<close>): control and zero-width characters are removed, the rest is
  trimmed, a relative address is returned as it is, an address with a scheme that runs scripts becomes
  \<^verbatim>\<open>about:blank\<close>.  Its three regular expressions are written out: the removed class, the first
  match of \<^verbatim>\<open>/^([^:]+):/gm\<close> and the test with
  \<^verbatim>\<open>/^([^\w]*)(javascript|data|vbscript)/im\<close>; with the flag \<^verbatim>\<open>m\<close>
  a match may start at the beginning of any line.  The property compares the result with the scheme a browser
  reads.
\<close>

definition control_char :: "jchar \<Rightarrow> bool" where
  "control_char c \<longleftrightarrow> c \<le> 0x1F \<or> (0x7F \<le> c \<and> c \<le> 0x9F) \<or> (0x2000 \<le> c \<and> c \<le> 0x200D) \<or> c = 0xFEFF"

definition line_end :: "jchar \<Rightarrow> bool" where
  "line_end c \<longleftrightarrow> c = 10 \<or> c = 13 \<or> c = 0x2028 \<or> c = 0x2029"

fun later_lines :: "jstr \<Rightarrow> jstr list" where
  "later_lines [] = []"
| "later_lines (c # s) = (if line_end c then s # later_lines s else later_lines s)"

definition line_starts :: "jstr \<Rightarrow> jstr list" where
  "line_starts s = s # later_lines s"

definition scheme_match :: "jstr \<Rightarrow> jstr option" where
  "scheme_match s =
     (case List.find (\<lambda>u. takeWhile (\<lambda>c. c \<noteq> 58) u \<noteq> [] \<and> 58 \<in> set u) (line_starts s) of
        None \<Rightarrow> None
      | Some u \<Rightarrow> Some (takeWhile (\<lambda>c. c \<noteq> 58) u @ [58]))"

definition lower :: "jchar \<Rightarrow> jchar" where
  "lower c = (if 65 \<le> c \<and> c \<le> 90 then c + 32 else c)"

definition script_schemes :: "jstr list" where
  "script_schemes = map js [''javascript'', ''data'', ''vbscript'']"

definition script_test :: "jstr \<Rightarrow> bool" where
  "script_test s \<longleftrightarrow>
     list_ex (\<lambda>u. list_ex (\<lambda>p. prefix p (map lower (dropWhile (\<lambda>c. \<not> js_word c) u))) script_schemes)
       (line_starts s)"

definition sanitize_url :: "jstr \<Rightarrow> jstr" where
  "sanitize_url t =
     (if t = [] then js ''about:blank''
      else
        let e = js_trim (filter (\<lambda>c. \<not> control_char c) t) in
        if e \<noteq> [] \<and> (hd e = 46 \<or> hd e = 47) then e
        else (case scheme_match e of
                None \<Rightarrow> e
              | Some n \<Rightarrow> if script_test n then js ''about:blank'' else e))"

text \<open>The wrapper in the utilities of the console: what is no string or empty becomes the empty
  string.\<close>

definition sanitize_value :: "json \<Rightarrow> jstr" where
  "sanitize_value v = (case v of JStr s \<Rightarrow> if s = [] then [] else sanitize_url s | _ \<Rightarrow> [])"

section \<open>The scheme a browser reads\<close>

text \<open>The beginning of the basic URL parser: leading controls and blanks and all tabs and line breaks
  are dropped, a scheme starts with a letter and ends at the first colon.\<close>

definition ascii_letter :: "jchar \<Rightarrow> bool" where
  "ascii_letter c \<longleftrightarrow> (65 \<le> c \<and> c \<le> 90) \<or> (97 \<le> c \<and> c \<le> 122)"

definition scheme_char :: "jchar \<Rightarrow> bool" where
  "scheme_char c \<longleftrightarrow> ascii_letter c \<or> js_digit c \<or> c = 43 \<or> c = 45 \<or> c = 46"

definition browser_scheme :: "jstr \<Rightarrow> jstr option" where
  "browser_scheme s =
     (let u = filter (\<lambda>c. c \<noteq> 9 \<and> c \<noteq> 10 \<and> c \<noteq> 13) (dropWhile (\<lambda>c. c \<le> 0x20) s);
          p = takeWhile scheme_char u
      in if u \<noteq> [] \<and> ascii_letter (hd u) \<and> prefix (p @ [58]) u then Some (map lower p) else None)"

lemma letter_word: "ascii_letter c \<Longrightarrow> js_word c"
  by (auto simp: ascii_letter_def js_word_def)

lemma js_trim_subset: "set (js_trim s) \<subseteq> set s"
  by (auto simp: js_trim_def dest!: set_dropWhileD)

lemma clean_browser:
  assumes "e = js_trim (filter (\<lambda>c. \<not> control_char c) t)" and "e \<noteq> []"
  shows "filter (\<lambda>c. c \<noteq> 9 \<and> c \<noteq> 10 \<and> c \<noteq> 13) (dropWhile (\<lambda>c. c \<le> 0x20) e) = e"
proof -
  have clean: "\<not> control_char c" if "c \<in> set e" for c
    using that js_trim_subset [of "filter (\<lambda>c. \<not> control_char c) t"] assms(1) by auto
  obtain c cs where e: "e = c # cs" using assms(2) by (cases e) auto
  have "\<not> js_space c"
    using js_trim_ends(1) assms(1) e by metis
  moreover have "\<not> control_char c" using clean e by simp
  ultimately have "\<not> c \<le> 0x20"
    by (auto simp: js_space_def control_char_def word_le_nat_alt word_unat_eq_iff)
  then have "dropWhile (\<lambda>c. c \<le> 0x20) e = e"
    by (simp add: e)
  moreover have "c \<noteq> 9 \<and> c \<noteq> 10 \<and> c \<noteq> 13" if "c \<in> set e" for c
    using clean [OF that] by (auto simp: control_char_def)
  ultimately show ?thesis
    by (simp add: filter_id_conv)
qed

lemma scheme_is_matched:
  assumes "prefix (p @ [58]) e" and "p \<noteq> []" and "58 \<notin> set p"
  shows "scheme_match e = Some (p @ [58])"
proof -
  obtain r where e: "e = p @ 58 # r"
    using assms(1) by (auto simp: prefix_def)
  then have "takeWhile (\<lambda>c. c \<noteq> 58) e = p"
    using assms(3) unfolding e by (subst takeWhile_append2) auto
  with assms(2) show ?thesis
    by (simp add: scheme_match_def line_starts_def e)
qed

lemma script_scheme_tested:
  assumes "map lower p \<in> set script_schemes" and "p \<noteq> []" and "js_word (hd p)"
  shows "script_test (p @ [58])"
proof -
  have "dropWhile (\<lambda>c. \<not> js_word c) (p @ [58]) = p @ [58]"
    using assms(2,3) by (cases p) auto
  then show ?thesis
    using assms(1) by (fastforce simp: script_test_def line_starts_def list_ex_iff)
qed

text \<open>C3: No address that passes the sanitizer has the scheme javascript, data or vbscript in the eyes of a
browser, whatever controls, blanks, line breaks or zero-width characters the address was padded
with.\<close>

theorem sanitize_url_safe:
  "browser_scheme (sanitize_url t) \<notin> Some ` set script_schemes"
proof
  assume bad: "browser_scheme (sanitize_url t) \<in> Some ` set script_schemes"
  have blank: "browser_scheme (js ''about:blank'') \<notin> Some ` set script_schemes"
    by code_simp
  define e where "e = js_trim (filter (\<lambda>c. \<not> control_char c) t)"
  have res: "sanitize_url t = e" 
    and cond: "(e \<noteq> [] \<and> (hd e = 46 \<or> hd e = 47)) \<or> (\<forall>n. scheme_match e = Some n \<longrightarrow> \<not> script_test n)"
    using bad blank unfolding sanitize_url_def Let_def e_def [symmetric]
    by (auto split: if_splits option.splits)
  have ne: "e \<noteq> []"
    using bad unfolding res by (auto simp: browser_scheme_def)
  define p where "p = takeWhile scheme_char e"
  have b: "ascii_letter (hd e)" "prefix (p @ [58]) e" "map lower p \<in> set script_schemes"
    using bad unfolding res browser_scheme_def Let_def clean_browser [OF e_def ne] p_def [symmetric]
    by (auto split: if_splits)
  have p: "p \<noteq> []" "hd p = hd e"
    using b(1) ne unfolding p_def by (cases e; simp add: scheme_char_def)+
  have "58 \<notin> set p"
    unfolding p_def by (auto dest!: set_takeWhileD simp: scheme_char_def ascii_letter_def js_digit_def)
  with b(2) p(1) have "scheme_match e = Some (p @ [58])"
    by (intro scheme_is_matched)
  moreover have "script_test (p @ [58])"
    using b p letter_word by (intro script_scheme_tested) simp_all
  moreover have "hd e \<noteq> 46 \<and> hd e \<noteq> 47"
    using b(1) by (auto simp: ascii_letter_def)
  ultimately show False
    using cond by blast
qed

end
