(* ===== verification/Topbar.thy ===== *)
theory Topbar
  imports Uri_Component
begin

text \<open>
  The top bar of the console in \<^verbatim>\<open>swagger-ui-standalone-preset.js\<close>: the query
  string of the page (\<^verbatim>\<open>parseSearch\<close>, \<^verbatim>\<open>serializeSearch\<close>) and
  the component \<^verbatim>\<open>Topbar\<close> with its handlers.  What a handler dispatches is recorded
  in order in \<open>tb_effects\<close>; a handler that throws (a query string that cannot be decoded, a name
  that cannot be encoded) keeps what it did before and yields \<open>False\<close>.  An object is an
  association list in the order of insertion.
\<close>

section \<open>Query strings\<close>

definition object_put :: "jstr \<Rightarrow> jstr \<Rightarrow> (jstr \<times> jstr) list \<Rightarrow> (jstr \<times> jstr) list" where
  "object_put k v m = (if k = js ''__proto__'' then m else assoc_put k v m)"

fun parse_pairs :: "jstr list \<Rightarrow> (jstr \<times> jstr) list \<Rightarrow> (jstr \<times> jstr) list option" where
  "parse_pairs [] t = Some t"
| "parse_pairs (r # rs) t =
     (let o' = pieces 61 r in
      case decode_component (o' ! 0) of
        None \<Rightarrow> None
      | Some k \<Rightarrow>
          (case (if length o' > 1 \<and> o' ! 1 \<noteq> [] then decode_component (o' ! 1) else Some []) of
             None \<Rightarrow> None
           | Some v \<Rightarrow> parse_pairs rs (object_put k v t)))"

definition parse_search :: "jstr \<Rightarrow> (jstr \<times> jstr) list option" where
  "parse_search e = (if e = [] then Some [] else parse_pairs (pieces 38 (drop 1 e)) [])"

definition serialize_pair :: "jstr \<times> jstr \<Rightarrow> jstr option" where
  "serialize_pair e =
     (case (encode_component (fst e), encode_component (snd e)) of
        (Some k, Some v) \<Rightarrow> Some (k @ 61 # v)
      | _ \<Rightarrow> None)"

fun serialize_pairs :: "(jstr \<times> jstr) list \<Rightarrow> jstr list option" where
  "serialize_pairs [] = Some []"
| "serialize_pairs (e # es) =
     (case serialize_pair e of
        None \<Rightarrow> None
      | Some p \<Rightarrow> map_option ((#) p) (serialize_pairs es))"

definition serialize_search :: "(jstr \<times> jstr) list \<Rightarrow> jstr option" where
  "serialize_search m = map_option (join_str [38]) (serialize_pairs m)"

lemma encoded_no_separator:
  assumes "encode_component s = Some e"
  shows "38 \<notin> set e" and "61 \<notin> set e"
  using encode_chars [OF assms, of 38] encode_chars [OF assms, of 61]
  by (auto simp: unreserved_def js_word_def js_digit_def)

lemma serialize_pair_read:
  assumes "serialize_pair (k, v) = Some p"
  shows "38 \<notin> set p"
    and "parse_pairs (p # ps) t = parse_pairs ps (object_put k v t)"
proof -
  obtain x y where enc: "encode_component k = Some x" "encode_component v = Some y" and p: "p = x @ 61 # y"
    using assms by (auto simp: serialize_pair_def split: option.splits)
  show "38 \<notin> set p"
    using encoded_no_separator [OF enc(1)] encoded_no_separator [OF enc(2)] by (simp add: p)
  have s: "pieces 61 p = [x, y]"
    using encoded_no_separator [OF enc(1)] encoded_no_separator [OF enc(2)]
    by (simp add: p pieces_append pieces_no_sep)
  have y: "(if y \<noteq> [] then decode_component y else Some []) = Some v"
    using decode_encode [OF enc(2)] by auto
  show "parse_pairs (p # ps) t = parse_pairs ps (object_put k v t)"
    using decode_encode [OF enc(1)] y by (cases "y = []") (simp_all add: s)
qed

lemma serialize_pairs_no_separator:
  "serialize_pairs m = Some ps \<Longrightarrow> \<forall>p \<in> set ps. 38 \<notin> set p"
proof (induction m arbitrary: ps)
  case (Cons e m)
  then show ?case
    using serialize_pair_read(1) [of "fst e" "snd e"] by (auto split: option.splits)
qed simp

lemma parse_serialized_pairs:
  "serialize_pairs m = Some ps \<Longrightarrow> distinct (map fst (t @ m)) \<Longrightarrow> js ''__proto__'' \<notin> fst ` set m \<Longrightarrow>
   parse_pairs ps t = Some (t @ m)"
proof (induction m arbitrary: ps t)
  case (Cons e m)
  obtain k v where e: "e = (k, v)" by (cases e)
  obtain p qs where ps: "serialize_pair (k, v) = Some p" "serialize_pairs m = Some qs" "ps = p # qs"
    using Cons.prems(1) by (auto simp: e split: option.splits)
  have "assoc_put k v t = t @ [(k, v)]" if "k \<notin> fst ` set t" for t :: "(jstr \<times> jstr) list"
    using that by (induction t) auto
  then have "object_put k v t = t @ [(k, v)]"
    using Cons.prems(2,3) by (auto simp: e object_put_def simp del: js_simps)
  then show ?case
    using Cons.IH [OF ps(2), of "t @ [(k, v)]"] Cons.prems(2,3) serialize_pair_read(2) [OF ps(1)]
    by (simp add: ps(3) e del: js_simps)
qed simp

lemma parse_serialize:
  assumes "distinct (map fst m)" and "js ''__proto__'' \<notin> fst ` set m" and "serialize_search m = Some s" and "m \<noteq> []"
  shows "parse_search (js ''?'' @ s) = Some m"
proof -
  obtain ps where ps: "serialize_pairs m = Some ps" "s = join_str [38] ps"
    using assms(3) by (auto simp: serialize_search_def)
  have "ps \<noteq> []"
    using ps(1) assms(4) by (cases m) (auto split: option.splits)
  with serialize_pairs_no_separator [OF ps(1)] have "pieces 38 s = ps"
    unfolding ps(2) by (intro pieces_join)
  then show ?thesis
    using parse_serialized_pairs [OF ps(1), of "[]"] assms(1,2)
    by (simp add: parse_search_def)
qed

section \<open>The component\<close>

record url_entry =
  ue_url :: jstr
  ue_name :: jstr

record topbar_config =
  tc_urls :: "url_entry list option"
  tc_primary :: "jstr option"
  tc_persist :: bool

datatype effect =
    RestoreAuthorization
  | UpdateUrl jstr
  | Download jstr
  | ReplaceState jstr
  | SetFilter jstr

record topbar =
  tb_url :: jstr
  tb_selected :: nat
  tb_search :: jstr
  tb_effects :: "effect list"

definition new_topbar :: "jstr \<Rightarrow> jstr \<Rightarrow> topbar" where
  "new_topbar url search = \<lparr>tb_url = url, tb_selected = 0, tb_search = search, tb_effects = []\<rparr>"

definition emit :: "effect list \<Rightarrow> topbar \<Rightarrow> topbar" where
  "emit es tb = tb\<lparr>tb_effects := tb_effects tb @ es\<rparr>"

definition on_url_change :: "jstr \<Rightarrow> topbar \<Rightarrow> topbar" where
  "on_url_change v tb = tb\<lparr>tb_url := v\<rparr>"

definition flush_auth_data :: "topbar_config \<Rightarrow> topbar \<Rightarrow> topbar" where
  "flush_auth_data cfg tb = (if tc_persist cfg then tb else emit [RestoreAuthorization] tb)"

definition load_spec :: "topbar_config \<Rightarrow> jstr \<Rightarrow> topbar \<Rightarrow> topbar" where
  "load_spec cfg u tb = emit [UpdateUrl u, Download u] (flush_auth_data cfg tb)"

definition set_search :: "url_entry \<Rightarrow> topbar \<Rightarrow> topbar \<times> bool" where
  "set_search t tb =
     (case parse_search (tb_search tb) of
        None \<Rightarrow> (tb, False)
      | Some r \<Rightarrow>
          (case serialize_search (object_put (js ''urls.primaryName'') (ue_name t) r) of
             None \<Rightarrow> (tb, False)
           | Some s \<Rightarrow> (emit [ReplaceState (js ''?'' @ s)] (tb\<lparr>tb_search := js ''?'' @ s\<rparr>), True)))"

fun select_each :: "jstr \<Rightarrow> nat \<Rightarrow> url_entry list \<Rightarrow> topbar \<Rightarrow> topbar \<times> bool" where
  "select_each t n [] tb = (tb, True)"
| "select_each t n (e # es) tb =
     (if ue_url e = t then
        (let (tb', ok) = set_search e (tb\<lparr>tb_selected := n\<rparr>)
         in if ok then select_each t (n + 1) es tb' else (tb', False))
      else select_each t (n + 1) es tb)"

definition urls_of :: "topbar_config \<Rightarrow> url_entry list" where
  "urls_of cfg = (case tc_urls cfg of None \<Rightarrow> [] | Some us \<Rightarrow> us)"

definition set_selected_url :: "topbar_config \<Rightarrow> jstr \<Rightarrow> topbar \<Rightarrow> topbar \<times> bool" where
  "set_selected_url cfg t tb =
     (if urls_of cfg \<noteq> [] \<and> t \<noteq> [] then select_each t 0 (urls_of cfg) tb else (tb, True))"

definition on_url_select :: "topbar_config \<Rightarrow> jstr \<Rightarrow> topbar \<Rightarrow> topbar \<times> bool" where
  "on_url_select cfg v tb = set_selected_url cfg v (load_spec cfg v tb)"

definition download_url :: "topbar_config \<Rightarrow> topbar \<Rightarrow> topbar" where
  "download_url cfg tb = load_spec cfg (tb_url tb) tb"

definition on_filter_change :: "jstr \<Rightarrow> topbar \<Rightarrow> topbar" where
  "on_filter_change v tb = emit [SetFilter v] tb"

definition receive_props :: "jstr \<Rightarrow> topbar \<Rightarrow> topbar" where
  "receive_props url tb = tb\<lparr>tb_url := url\<rparr>"

fun primary_index :: "jstr \<Rightarrow> nat \<Rightarrow> url_entry list \<Rightarrow> nat \<Rightarrow> nat" where
  "primary_index i n [] r = r"
| "primary_index i n (e # es) r = primary_index i (n + 1) es (if ue_name e = i then n else r)"

definition component_did_mount :: "topbar_config \<Rightarrow> topbar \<Rightarrow> topbar" where
  "component_did_mount cfg tb =
     (let n = urls_of cfg in
      if n \<noteq> [] then
        let r = (case tc_primary cfg of
                   Some i \<Rightarrow> if i \<noteq> [] then primary_index i 0 n (tb_selected tb) else tb_selected tb
                 | None \<Rightarrow> tb_selected tb)
        in load_spec cfg (ue_url (n ! r)) (tb\<lparr>tb_selected := r\<rparr>)
      else tb)"

text \<open>What is rendered: a list of definitions with the selected one, or a text field; \<open>None\<close> is the
  \<^verbatim>\<open>TypeError\<close> of reading the address of an entry that does not exist.\<close>

datatype view =
    SelectView jstr "(jstr \<times> jstr) list" bool
  | InputView "jstr list" jstr bool

definition render :: "topbar_config \<Rightarrow> jstr option \<Rightarrow> topbar \<Rightarrow> view option" where
  "render cfg status tb =
     (let loading = (status = Some (js ''loading''));
          classes = [js ''download-url-input'']
            @ (if status = Some (js ''failed'') then [js ''failed''] else [])
            @ (if loading then [js ''loading''] else [])
      in case tc_urls cfg of
           Some a \<Rightarrow>
             if tb_selected tb < length a
             then Some (SelectView (ue_url (a ! tb_selected tb)) (map (\<lambda>e. (ue_url e, ue_name e)) a) loading)
             else None
         | None \<Rightarrow> Some (InputView classes (tb_url tb) loading))"

section \<open>Events and reachable states\<close>

datatype event =
    UrlChange jstr
  | UrlSelect jstr
  | DownloadClick
  | FilterChange jstr
  | ReceiveProps jstr

definition handle :: "topbar_config \<Rightarrow> event \<Rightarrow> topbar \<Rightarrow> topbar" where
  "handle cfg ev tb =
     (case ev of
        UrlChange v \<Rightarrow> on_url_change v tb
      | UrlSelect v \<Rightarrow> fst (on_url_select cfg v tb)
      | DownloadClick \<Rightarrow> download_url cfg tb
      | FilterChange v \<Rightarrow> on_filter_change v tb
      | ReceiveProps u \<Rightarrow> receive_props u tb)"

inductive topbar_step :: "topbar_config \<Rightarrow> topbar \<Rightarrow> topbar \<Rightarrow> bool" for cfg where
  event: "topbar_step cfg tb (handle cfg ev tb)"

inductive topbar_reach :: "topbar_config \<Rightarrow> topbar \<Rightarrow> bool" for cfg where
  mount: "topbar_reach cfg (component_did_mount cfg (new_topbar url search))"
| step: "topbar_reach cfg tb \<Longrightarrow> topbar_step cfg tb tb' \<Longrightarrow> topbar_reach cfg tb'"

inductive_cases topbar_stepE: "topbar_step cfg tb tb'"

named_theorems topbar_ops \<open>the operations of the top bar\<close>

lemma emit_simps [simp]:
  "tb_selected (emit es tb) = tb_selected tb"
  "tb_url (emit es tb) = tb_url tb"
  "tb_search (emit es tb) = tb_search tb"
  "tb_effects (emit es tb) = tb_effects tb @ es"
  by (simp_all add: emit_def)

lemma load_spec_simps [simp]:
  "tb_selected (load_spec cfg u tb) = tb_selected tb"
  "tb_search (load_spec cfg u tb) = tb_search tb"
  "tb_effects (load_spec cfg u tb) =
     tb_effects tb @ (if tc_persist cfg then [] else [RestoreAuthorization]) @ [UpdateUrl u, Download u]"
  by (simp_all add: load_spec_def flush_auth_data_def)

lemma set_search_selected [simp]: "tb_selected (fst (set_search t tb)) = tb_selected tb"
  by (simp add: set_search_def split: option.splits)

lemma primary_index_range:
  "primary_index i n es r = r \<or> (n \<le> primary_index i n es r \<and> primary_index i n es r < n + length es)"
proof (induction es arbitrary: n r)
  case (Cons e es)
  from Cons [of "n + 1" "if ue_name e = i then n else r"] show ?case
    by (auto split: if_splits)
qed simp

lemma select_each_range:
  "tb_selected tb < n + length es \<Longrightarrow> tb_selected (fst (select_each t n es tb)) < n + length es"
proof (induction t n es tb rule: select_each.induct)
  case (2 t n e es tb)
  show ?case
  proof (cases "ue_url e = t")
    case True
    obtain tb' ok where s: "set_search e (tb\<lparr>tb_selected := n\<rparr>) = (tb', ok)"
      by (cases "set_search e (tb\<lparr>tb_selected := n\<rparr>)")
    then have "tb_selected tb' = n"
      using set_search_selected [of e "tb\<lparr>tb_selected := n\<rparr>"] by simp
    then show ?thesis
      using True s 2(1) [OF True s [symmetric] refl] by (cases ok) auto
  next
    case False
    with 2 show ?thesis by simp
  qed
qed simp

lemma on_url_select_range:
  assumes "tc_urls cfg = Some us" and "tb_selected tb < length us"
  shows "tb_selected (fst (on_url_select cfg v tb)) < length us"
  using assms select_each_range [of "load_spec cfg v tb" 0 us v]
  by (simp add: on_url_select_def set_selected_url_def urls_of_def)

lemma selected_in_range:
  assumes "topbar_reach cfg tb" and "tc_urls cfg = Some us" and "us \<noteq> []"
  shows "tb_selected tb < length us"
  using assms(1)
proof (induction rule: topbar_reach.induct)
  case (mount url search)
  then show ?case
    using assms(2,3) primary_index_range [of "the (tc_primary cfg)" 0 us 0]
    by (auto simp: component_did_mount_def urls_of_def new_topbar_def Let_def split: option.splits)
next
  case (step tb tb')
  from step(2,3) show ?case
    by (auto elim!: topbar_stepE simp: handle_def on_url_change_def download_url_def on_filter_change_def
        receive_props_def on_url_select_range [OF assms(2)] split: event.splits)
qed

text \<open>In every state the top bar can reach by its events, rendering fails exactly when the configured list
of definitions is present but empty, where it reads the address of an entry that does not exist.\<close>

theorem topbar_renders:
  assumes "topbar_reach cfg tb"
  shows "render cfg status tb = None \<longleftrightarrow> tc_urls cfg = Some []"
  using selected_in_range [OF assms]
  by (auto simp: render_def Let_def split: option.splits)

definition example_topbar_config :: topbar_config where
  "example_topbar_config = \<lparr>tc_urls = Some
     [\<lparr>ue_url = js ''/v2.json'', ue_name = js ''Shop API''\<rparr>, \<lparr>ue_url = js ''/v3.json'', ue_name = js ''Blog & Wiki''\<rparr>],
     tc_primary = None, tc_persist = False\<rparr>"

lemma example_reach:
  "topbar_reach example_topbar_config
     (handle example_topbar_config (UrlSelect (js ''/v3.json''))
       (component_did_mount example_topbar_config (new_topbar [] (js ''?a=b''))))"
  by (rule topbar_reach.step [OF topbar_reach.mount topbar_step.event])

theorem topbar_renders_witness:
  "render example_topbar_config None
     (handle example_topbar_config (UrlSelect (js ''/v3.json''))
       (component_did_mount example_topbar_config (new_topbar [] (js ''?a=b'')))) \<noteq> None"
  using topbar_renders [OF example_reach] by (simp add: example_topbar_config_def)


section \<open>Authorizations are dropped before a download\<close>

definition flushed :: "effect list \<Rightarrow> bool" where
  "flushed es \<longleftrightarrow>
     (\<forall>i u. i < length es \<and> es ! i = Download u \<longrightarrow>
        2 \<le> i \<and> es ! (i - 1) = UpdateUrl u \<and> es ! (i - 2) = RestoreAuthorization)"

lemma flushed_other:
  assumes "flushed es" and "\<forall>u. e \<noteq> Download u"
  shows "flushed (es @ [e])"
  using assms by (auto simp: flushed_def nth_append less_Suc_eq)

lemma flushed_load:
  assumes "flushed es"
  shows "flushed (es @ [RestoreAuthorization, UpdateUrl u, Download u])" (is "flushed ?es")
  unfolding flushed_def
proof (intro allI impI)
  fix i u'
  assume i: "i < length ?es \<and> ?es ! i = Download u'"
  then consider "i < length es" | "i = length es" | "i = length es + 1" | "i = length es + 2"
    by fastforce
  then show "2 \<le> i \<and> ?es ! (i - 1) = UpdateUrl u' \<and> ?es ! (i - 2) = RestoreAuthorization"
  proof cases
    case 1
    with i have "es ! i = Download u'"
      by (simp add: nth_append)
    with 1 assms have "2 \<le> i" "es ! (i - 1) = UpdateUrl u'" "es ! (i - 2) = RestoreAuthorization"
      unfolding flushed_def by blast+
    with 1 show ?thesis by (auto simp: nth_append)
  qed (use i in \<open>auto simp: nth_append\<close>)
qed

lemma set_search_effects:
  "tb_effects (fst (set_search t tb)) = tb_effects tb \<or>
   (\<exists>s. tb_effects (fst (set_search t tb)) = tb_effects tb @ [ReplaceState s])"
  by (auto simp: set_search_def split: option.splits)

lemma flushed_set_search: "flushed (tb_effects tb) \<Longrightarrow> flushed (tb_effects (fst (set_search t tb)))"
  using set_search_effects [of t tb] flushed_other [of "tb_effects tb" "ReplaceState s" for s] by fastforce

lemma flushed_select_each:
  "flushed (tb_effects tb) \<Longrightarrow> flushed (tb_effects (fst (select_each t n es tb)))"
proof (induction t n es tb rule: select_each.induct)
  case (2 t n e es tb)
  show ?case
  proof (cases "ue_url e = t")
    case True
    obtain tb' ok where s: "set_search e (tb\<lparr>tb_selected := n\<rparr>) = (tb', ok)"
      by (cases "set_search e (tb\<lparr>tb_selected := n\<rparr>)")
    then have "flushed (tb_effects tb')"
      using flushed_set_search [of "tb\<lparr>tb_selected := n\<rparr>" e] 2(3) by simp
    then show ?thesis
      using True s 2(1) [OF True s [symmetric] refl] by (cases ok) auto
  next
    case False
    with 2 show ?thesis by simp
  qed
qed simp

lemma flushed_load_spec:
  "\<not> tc_persist cfg \<Longrightarrow> flushed (tb_effects tb) \<Longrightarrow> flushed (tb_effects (load_spec cfg u tb))"
  by (simp add: flushed_load)

text \<open>C14: Unless authorizations are kept by configuration, every download of a description that the top bar
ever starts comes right after the update of the address, which comes right after all authorizations are
dropped.\<close>

theorem authorization_flushed:
  assumes "topbar_reach cfg tb" and "\<not> tc_persist cfg"
  shows "flushed (tb_effects tb)"
  using assms(1)
proof (induction rule: topbar_reach.induct)
  case (mount url search)
  have "flushed []" by (simp add: flushed_def)
  then show ?case
    using flushed_load_spec [OF assms(2)]
    by (simp add: component_did_mount_def new_topbar_def Let_def del: load_spec_simps)
next
  case (step tb tb')
  have "flushed (tb_effects (fst (on_url_select cfg v tb)))" for v
    using flushed_select_each flushed_load_spec [OF assms(2)] step(3)
    by (simp add: on_url_select_def set_selected_url_def del: load_spec_simps)
  then show ?case
    using step(2,3) flushed_load_spec [OF assms(2)] flushed_other [OF step(3)]
    by (auto elim!: topbar_stepE simp: handle_def on_url_change_def download_url_def on_filter_change_def
        receive_props_def simp del: load_spec_simps split: event.splits)
qed

theorem authorization_flushed_witness:
  "flushed (tb_effects
     (handle example_topbar_config (UrlSelect (js ''/v3.json''))
       (component_did_mount example_topbar_config (new_topbar [] (js ''?a=b'')))))"
  by (rule authorization_flushed [OF example_reach]) (simp add: example_topbar_config_def)


section \<open>A selection survives a reload\<close>

lemma object_put_ok:
  assumes "distinct (map fst m)" and "js ''__proto__'' \<notin> fst ` set m"
  shows "distinct (map fst (object_put k v m))" and "js ''__proto__'' \<notin> fst ` set (object_put k v m)"
  using assms by (auto simp: object_put_def assoc_put_keys simp del: js_simps intro: assoc_put_distinct)

lemma parse_pairs_ok:
  "parse_pairs rs t = Some m \<Longrightarrow> distinct (map fst t) \<Longrightarrow> js ''__proto__'' \<notin> fst ` set t \<Longrightarrow>
   distinct (map fst m) \<and> js ''__proto__'' \<notin> fst ` set m"
proof (induction rs arbitrary: t)
  case (Cons r rs)
  then obtain k v where "parse_pairs rs (object_put k v t) = Some m"
    by (auto simp: Let_def split: option.splits if_splits)
  then show ?case
    using Cons.IH object_put_ok [OF Cons.prems(2,3)] by blast
qed simp

lemma parse_search_ok:
  "parse_search e = Some m \<Longrightarrow> distinct (map fst m) \<and> js ''__proto__'' \<notin> fst ` set m"
  using parse_pairs_ok [of _ "[]" m] by (auto simp: parse_search_def simp del: js_simps split: if_splits)

definition primary_name :: jstr where
  "primary_name = js ''urls.primaryName''"

lemma primary_name_plain: "primary_name \<noteq> js ''__proto__''"
  by (simp add: primary_name_def del: js_simps)

lemma set_search_read_back:
  assumes "parse_search (tb_search tb) = Some r"
    and "serialize_search (object_put primary_name (ue_name e) r) = Some s"
  obtains tb' where "set_search e tb = (tb', True)" "tb_selected tb' = tb_selected tb"
    "parse_search (tb_search tb') = Some (object_put primary_name (ue_name e) r)"
proof -
  let ?q = "object_put primary_name (ue_name e) r"
  have "?q \<noteq> []"
    using primary_name_plain by (cases r) (auto simp: object_put_def simp del: js_simps split: if_splits)
  moreover have "distinct (map fst ?q)" "js ''__proto__'' \<notin> fst ` set ?q"
    using object_put_ok parse_search_ok [OF assms(1)] by blast+
  ultimately have "parse_search (js ''?'' @ s) = Some ?q"
    using parse_serialize assms(2) by blast
  then show thesis
    using assms by (intro that [of "fst (set_search e tb)"])
      (simp_all add: set_search_def primary_name_def [symmetric] del: js_simps)
qed

lemma select_each_none: "t \<notin> ue_url ` set es \<Longrightarrow> select_each t n es tb = (tb, True)"
  by (induction t n es tb rule: select_each.induct) auto

lemma select_each_one:
  "distinct (map ue_url es) \<Longrightarrow> k < length es \<Longrightarrow> set_search (es ! k) (tb\<lparr>tb_selected := n + k\<rparr>) = (tb', True) \<Longrightarrow>
   select_each (ue_url (es ! k)) n es tb = (tb', True)"
proof (induction es arbitrary: n k)
  case (Cons e es)
  show ?case
  proof (cases k)
    case 0
    with Cons.prems show ?thesis by (simp add: select_each_none)
  next
    case (Suc j)
    with Cons.prems have "ue_url e \<noteq> ue_url (es ! j)"
      by (auto simp: image_iff)
    with Cons.IH [of j "n + 1"] Cons.prems Suc show ?thesis by simp
  qed
qed simp

lemma primary_index_one:
  "distinct (map ue_name es) \<Longrightarrow> k < length es \<Longrightarrow> primary_index (ue_name (es ! k)) n es r = n + k"
proof (induction es arbitrary: n k r)
  case (Cons e es)
  have none: "primary_index i m us r' = r'" if "i \<notin> ue_name ` set us" for i m us r'
    using that by (induction i m us r' rule: primary_index.induct) auto
  show ?case
  proof (cases k)
    case 0
    with Cons.prems none show ?thesis by simp
  next
    case (Suc j)
    with Cons.IH [of j "n + 1"] Cons.prems show ?thesis by simp
  qed
qed simp

text \<open>C23: Choosing a definition from the list selects it and writes its name into the query string without
losing the other parameters, whatever characters the name contains, and a page that is mounted with the
name read back from that query string selects the same definition.\<close>

theorem selection_survives_reload:
  assumes "tc_urls cfg = Some us" and "distinct (map ue_url us)" and "distinct (map ue_name us)"
    and "k < length us" and "ue_url (us ! k) \<noteq> []" and "ue_name (us ! k) \<noteq> []"
    and "parse_search (tb_search tb) = Some r"
    and "serialize_search (object_put primary_name (ue_name (us ! k)) r) = Some s"
  shows "\<exists>tb' q. on_url_select cfg (ue_url (us ! k)) tb = (tb', True) \<and> tb_selected tb' = k \<and>
    parse_search (tb_search tb') = Some q \<and> assoc_get q primary_name = Some (ue_name (us ! k)) \<and>
    (\<forall>x. x \<noteq> primary_name \<longrightarrow> assoc_get q x = assoc_get r x) \<and>
    tb_selected (component_did_mount (cfg\<lparr>tc_primary := assoc_get q primary_name\<rparr>)
      (new_topbar url (tb_search tb'))) = k"
proof -
  let ?tb = "(load_spec cfg (ue_url (us ! k)) tb)\<lparr>tb_selected := k\<rparr>"
  let ?q = "object_put primary_name (ue_name (us ! k)) r"
  have "parse_search (tb_search ?tb) = Some r"
    using assms(7) by simp
  then obtain tb' where tb': "set_search (us ! k) ?tb = (tb', True)" "tb_selected tb' = k"
    "parse_search (tb_search tb') = Some ?q"
    by (rule set_search_read_back [OF _ assms(8)]) simp
  have "select_each (ue_url (us ! k)) 0 us (load_spec cfg (ue_url (us ! k)) tb) = (tb', True)"
    by (rule select_each_one [OF assms(2,4)]) (use tb'(1) in simp)
  then have sel: "on_url_select cfg (ue_url (us ! k)) tb = (tb', True)"
    using assms(1,4,5) by (auto simp: on_url_select_def set_selected_url_def urls_of_def)
  have get: "assoc_get ?q x = (if x = primary_name then Some (ue_name (us ! k)) else assoc_get r x)" for x
    using primary_name_plain by (simp add: object_put_def del: js_simps)
  have "us \<noteq> []" using assms(4) by auto
  then have "tb_selected (component_did_mount (cfg\<lparr>tc_primary := Some (ue_name (us ! k))\<rparr>)
      (new_topbar url (tb_search tb'))) = k"
    using assms(1,6) primary_index_one [OF assms(3,4), of 0]
    by (simp add: component_did_mount_def urls_of_def Let_def)
  with sel tb' get show ?thesis by auto
qed

theorem selection_survives_reload_witness:
  "\<exists>tb'. on_url_select example_topbar_config (js ''/v3.json'') (new_topbar [] (js ''?a=b'')) = (tb', True) \<and>
     tb_selected tb' = 1"
proof -
  let ?us = "[\<lparr>ue_url = js ''/v2.json'', ue_name = js ''Shop API''\<rparr>, \<lparr>ue_url = js ''/v3.json'', ue_name = js ''Blog & Wiki''\<rparr>]"
  have u: "tc_urls example_topbar_config = Some ?us" "ue_url (?us ! 1) = js ''/v3.json''"
      "ue_name (?us ! 1) = js ''Blog & Wiki''"
    by (simp_all add: example_topbar_config_def del: js_simps)
  have d: "distinct (map ue_url ?us)" "distinct (map ue_name ?us)"
    by (simp_all del: js_simps)
  have r: "parse_search (tb_search (new_topbar [] (js ''?a=b''))) = Some [(js ''a'', js ''b'')]"
    by code_simp
  have s: "serialize_search (object_put primary_name (js ''Blog & Wiki'') [(js ''a'', js ''b'')])
      = Some (js ''a=b&urls.primaryName=Blog%20%26%20Wiki'')"
    by code_simp
  show ?thesis
    using selection_survives_reload [OF u(1) d, of 1 "new_topbar [] (js ''?a=b'')" "[(js ''a'', js ''b'')]"
        "js ''a=b&urls.primaryName=Blog%20%26%20Wiki''" "[]"] r s
    unfolding u(2,3) by auto
qed


end
