(* ===== verification/Value_Validation.thy ===== *)
theory Value_Validation
  imports Complex_Main JS_Prelude
begin

text \<open>
  Validation of request parameters in \<^verbatim>\<open>swagger-ui.js\<close> (the function
  \<^verbatim>\<open>Re\<close> behind \<^verbatim>\<open>validateParam\<close>, with the validators inlined in
  it).  A value is what the form yields (\<^verbatim>\<open>VALIDATE_PARAMS\<close> converts the
  collections of the store to plain values first), a schema a tree of the fields the function reads.  A
  result is \<open>None\<close> when an error is thrown.  What only the platform decides is a parameter: the text of a number and of a value that
  is neither scalar nor array, whether \<^verbatim>\<open>Date.parse\<close> understands a text,
  regular expressions given by the schema, \<^verbatim>\<open>JSON.parse\<close>, inherited members.
  Numbers are rational; the rounding of doubles is not modelled.
\<close>

datatype js_value =
    VUndef
  | VNull
  | VBool bool
  | VNum rat
  | VStr jstr
  | VArr "js_value list"
  | VObj "(jstr \<times> js_value) list"
  | VFile
  | VBuiltin jstr

datatype required = ReqUnset | ReqBool bool | ReqList "jstr list"

datatype schema = Schema
  (s_nullable: bool)
  (s_required: required)
  (s_maximum: "rat option")
  (s_minimum: "rat option")
  (s_type: jstr)
  (s_format: jstr)
  (s_max_length: "rat option")
  (s_min_length: "rat option")
  (s_unique: js_value)
  (s_max_items: "rat option")
  (s_min_items: "rat option")
  (s_pattern: jstr)
  (s_items: "schema option")
  (s_properties: "(jstr \<times> schema) list")

datatype verr =
    Msg jstr
  | AtProp jstr verr
  | AtIndex nat verr
  | NeedRemove jstr

record platform =
  pf_number_text :: "rat \<Rightarrow> jstr"
  pf_date :: "jstr \<Rightarrow> bool"
  pf_regexp :: "jstr \<Rightarrow> jstr \<Rightarrow> bool option"
  pf_json :: "jstr \<Rightarrow> js_value option"
  pf_member :: "js_value \<Rightarrow> jstr \<Rightarrow> js_value"

section \<open>Conversions of the language\<close>

fun value_truthy :: "js_value \<Rightarrow> bool" where
  "value_truthy VUndef = False"
| "value_truthy VNull = False"
| "value_truthy (VBool b) = b"
| "value_truthy (VNum n) = (n \<noteq> 0)"
| "value_truthy (VStr s) = (s \<noteq> [])"
| "value_truthy _ = True"

fun is_text :: "js_value \<Rightarrow> bool" where
  "is_text (VStr _) = True"
| "is_text _ = False"

definition missing :: "js_value \<Rightarrow> bool" where
  "missing v \<longleftrightarrow> v = VUndef \<or> v = VNull"

datatype number = NaN | NegInf | Fin rat | PosInf

definition digits_value :: "jstr \<Rightarrow> rat" where
  "digits_value s = foldl (\<lambda>n c. 10 * n + of_nat (unat c - 48)) 0 s"

definition split_digits :: "jstr \<Rightarrow> jstr \<times> jstr" where
  "split_digits s = (takeWhile js_digit s, dropWhile js_digit s)"

definition exponent_value :: "jstr \<Rightarrow> int option" where
  "exponent_value s =
     (case s of
        [] \<Rightarrow> None
      | c # cs \<Rightarrow>
          let ds = (if c = 43 \<or> c = 45 then cs else s)
          in if ds \<noteq> [] \<and> list_all js_digit ds
             then Some ((if c = 45 then - 1 else 1) * \<lfloor>digits_value ds\<rfloor>) else None)"

definition unsigned_decimal :: "jstr \<Rightarrow> number" where
  "unsigned_decimal s =
     (if s = js ''Infinity'' then PosInf
      else
        let (i, r) = split_digits s;
            (f, r') = (case r of c # cs \<Rightarrow> if c = 46 then split_digits cs else ([], r) | [] \<Rightarrow> ([], r));
            m = digits_value (i @ f) / 10 ^ length f
        in if i = [] \<and> f = [] then NaN
           else (case r' of
                   [] \<Rightarrow> Fin m
                 | c # cs \<Rightarrow>
                     if c = 101 \<or> c = 69 then
                       (case exponent_value cs of
                          None \<Rightarrow> NaN
                        | Some x \<Rightarrow> Fin (if x \<ge> 0 then m * 10 ^ nat x else m / 10 ^ nat (- x)))
                     else NaN))"

fun negate_number :: "number \<Rightarrow> number" where
  "negate_number NaN = NaN"
| "negate_number PosInf = NegInf"
| "negate_number NegInf = PosInf"
| "negate_number (Fin r) = Fin (- r)"

definition radix_digit :: "jchar \<Rightarrow> nat" where
  "radix_digit c =
     (if js_digit c then unat c - 48
      else if 97 \<le> c \<and> c \<le> 122 then unat c - 87
      else if 65 \<le> c \<and> c \<le> 90 then unat c - 55
      else 99)"

definition radix_number :: "nat \<Rightarrow> jstr \<Rightarrow> number" where
  "radix_number b s =
     (if s \<noteq> [] \<and> list_all (\<lambda>c. radix_digit c < b) s
      then Fin (of_nat (foldl (\<lambda>n c. b * n + radix_digit c) 0 s)) else NaN)"

definition string_number :: "jstr \<Rightarrow> number" where
  "string_number s =
     (let u = js_trim s in
      if u = [] then Fin 0
      else if take 2 u \<in> {js ''0x'', js ''0X''} then radix_number 16 (drop 2 u)
      else if take 2 u \<in> {js ''0o'', js ''0O''} then radix_number 8 (drop 2 u)
      else if take 2 u \<in> {js ''0b'', js ''0B''} then radix_number 2 (drop 2 u)
      else if hd u = 45 then negate_number (unsigned_decimal (tl u))
      else if hd u = 43 then unsigned_decimal (tl u)
      else unsigned_decimal u)"

fun element_number :: "js_value \<Rightarrow> number" where
  "element_number VUndef = Fin 0"
| "element_number VNull = Fin 0"
| "element_number (VNum r) = Fin r"
| "element_number (VStr s) = string_number s"
| "element_number (VArr []) = Fin 0"
| "element_number (VArr [v]) = element_number v"
| "element_number _ = NaN"

fun to_number :: "js_value \<Rightarrow> number" where
  "to_number VUndef = NaN"
| "to_number VNull = Fin 0"
| "to_number (VBool b) = Fin (if b then 1 else 0)"
| "to_number v = element_number v"

text \<open>The relational operators against a number of the schema; a comparison with
  \<^verbatim>\<open>NaN\<close> is false.\<close>

fun less_number :: "number \<Rightarrow> number \<Rightarrow> bool" where
  "less_number (Fin a) (Fin b) = (a < b)"
| "less_number NegInf (Fin b) = True"
| "less_number NegInf PosInf = True"
| "less_number (Fin a) PosInf = True"
| "less_number _ _ = False"

definition below :: "js_value \<Rightarrow> rat \<Rightarrow> bool" where
  "below v t = less_number (to_number v) (Fin t)"

definition above :: "js_value \<Rightarrow> rat \<Rightarrow> bool" where
  "above v t = less_number (Fin t) (to_number v)"

fun value_text :: "platform \<Rightarrow> js_value \<Rightarrow> jstr" where
  "value_text pf VUndef = js ''undefined''"
| "value_text pf VNull = js ''null''"
| "value_text pf (VBool b) = (if b then js ''true'' else js ''false'')"
| "value_text pf (VNum r) = pf_number_text pf r"
| "value_text pf (VStr s) = s"
| "value_text pf (VArr vs) = join_str [44] (map (\<lambda>v. if missing v then [] else value_text pf v) vs)"
| "value_text pf (VObj _) = js ''[object Object]''"
| "value_text pf VFile = js ''[object File]''"
| "value_text pf (VBuiltin s) = s"

definition key_index :: "jstr \<Rightarrow> nat option" where
  "key_index k =
     (if k \<noteq> [] \<and> list_all js_digit k \<and> (k = [48] \<or> hd k \<noteq> 48)
      then Some (nat \<lfloor>digits_value k\<rfloor>) else None)"

text \<open>\<^verbatim>\<open>v[k]\<close>; \<open>None\<close> is the error of reading a property of nothing.\<close>

definition property_of :: "platform \<Rightarrow> js_value \<Rightarrow> jstr \<Rightarrow> js_value option" where
  "property_of pf v k =
     (case v of
        VUndef \<Rightarrow> None
      | VNull \<Rightarrow> None
      | VObj m \<Rightarrow> Some (case assoc_get m k of Some w \<Rightarrow> w | None \<Rightarrow> pf_member pf v k)
      | VArr vs \<Rightarrow>
          Some (if k = js ''length'' then VNum (of_nat (length vs))
                else case key_index k of
                       Some i \<Rightarrow> if i < length vs then vs ! i else pf_member pf v k
                     | None \<Rightarrow> pf_member pf v k)
      | VStr s \<Rightarrow>
          Some (if k = js ''length'' then VNum (of_nat (length s))
                else case key_index k of
                       Some i \<Rightarrow> if i < length s then VStr [s ! i] else pf_member pf v k
                     | None \<Rightarrow> pf_member pf v k)
      | _ \<Rightarrow> Some (pf_member pf v k))"

definition length_of :: "platform \<Rightarrow> js_value \<Rightarrow> js_value option" where
  "length_of pf v = property_of pf v (js ''length'')"

section \<open>Validators\<close>

definition plural :: "platform \<Rightarrow> string \<Rightarrow> rat \<Rightarrow> string \<Rightarrow> jstr" where
  "plural pf s n unit = js s @ pf_number_text pf n @ js unit @ (if n = 1 then [] else js ''s'')"

definition validate_pattern :: "platform \<Rightarrow> js_value \<Rightarrow> jstr \<Rightarrow> verr list option" where
  "validate_pattern pf e p =
     map_option (\<lambda>ok. if ok then [] else [Msg (js ''Value must follow pattern '' @ p)])
       (pf_regexp pf p (value_text pf e))"

definition validate_min_items :: "platform \<Rightarrow> js_value \<Rightarrow> rat \<Rightarrow> verr list option" where
  "validate_min_items pf e n =
     (if (\<not> value_truthy e \<and> 1 \<le> n)
         \<or> (value_truthy e \<and> (case length_of pf e of Some l \<Rightarrow> below l n | None \<Rightarrow> False))
      then Some [Msg (plural pf ''Array must contain at least '' n '' item'')]
      else Some [])"

definition validate_max_items :: "platform \<Rightarrow> js_value \<Rightarrow> rat \<Rightarrow> verr list option" where
  "validate_max_items pf e n =
     (if value_truthy e \<and> (case length_of pf e of Some l \<Rightarrow> above l n | None \<Rightarrow> False)
      then Some [NeedRemove (plural pf ''Array must not contain more then '' n '' item'')]
      else Some [])"

text \<open>Equality of plain values as collections: the order of the members of an object does not
  matter.\<close>

function value_eq :: "js_value \<Rightarrow> js_value \<Rightarrow> bool" where
  "value_eq v w =
     (case (v, w) of
        (VArr xs, VArr ys) \<Rightarrow> length xs = length ys \<and> (\<forall>(x, y) \<in> set (zip xs ys). value_eq x y)
      | (VObj m, VObj m') \<Rightarrow>
          length m = length m' \<and>
          (\<forall>(k, x) \<in> set m. case assoc_get m' k of Some y \<Rightarrow> value_eq x y | None \<Rightarrow> False)
      | _ \<Rightarrow> v = w)"
  by pat_completeness auto

lemma size_zip_fst: "(x, y) \<in> set (zip xs ys) \<Longrightarrow> size x < Suc (size_list size xs)"
  by (metis less_SucI less_not_refl not_less_eq set_zip_leftD size_list_estimation)

lemma size_member: "(k, x) \<in> set m \<Longrightarrow> size x < Suc (size_list (size_prod f size) m)"
  using size_list_estimation' [of "(k, x)" m "size x" "size_prod f size"] by simp

termination value_eq
  by (relation "measure (\<lambda>(v, _). size v)") (auto simp: size_zip_fst size_member)

declare value_eq.simps [simp del]

definition duplicate_indices :: "js_value list \<Rightarrow> nat list" where
  "duplicate_indices vs =
     filter (\<lambda>i. length (filter (\<lambda>w. value_eq w (vs ! i)) vs) > 1) [0..<length vs]"

text \<open>Duplicates are only looked for when the array has more elements than its set; the search reads
  \<^verbatim>\<open>equals\<close> of every element and so fails on an element that is nothing.  A value
  that is no array has no \<^verbatim>\<open>toSet\<close>, unless it is a plain object, whose length is not
  greater than anything.\<close>

definition validate_unique :: "js_value \<Rightarrow> js_value \<Rightarrow> verr list option" where
  "validate_unique e t =
     (if value_truthy e \<and> (t = VStr (js ''true'') \<or> t = VBool True) then
        (case e of
           VArr vs \<Rightarrow>
             if duplicate_indices vs = [] then Some []
             else if list_ex missing vs then None
             else Some (map (\<lambda>i. AtIndex i (Msg (js ''No duplicates allowed.''))) (duplicate_indices vs))
         | VObj _ \<Rightarrow> Some []
         | _ \<Rightarrow> None)
      else Some [])"

definition validate_max_length :: "platform \<Rightarrow> js_value \<Rightarrow> rat \<Rightarrow> verr list option" where
  "validate_max_length pf e n =
     map_option (\<lambda>l. if above l n then [Msg (plural pf ''Value must be no longer than '' n '' character'')] else [])
       (length_of pf e)"

definition validate_min_length :: "platform \<Rightarrow> js_value \<Rightarrow> rat \<Rightarrow> verr list option" where
  "validate_min_length pf e n =
     map_option (\<lambda>l. if below l n then [Msg (plural pf ''Value must be at least '' n '' character'')] else [])
       (length_of pf e)"

definition validate_maximum :: "platform \<Rightarrow> js_value \<Rightarrow> rat \<Rightarrow> verr list option" where
  "validate_maximum pf e n =
     Some (if above e n then [Msg (js ''Value must be less than '' @ pf_number_text pf n)] else [])"

definition validate_minimum :: "platform \<Rightarrow> js_value \<Rightarrow> rat \<Rightarrow> verr list option" where
  "validate_minimum pf e n =
     Some (if below e n then [Msg (js ''Value must be greater than '' @ pf_number_text pf n)] else [])"

text \<open>The fixed regular expressions: an integer, a number, a GUID.\<close>

definition skip_minus :: "jstr \<Rightarrow> jstr" where
  "skip_minus s = (case s of c # cs \<Rightarrow> if c = 45 then cs else s | [] \<Rightarrow> [])"

definition all_digits :: "jstr \<Rightarrow> bool" where
  "all_digits s \<longleftrightarrow> s \<noteq> [] \<and> list_all js_digit s"

definition integer_syntax :: "jstr \<Rightarrow> bool" where
  "integer_syntax s = all_digits (skip_minus s)"

definition number_syntax :: "jstr \<Rightarrow> bool" where
  "number_syntax s =
     (let u = skip_minus s; r = dropWhile js_digit u
      in u \<noteq> [] \<and> js_digit (hd u) \<and> (r = [] \<or> (hd r = 46 \<and> all_digits (tl r))))"

definition lower_char :: "jchar \<Rightarrow> jchar" where
  "lower_char c = (if 65 \<le> c \<and> c \<le> 90 then c + 32 else c)"

definition guid_hex :: "jchar \<Rightarrow> bool" where
  "guid_hex c \<longleftrightarrow> js_digit c \<or> (97 \<le> c \<and> c \<le> 102)"

definition guid_syntax :: "jstr \<Rightarrow> bool" where
  "guid_syntax s =
     (let u = (case s of c # cs \<Rightarrow> if c = 123 \<or> c = 40 then cs else s | [] \<Rightarrow> []);
          w = (if u \<noteq> [] \<and> (last u = 41 \<or> last u = 125) then butlast u else u);
          ps = pieces 45 w
      in map length ps = [8, 4, 4, 4, 12] \<and> list_all (list_all guid_hex) ps)"

section \<open>The function\<close>

text \<open>\<open>provided\<close> is the list of alternatives that make a required value present.\<close>

definition provided :: "jstr \<Rightarrow> js_value \<Rightarrow> bool" where
  "provided type e \<longleftrightarrow>
     (type = js ''string'' \<and> value_truthy e) \<or>
     (type = js ''array'' \<and> (case e of VArr vs \<Rightarrow> vs \<noteq> [] | _ \<Rightarrow> False)) \<or>
     (type = js ''array'' \<and> is_text e \<and> value_truthy e) \<or>
     (type = js ''file'' \<and> e = VFile) \<or>
     (type = js ''boolean'' \<and> (value_truthy e \<or> e = VBool False)) \<or>
     (type \<in> {js ''number'', js ''integer''} \<and> (value_truthy e \<or> e = VNum 0)) \<or>
     (type = js ''object'' \<and> (case e of VArr _ \<Rightarrow> True | VObj _ \<Rightarrow> True | VFile \<Rightarrow> True | VStr s \<Rightarrow> s \<noteq> [] | _ \<Rightarrow> False))"

fun sequence :: "verr list option list \<Rightarrow> verr list option" where
  "sequence [] = Some []"
| "sequence (x # xs) = Option.bind x (\<lambda>es. map_option ((@) es) (sequence xs))"

definition constraints :: "platform \<Rightarrow> js_value \<Rightarrow> schema \<Rightarrow> verr list option" where
  "constraints pf e t =
     (let array = (s_type t = js ''array'');
          check = (\<lambda>c f. case c of Some n \<Rightarrow> f n | None \<Rightarrow> Some [])
      in sequence
        [if s_pattern t \<noteq> [] then validate_pattern pf e (s_pattern t) else Some [],
         if array then check (s_min_items t) (\<lambda>n. if n \<noteq> 0 then validate_min_items pf e n else Some []) else Some [],
         if array then check (s_max_items t) (\<lambda>n. if n \<noteq> 0 then validate_max_items pf e n else Some []) else Some [],
         if array \<and> value_truthy (s_unique t) then validate_unique e (s_unique t) else Some [],
         check (s_max_length t) (validate_max_length pf e),
         check (s_min_length t) (\<lambda>n. if n \<noteq> 0 then validate_min_length pf e n else Some []),
         check (s_maximum t) (validate_maximum pf e),
         check (s_minimum t) (validate_minimum pf e)])"

text \<open>The validator of the type, arrays apart.\<close>

definition type_check :: "platform \<Rightarrow> js_value \<Rightarrow> schema \<Rightarrow> verr list option" where
  "type_check pf e t =
     (let unless = (\<lambda>ok m. Some (if ok then [] else [Msg (js m)])) in
      if s_type t = js ''string'' then
        if s_format t = js ''date-time'' then unless (pf_date pf (value_text pf e)) ''Value must be a DateTime''
        else if s_format t = js ''uuid'' then
          (if missing e then None
           else unless (guid_syntax (map lower_char (value_text pf e))) ''Value must be a Guid'')
        else unless (\<not> value_truthy e \<or> is_text e) ''Value must be a string''
      else if s_type t = js ''boolean'' then
        unless (e \<in> {VStr (js ''true''), VStr (js ''false''), VBool True, VBool False}) ''Value must be a boolean''
      else if s_type t = js ''number'' then unless (number_syntax (value_text pf e)) ''Value must be a number''
      else if s_type t = js ''integer'' then unless (integer_syntax (value_text pf e)) ''Value must be an integer''
      else if s_type t = js ''file'' then unless (\<not> value_truthy e \<or> e = VFile) ''Value must be a file''
      else Some [])"

definition wanted :: "bool \<Rightarrow> schema \<Rightarrow> bool" where
  "wanted n t \<longleftrightarrow> n \<or> s_required t = ReqBool True"

definition nothing_to_check :: "js_value \<Rightarrow> bool \<Rightarrow> schema \<Rightarrow> bool" where
  "nothing_to_check e n t =
     (let given = (\<not> missing e); req = wanted n t in
      (s_nullable t \<and> e = VNull) \<or> s_type t = [] \<or>
      \<not> (req \<or> (given \<and> s_type t = js ''array'') \<or> \<not> (\<not> req \<and> \<not> given)))"

text \<open>The object an object parameter stands for: itself or the object its text describes.\<close>

definition object_value :: "platform \<Rightarrow> js_value \<Rightarrow> js_value option" where
  "object_value pf e = (case e of VStr s \<Rightarrow> pf_json pf s | _ \<Rightarrow> Some e)"

definition required_properties :: "platform \<Rightarrow> js_value \<Rightarrow> schema \<Rightarrow> verr list option" where
  "required_properties pf R t =
     (case s_required t of
        ReqList ks \<Rightarrow>
          sequence (map (\<lambda>k. map_option (\<lambda>v. if v = VUndef then [AtProp k (Msg (js ''Required property not found''))] else [])
            (property_of pf R k)) ks)
      | _ \<Rightarrow> Some [])"

definition invalid_json :: verr where
  "invalid_json = Msg (js ''Parameter string value must be valid JSON'')"

definition not_provided :: verr where
  "not_provided = Msg (js ''Required field is not provided'')"

function validate :: "platform \<Rightarrow> bool \<Rightarrow> jstr option \<Rightarrow> bool \<Rightarrow> schema \<Rightarrow> js_value \<Rightarrow> verr list option" where
  "validate pf bypass media n t e =
     (if nothing_to_check e n t then Some []
      else if wanted n t \<and> \<not> provided (s_type t) e \<and> \<not> bypass then Some [not_provided]
      else
        let object = (s_type t = js ''object'' \<and> (media = None \<or> media = Some (js ''application/json''))) in
        if object \<and> object_value pf e = None then Some [invalid_json]
        else
          sequence
            [(if object then
                sequence
                  (required_properties pf (the (object_value pf e)) t #
                   map (\<lambda>(k, u). Option.bind (property_of pf (the (object_value pf e)) k)
                     (\<lambda>v. map_option (map (AtProp k)) (validate pf bypass media False u v))) (s_properties t))
              else Some []),
             constraints pf e t,
             type_check pf e t,
             (case (e, s_items t) of
                (VArr vs, Some u) \<Rightarrow>
                  if s_type t = js ''array'' then
                    sequence (map (\<lambda>(i, v). map_option (map (AtIndex i)) (validate pf bypass media False u v))
                      (enumerate 0 vs))
                  else Some []
              | _ \<Rightarrow> Some [])])"
  by pat_completeness auto

lemma size_property: "(k, u) \<in> set (s_properties t) \<Longrightarrow> size u < size t"
  using size_member [of k u "s_properties t" "\<lambda>_. 0"] by (cases t) simp

lemma size_items: "s_items t = Some u \<Longrightarrow> size u < size t"
  by (cases t) simp

termination validate
  by (relation "measure (\<lambda>(_, _, _, _, t, _). size t)") (auto simp: size_property size_items)

declare validate.simps [simp del]

definition validate_value ::
  "platform \<Rightarrow> js_value \<Rightarrow> schema option \<Rightarrow> bool \<Rightarrow> bool \<Rightarrow> jstr option \<Rightarrow> verr list option" where
  "validate_value pf e t n bypass media =
     (case t of None \<Rightarrow> Some [] | Some u \<Rightarrow> validate pf bypass media n u e)"

section \<open>What acceptance means\<close>

named_theorems verdicts \<open>which results report nothing\<close>

lemma sequence_Nil [verdicts]: "sequence xs = Some [] \<longleftrightarrow> (\<forall>x \<in> set xs. x = Some [])"
  by (induction xs) (auto simp: bind_eq_Some_conv)

lemma sequence_None: "None \<in> set xs \<Longrightarrow> sequence xs = None"
proof (induction xs)
  case (Cons x xs)
  then show ?case by (cases x) auto
qed simp

lemma constraints_Nil:
  assumes "constraints pf e t = Some []"
  shows "s_maximum t = Some b \<Longrightarrow> \<not> above e b"
    and "s_minimum t = Some b \<Longrightarrow> \<not> below e b"
    and "s_type t = js ''array'' \<Longrightarrow> s_max_items t = Some b \<Longrightarrow> b \<noteq> 0 \<Longrightarrow> validate_max_items pf e b = Some []"
    and "s_type t = js ''array'' \<Longrightarrow> s_min_items t = Some b \<Longrightarrow> b \<noteq> 0 \<Longrightarrow> validate_min_items pf e b = Some []"
  using assms unfolding constraints_def Let_def sequence_Nil
  by (simp_all add: validate_maximum_def validate_minimum_def del: js_simps split: if_splits)

lemma validate_checked:
  assumes "validate pf bypass media n t e = Some []" and "s_type t \<noteq> []" and "\<not> missing e"
  shows "constraints pf e t = Some []" and "type_check pf e t = Some []"
    and "e = VArr vs \<Longrightarrow> s_items t = Some u \<Longrightarrow> s_type t = js ''array'' \<Longrightarrow> v \<in> set vs \<Longrightarrow>
      validate pf bypass media False u v = Some []"
proof -
  have "\<not> nothing_to_check e n t"
    using assms(2,3) by (auto simp: nothing_to_check_def Let_def missing_def)
  then have parts: "constraints pf e t = Some [] \<and> type_check pf e t = Some [] \<and>
      (case (e, s_items t) of
         (VArr vs, Some u) \<Rightarrow>
           if s_type t = js ''array'' then
             sequence (map (\<lambda>(i, v). map_option (map (AtIndex i)) (validate pf bypass media False u v)) (enumerate 0 vs))
           else Some []
       | _ \<Rightarrow> Some []) = Some []"
    using assms(1) by (subst (asm) validate.simps) (simp add: Let_def sequence_Nil del: js_simps sequence.simps split: if_split_asm)
  then show "constraints pf e t = Some []" and "type_check pf e t = Some []" by simp_all
  assume a: "e = VArr vs" "s_items t = Some u" "s_type t = js ''array''" "v \<in> set vs"
  then obtain i where "i < length vs" "v = vs ! i"
    by (auto simp: in_set_conv_nth)
  then have "(i, v) \<in> set (enumerate 0 vs)"
    by (simp add: in_set_enumerate_eq)
  with parts a show "validate pf bypass media False u v = Some []"
    by (fastforce simp: sequence_Nil simp del: js_simps)
qed

section \<open>Integers\<close>

lemma digits_value_nat: "\<exists>k. digits_value s = of_nat k"
proof -
  have "\<exists>k. foldl (\<lambda>n c. 10 * n + of_nat (unat c - 48)) (of_nat m :: rat) s = of_nat k" for m
  proof (induction s arbitrary: m)
    case (Cons c s)
    have "10 * of_nat m + of_nat (unat c - 48) = (of_nat (10 * m + (unat c - 48)) :: rat)" by simp
    with Cons [of "10 * m + (unat c - 48)"] show ?case by (simp only: foldl_Cons)
  qed auto
  from this [of 0] show ?thesis by (simp add: digits_value_def)
qed

lemma digit_chars: "js_digit c \<Longrightarrow> \<not> js_space c \<and> c \<noteq> 45 \<and> c \<noteq> 43 \<and> c \<noteq> 120 \<and> c \<noteq> 88 \<and> c \<noteq> 111 \<and> c \<noteq> 79 \<and> c \<noteq> 98 \<and> c \<noteq> 66 \<and> c \<noteq> 73"
  by (auto simp: js_digit_def js_space_def word_le_nat_alt)

lemma unsigned_decimal_digits:
  assumes "all_digits s"
  obtains k where "unsigned_decimal s = Fin (of_nat k)"
proof -
  from assms obtain c cs where s: "s = c # cs" "js_digit c" "list_all js_digit s"
    by (cases s) (auto simp: all_digits_def)
  have sp: "split_digits s = (s, [])"
    using s(3) by (simp add: split_digits_def list_all_iff takeWhile_eq_all_conv)
  have inf: "s \<noteq> js ''Infinity''"
    using s(1,2) digit_chars by auto
  obtain k where "digits_value s = of_nat k"
    using digits_value_nat by blast
  then have "unsigned_decimal s = Fin (of_nat k)"
    using inf s(1) unfolding unsigned_decimal_def sp by simp
  then show thesis by (rule that)
qed

lemma string_number_integer:
  assumes "integer_syntax s"
  obtains i :: int where "string_number s = Fin (of_int i)"
proof -
  have chars: "\<not> js_space c" if "c \<in> set s" for c
  proof -
    have "c = 45 \<or> js_digit c"
      using that assms by (cases s) (auto simp: integer_syntax_def skip_minus_def all_digits_def list_all_iff split: if_splits)
    then show ?thesis using digit_chars by (auto simp: js_space_def word_le_nat_alt)
  qed
  then have trim: "js_trim s = s" by (simp add: js_trim_id)
  from assms have ne: "s \<noteq> []" by (auto simp: integer_syntax_def skip_minus_def all_digits_def)
  then obtain c cs where s: "s = c # cs" by (cases s) auto
  show thesis
  proof (cases "c = 45")
    case True
    with assms s have d: "all_digits cs" by (simp add: integer_syntax_def skip_minus_def)
    obtain k where "unsigned_decimal cs = Fin (of_nat k)"
      using unsigned_decimal_digits [OF d] by blast
    then have "string_number s = Fin (of_int (- int k))"
      using trim s True by (simp add: string_number_def)
    then show thesis by (rule that)
  next
    case False
    with assms s have d: "all_digits s" by (simp add: integer_syntax_def skip_minus_def)
    obtain k where k: "unsigned_decimal s = Fin (of_nat k)"
      using unsigned_decimal_digits [OF d] by blast
    have dig: "js_digit x" if "x \<in> set s" for x
      using d that by (auto simp: all_digits_def list_all_iff)
    have "take 2 s \<notin> {js ''0x'', js ''0X''}" "take 2 s \<notin> {js ''0o'', js ''0O''}" "take 2 s \<notin> {js ''0b'', js ''0B''}"
      using dig digit_chars by (cases cs; auto simp: s)+
    then have "string_number s = Fin (of_int (int k))"
      using trim s False k dig [of c] digit_chars [of c] by (simp add: string_number_def del: js_simps)
    then show thesis by (rule that)
  qed
qed

lemma accepted_integer:
  assumes "validate pf bypass media n t (VStr s) = Some []" and "s_type t = js ''integer''"
  shows "\<exists>i :: int. string_number s = Fin (of_int i) \<and>
    (\<forall>b. s_maximum t = Some b \<longrightarrow> of_int i \<le> b) \<and> (\<forall>b. s_minimum t = Some b \<longrightarrow> b \<le> of_int i)"
proof -
  have t: "s_type t \<noteq> []" using assms(2) by simp
  have m: "\<not> missing (VStr s)" by (simp add: missing_def)
  note parts = validate_checked [OF assms(1) t m]
  have "integer_syntax s"
    using parts(2) assms(2) by (simp add: type_check_def Let_def split: if_splits)
  then obtain i :: int where i: "string_number s = Fin (of_int i)"
    by (rule string_number_integer)
  then have "\<not> above (VStr s) b \<longleftrightarrow> of_int i \<le> b" and "\<not> below (VStr s) b \<longleftrightarrow> b \<le> of_int i" for b
    by (auto simp: above_def below_def)
  with constraints_Nil(1,2) [OF parts(1)] i show ?thesis by blast
qed

text \<open>Text that is accepted for an integer parameter denotes an integer to the language's conversion of text
to numbers, and that integer lies between the minimum and the maximum of the schema.\<close>

theorem accepted_integer_in_bounds:
  assumes "validate pf bypass media n t (VStr s) = Some []" and "s_type t = js ''integer''"
  shows "\<exists>i :: int. string_number s = Fin (of_int i) \<and>
    (\<forall>b. s_maximum t = Some b \<longrightarrow> of_int i \<le> b) \<and> (\<forall>b. s_minimum t = Some b \<longrightarrow> b \<le> of_int i)"
  by (rule accepted_integer [OF assms])

definition example_platform :: platform where
  "example_platform = \<lparr>pf_number_text = \<lambda>r. js (show_int \<lfloor>r\<rfloor>), pf_date = \<lambda>_. True,
     pf_regexp = \<lambda>_ _. Some True, pf_json = \<lambda>_. None, pf_member = \<lambda>_ _. VUndef\<rparr>"

definition example_schema :: "string \<Rightarrow> rat option \<Rightarrow> schema option \<Rightarrow> schema" where
  "example_schema type bound items =
     Schema False (ReqBool True) (if items = None then bound else None) None (js type) [] bound None VUndef
       (if items = None then None else bound) None [] items []"

theorem accepted_integer_in_bounds_witness:
  "\<exists>i :: int. string_number (js ''-042'') = Fin (of_int i) \<and> of_int i \<le> (7 :: rat)"
proof -
  have "validate example_platform False None True (example_schema ''integer'' (Some 7) None) (VStr (js ''-042'')) = Some []"
    by code_simp
  moreover have "s_type (example_schema ''integer'' (Some 7) None) = js ''integer''"
    by (simp add: example_schema_def)
  ultimately show ?thesis
    using accepted_integer_in_bounds [of example_platform False None True "example_schema ''integer'' (Some 7) None" "js ''-042''"]
    by (auto simp: example_schema_def)
qed


section \<open>Missing values\<close>

lemma not_provided_missing: "missing e \<Longrightarrow> \<not> provided type e"
  by (auto simp: missing_def provided_def)

text \<open>A value that is not there is reported exactly when the schema has a type and wants a value, null being
accepted where the schema allows it; nothing else is reported then and no error is thrown.\<close>

theorem missing_value:
  "missing e \<Longrightarrow>
   validate pf False media n t e =
     Some (if s_type t = [] \<or> (s_nullable t \<and> e = VNull) \<or> \<not> wanted n t then [] else [not_provided])"
  by (subst validate.simps) (simp add: nothing_to_check_def Let_def not_provided_missing)

theorem missing_value_witness:
  "validate example_platform False None True (example_schema ''string'' None None) VNull = Some [not_provided]"
  using missing_value [of VNull] by (simp add: missing_def example_schema_def wanted_def)


text \<open>When the check for required values is bypassed (an empty value is sent on purpose), validating the
missing value of a wanted parameter whose schema has a maximal length throws an error.\<close>

theorem bypassed_length_throws:
  assumes "wanted n t" and "s_type t \<notin> {[], js ''object''}" and "s_max_length t \<noteq> None"
  shows "validate pf True media n t VUndef = None"
proof -
  have "None \<in> {constraints pf VUndef t}"
  proof -
    obtain b where b: "s_max_length t = Some b" using assms(3) by auto
    have "validate_max_length pf VUndef b = None"
      by (simp add: validate_max_length_def length_of_def property_of_def)
    then have "constraints pf VUndef t = None"
      unfolding constraints_def Let_def b by (intro sequence_None) simp
    then show ?thesis by simp
  qed
  moreover have "\<not> nothing_to_check VUndef n t"
    using assms(1,2) by (simp add: nothing_to_check_def Let_def)
  ultimately show ?thesis
    using assms(1,2) by (subst validate.simps) (auto simp: Let_def simp del: js_simps sequence.simps intro!: sequence_None)
qed

theorem bypassed_length_throws_witness:
  "validate example_platform True None True (example_schema ''string'' (Some 3) None) VUndef = None"
  by (rule bypassed_length_throws) (simp_all add: wanted_def example_schema_def)

section \<open>Conformance\<close>

text \<open>Conformance of a value to a schema, at every depth of arrays.\<close>

definition text_within :: "schema \<Rightarrow> jstr \<Rightarrow> bool" where
  "text_within t s \<longleftrightarrow>
     (case string_number s of
        Fin r \<Rightarrow>
          r = of_int \<lfloor>r\<rfloor> \<and>
          (case s_maximum t of Some b \<Rightarrow> r \<le> b | None \<Rightarrow> True) \<and>
          (case s_minimum t of Some b \<Rightarrow> b \<le> r | None \<Rightarrow> True)
      | _ \<Rightarrow> False)"

definition count_within :: "schema \<Rightarrow> 'a list \<Rightarrow> bool" where
  "count_within t vs \<longleftrightarrow>
     (case s_max_items t of Some b \<Rightarrow> b = 0 \<or> of_nat (length vs) \<le> b | None \<Rightarrow> True) \<and>
     (case s_min_items t of Some b \<Rightarrow> b \<le> of_nat (length vs) | None \<Rightarrow> True)"

function conforms :: "schema \<Rightarrow> js_value \<Rightarrow> bool" where
  "conforms t v \<longleftrightarrow>
     missing v \<or>
     ((s_type t = js ''boolean'' \<longrightarrow> v \<in> {VStr (js ''true''), VStr (js ''false''), VBool True, VBool False}) \<and>
      (s_type t = js ''integer'' \<longrightarrow> (case v of VStr s \<Rightarrow> text_within t s | _ \<Rightarrow> True)) \<and>
      (s_type t = js ''string'' \<and> s_format t = [] \<longrightarrow> value_truthy v \<longrightarrow> is_text v) \<and>
      (s_type t = js ''file'' \<longrightarrow> value_truthy v \<longrightarrow> v = VFile) \<and>
      (s_type t = js ''array'' \<longrightarrow>
         (case v of
            VArr vs \<Rightarrow> count_within t vs \<and> (case s_items t of Some u \<Rightarrow> list_all (conforms u) vs | None \<Rightarrow> True)
          | _ \<Rightarrow> True)))"
  by pat_completeness auto
termination
  by (relation "measure (\<lambda>(t, _). size t)") (auto simp: size_items)

declare conforms.simps [simp del]

lemma accepted_counts:
  assumes "validate pf bypass media n t (VArr vs) = Some []" and "s_type t = js ''array''"
  shows "count_within t vs"
proof -
  have t: "s_type t \<noteq> []" using assms(2) by simp
  have m: "\<not> missing (VArr vs)" by (simp add: missing_def)
  note parts = validate_checked [OF assms(1) t m]
  have len: "length_of pf (VArr vs) = Some (VNum (of_nat (length vs)))"
    by (simp add: length_of_def property_of_def)
  have "of_nat (length vs) \<le> b" if "s_max_items t = Some b" "b \<noteq> 0" for b
    using constraints_Nil(3) [OF parts(1) assms(2) that] len
    by (simp add: validate_max_items_def above_def split: if_splits)
  moreover have "b \<le> of_nat (length vs)" if "s_min_items t = Some b" for b
    using constraints_Nil(4) [OF parts(1) assms(2) that] len
    by (cases "b = 0") (simp_all add: validate_min_items_def below_def split: if_splits)
  ultimately show ?thesis
    by (auto simp: count_within_def split: option.splits)
qed

lemma acceptance_conforms:
  "validate pf bypass media n t v = Some [] \<Longrightarrow> conforms t v"
proof (induction t v arbitrary: n rule: conforms.induct)
  case (1 t v)
  show ?case
  proof (cases "missing v \<or> s_type t = []")
    case True
    then show ?thesis by (subst conforms.simps) auto
  next
    case False
    note parts = validate_checked [OF 1(2)]
    have types: "type_check pf v t = Some []" using parts(2) False by blast
    have array: "count_within t vs \<and> (case s_items t of Some u \<Rightarrow> list_all (conforms u) vs | None \<Rightarrow> True)"
      if "s_type t = js ''array''" "v = VArr vs" for vs
    proof
      show "count_within t vs"
        using accepted_counts 1(2) that by blast
      have "list_all (conforms u) vs" if u: "s_items t = Some u" for u
        unfolding list_all_iff
      proof
        fix w assume w: "w \<in> set vs"
        have "validate pf bypass media False u w = Some []"
          using parts(3) [of vs u w] False \<open>v = VArr vs\<close> u \<open>s_type t = js ''array''\<close> w by blast
        then show "conforms u w"
          using 1(1) False \<open>v = VArr vs\<close> u \<open>s_type t = js ''array''\<close> w by blast
      qed
      then show "case s_items t of Some u \<Rightarrow> list_all (conforms u) vs | None \<Rightarrow> True"
        by (simp split: option.split)
    qed
    have int: "text_within t s" if "s_type t = js ''integer''" "v = VStr s" for s
      using accepted_integer [OF 1(2) [unfolded that(2)] that(1)]
      by (auto simp: text_within_def split: option.splits)
    show ?thesis
      using types array int
      by (subst conforms.simps)
        (auto simp: type_check_def Let_def simp del: js_simps split: js_value.split if_split_asm)
  qed
qed



end
