(* ===== verification/Base64.thy ===== *)
theory Base64
  imports Uri_Component
begin

text \<open>
  Bytes and text in \<^verbatim>\<open>swagger-ui-bundle.js\<close>: the Base64 coder
  (\<^verbatim>\<open>t.fromByteArray\<close>, \<^verbatim>\<open>t.toByteArray\<close> with their
  helpers \<^verbatim>\<open>l\<close> and \<^verbatim>\<open>c\<close>), the UTF-8 coder of
  \<^verbatim>\<open>Buffer\<close> (\<^verbatim>\<open>q\<close>) and \<^verbatim>\<open>btoa\<close>, which the console builds
  on them.  A byte is a natural number below 256; shifts and masks are written as multiplication,
  division and remainder.
\<close>

definition base64_alphabet :: jstr where
  "base64_alphabet = js ''ABCDEFGHIJKLMNOPQRSTUVWXYZabcdefghijklmnopqrstuvwxyz0123456789+/''"

definition sextet_char :: "nat \<Rightarrow> jchar" where
  "sextet_char n = base64_alphabet ! n"

text \<open>The reverse table; a character without an entry counts as zero in the shifts that use
  it.\<close>

definition char_sextet :: "jchar \<Rightarrow> nat" where
  "char_sextet c =
     (if c = 45 then 62 else if c = 95 then 63
      else if c \<in> set base64_alphabet then nat (index_of c base64_alphabet) else 0)"

section \<open>Encoding\<close>

fun encode_chunk :: "nat list \<Rightarrow> jstr" where
  "encode_chunk (a # b # c # bs) =
     (let t = a * 65536 + b * 256 + c
      in [sextet_char (t div 262144 mod 64), sextet_char (t div 4096 mod 64),
          sextet_char (t div 64 mod 64), sextet_char (t mod 64)] @ encode_chunk bs)"
| "encode_chunk _ = []"

text \<open>The loop over chunks of 16383 bytes from \<open>u\<close> up to \<open>s\<close>.\<close>

function chunk_loop :: "nat list \<Rightarrow> nat \<Rightarrow> nat \<Rightarrow> jstr" where
  "chunk_loop e u s =
     (if u < s then
        encode_chunk (sub_list u (min (u + 16383) s) e) @ chunk_loop e (u + 16383) s
      else [])"
  by pat_completeness auto
termination
  by (relation "measure (\<lambda>(_, u, s). s - u)") auto

declare chunk_loop.simps [simp del]

definition from_byte_array :: "nat list \<Rightarrow> jstr" where
  "from_byte_array e =
     (let n = length e; r = n mod 3
      in chunk_loop e 0 (n - r) @
         (if r = 1 then
            (let t = e ! (n - 1)
             in [sextet_char (t div 4), sextet_char (t * 16 mod 64), 61, 61])
          else if r = 2 then
            (let t = e ! (n - 2) * 256 + e ! (n - 1)
             in [sextet_char (t div 1024), sextet_char (t div 16 mod 64), sextet_char (t * 4 mod 64), 61])
          else []))"

section \<open>Decoding\<close>

definition base64_lengths :: "jstr \<Rightarrow> (nat \<times> nat) option" where
  "base64_lengths e =
     (let t = length e in
      if t mod 4 > 0 then None
      else
        let i = index_of 61 e; n = (if i = -1 then t else nat i)
        in Some (n, if n = t then 0 else 4 - n mod 4))"

fun decode_quads :: "jstr \<Rightarrow> nat list" where
  "decode_quads (a # b # c # d # s) =
     (let t = char_sextet a * 262144 + char_sextet b * 4096 + char_sextet c * 64 + char_sextet d
      in [t div 65536 mod 256, t div 256 mod 256, t mod 256] @ decode_quads s)"
| "decode_quads _ = []"

definition char_at :: "jstr \<Rightarrow> nat \<Rightarrow> nat" where
  "char_at s i = (if i < length s then char_sextet (s ! i) else 0)"

text \<open>The bytes go into an array of a size computed beforehand; a negative size is an error.
  \<open>n\<close> is where the loop over whole quadruples ends: with padding it runs while its index is below
  the number of valid characters less four.\<close>

definition to_byte_array :: "jstr \<Rightarrow> nat list option" where
  "to_byte_array e =
     (case base64_lengths e of
        None \<Rightarrow> None
      | Some (i, u) \<Rightarrow>
          let size = 3 * (i + u) div 4;
              n = (if u > 0 then (i - 4 + 3) div 4 * 4 else i);
              tail = (if u = 2 then [(char_at e n * 4 + char_at e (n + 1) div 16) mod 256]
                      else if u = 1 then
                        (let t = char_at e n * 1024 + char_at e (n + 1) * 16 + char_at e (n + 2) div 4
                         in [t div 256 mod 256, t mod 256])
                      else []);
              bytes = decode_quads (take n e) @ tail
          in if size < u then None else Some (take (size - u) (bytes @ replicate (size - u) 0)))"

section \<open>Decoding inverts encoding\<close>

definition bytes :: "nat list \<Rightarrow> bool" where
  "bytes bs \<longleftrightarrow> (\<forall>b \<in> set bs. b < 256)"

lemma bytes_simps [simp]:
  "bytes []" "bytes (b # bs) \<longleftrightarrow> b < 256 \<and> bytes bs" "bytes (as @ bs) \<longleftrightarrow> bytes as \<and> bytes bs"
  by (auto simp: bytes_def)

lemma base64_alphabet_facts:
  "length base64_alphabet = 64" "distinct base64_alphabet" "{45, 95, 61} \<inter> set base64_alphabet = {}"
proof -
  let ?s = "''ABCDEFGHIJKLMNOPQRSTUVWXYZabcdefghijklmnopqrstuvwxyz0123456789+/''"
  have inj: "inj (of_char :: char \<Rightarrow> jchar)"
    by (rule injI) (metis unat_of_char_16 of_char_eq_iff)
  show "length base64_alphabet = 64"
    by (simp add: base64_alphabet_def del: js_simps)
  have "distinct ?s" by simp
  then show "distinct base64_alphabet"
    unfolding base64_alphabet_def js_def
    by (intro distinct_map [THEN iffD2] conjI inj_on_subset [OF inj subset_UNIV])
  have "{45, 95, 61 :: jchar} = of_char ` set ''-_=''" by simp
  moreover have "set ''-_='' \<inter> set ?s = {}" by simp
  then have "of_char ` set ''-_='' \<inter> set (js ?s) = {}"
    unfolding js_def set_map by (simp only: image_Int [OF inj, symmetric] image_empty)
  ultimately show "{45, 95, 61} \<inter> set base64_alphabet = {}"
    by (simp only: base64_alphabet_def)
qed

lemma sextet_inverse [simp]: "n < 64 \<Longrightarrow> char_sextet (sextet_char n) = n"
  and sextet_no_pad [simp]: "n < 64 \<Longrightarrow> sextet_char n \<noteq> 61"
proof -
  assume n: "n < 64"
  let ?c = "sextet_char n"
  have c: "?c \<in> set base64_alphabet"
    using n base64_alphabet_facts(1) by (simp add: sextet_char_def)
  then show "?c \<noteq> 61" using base64_alphabet_facts(3) by auto
  have "?c \<noteq> 45 \<and> ?c \<noteq> 95" using c base64_alphabet_facts(3) by auto
  moreover have "nat (index_of ?c base64_alphabet) = n"
    using index_of_present [OF c] base64_alphabet_facts(1,2) n
      nth_eq_iff_index_eq [of base64_alphabet "nat (index_of ?c base64_alphabet)" n]
    by (simp add: sextet_char_def nat_less_iff)
  ultimately show "char_sextet ?c = n"
    using c by (simp add: char_sextet_def)
qed

lemma triples [simp]:
  "3 dvd Suc (Suc (Suc n)) \<longleftrightarrow> 3 dvd n" "Suc (Suc (Suc n)) div 3 = Suc (n div 3)" "(3 + n) div 3 = Suc (n div 3)"
  by presburger+

lemma encode_chunk_append:
  "3 dvd length as \<Longrightarrow> encode_chunk (as @ bs) = encode_chunk as @ encode_chunk bs"
  by (induction as rule: encode_chunk.induct) (auto simp: Let_def dest: dvd_imp_le)

lemma chunk_loop_all:
  "u \<le> s \<Longrightarrow> s \<le> length e \<Longrightarrow> 3 dvd u \<Longrightarrow> 3 dvd s \<Longrightarrow> chunk_loop e u s = encode_chunk (sub_list u s e)"
proof (induction e u s rule: chunk_loop.induct)
  case (1 e u s)
  show ?case
  proof (cases "u < s")
    case False
    with 1(2) show ?thesis by (subst chunk_loop.simps) (simp add: sub_list_def)
  next
    case True
    show ?thesis
    proof (cases "u + 16383 < s")
      case True
      have "sub_list u s e = sub_list u (u + 16383) e @ sub_list (u + 16383) s e"
        using True append_take_drop_id [of 16383 "drop u (take s e)"]
        by (simp add: sub_list_def take_drop min_def add.commute)
      moreover have "length (sub_list u (u + 16383) e) = 16383"
        using True 1(3) by (simp add: sub_list_def)
      moreover have "chunk_loop e (u + 16383) s = encode_chunk (sub_list (u + 16383) s e)"
        using 1(1) [OF \<open>u < s\<close>] 1(3,4,5) True by (simp add: dvd_add)
      ultimately show ?thesis
        using \<open>u < s\<close> True by (subst chunk_loop.simps) (simp add: encode_chunk_append min_def)
    next
      case False
      then have "chunk_loop e (u + 16383) s = []"
        by (subst chunk_loop.simps) simp
      with \<open>u < s\<close> False show ?thesis
        by (subst chunk_loop.simps) (simp add: min_def)
    qed
  qed
qed

lemma digits_256:
  fixes a b c :: nat
  assumes "b < 256" and "c < 256"
  shows "(a * 65536 + b * 256 + c) div 65536 = a"
    and "(a * 65536 + b * 256 + c) div 256 mod 256 = b"
    and "(a * 65536 + b * 256 + c) mod 256 = c"
proof -
  have t: "a * 65536 + b * 256 + c = (a * 256 + b) * 256 + c" by simp
  have "(a * 65536 + b * 256 + c) div 256 = a * 256 + b"
    unfolding t using assms(2) by (simp only: div_mult_self3 div_less)
  then show "(a * 65536 + b * 256 + c) div 256 mod 256 = b"
    using assms by simp
  show "(a * 65536 + b * 256 + c) mod 256 = c"
    unfolding t using assms(2) by (simp only: mod_mult_self3 mod_less)
  have "(a * 65536 + b * 256 + c) div 65536 = (a * 65536 + b * 256 + c) div 256 div 256"
    by (simp add: div_mult2_eq [symmetric])
  then show "(a * 65536 + b * 256 + c) div 65536 = a"
    using \<open>(a * 65536 + b * 256 + c) div 256 = a * 256 + b\<close> assms(1) by simp
qed

lemma sextets:
  fixes t :: nat
  assumes "t < 16777216"
  shows "t div 262144 mod 64 * 262144 + t div 4096 mod 64 * 4096 + t div 64 mod 64 * 64 + t mod 64 = t"
proof -
  have "t div 262144 < 64" using assms by (simp add: div_less_iff_less_mult)
  then have top: "t div 262144 mod 64 = t div 262144" by simp
  have "64 * (64 * (64 * (t div 262144) + t div 4096 mod 64) + t div 64 mod 64) + t mod 64 = t"
    by (rule utf8_digits)
  then show ?thesis
    unfolding top by (simp add: algebra_simps)
qed

lemma decode_quad:
  assumes "t < 16777216"
  shows "decode_quads ([sextet_char (t div 262144 mod 64), sextet_char (t div 4096 mod 64),
      sextet_char (t div 64 mod 64), sextet_char (t mod 64)] @ s) =
    [t div 65536 mod 256, t div 256 mod 256, t mod 256] @ decode_quads s"
proof -
  have m: "n mod 64 < 64" for n :: nat by simp
  show ?thesis
    by (simp only: append_Cons append_Nil decode_quads.simps Let_def sextet_inverse [OF m] sextets [OF assms])
qed

lemma decode_encode_chunk:
  "3 dvd length bs \<Longrightarrow> bytes bs \<Longrightarrow> decode_quads (encode_chunk bs) = bs"
proof (induction bs rule: encode_chunk.induct)
  case (1 a b c bs)
  define t where "t = a * 65536 + b * 256 + c"
  have t: "t < 16777216"
    using 1(3) unfolding t_def by simp
  have d: "t mod 256 = c" "t div 256 mod 256 = b" "t div 65536 mod 256 = a"
    using 1(3) digits_256 [of b c a] unfolding t_def by simp_all
  have "decode_quads (encode_chunk bs) = bs"
    using 1 by simp
  then show ?case
    by (simp only: encode_chunk.simps Let_def t_def [symmetric] decode_quad [OF t] d) simp
qed (auto dest: dvd_imp_le)

lemma encode_chunk_plain:
  "61 \<notin> set (encode_chunk bs)" "length (encode_chunk bs) = 4 * (length bs div 3)"
  by (induction bs rule: encode_chunk.induct) (auto simp: Let_def)

lemma base64_lengths_padded:
  assumes "61 \<notin> set q" and "length q = 4 * k"
  shows "base64_lengths q = Some (4 * k, 0)"
    and "x \<noteq> 61 \<Longrightarrow> y \<noteq> 61 \<Longrightarrow> base64_lengths (q @ [x, y, 61, 61]) = Some (4 * k + 2, 2)"
    and "x \<noteq> 61 \<Longrightarrow> y \<noteq> 61 \<Longrightarrow> z \<noteq> 61 \<Longrightarrow> base64_lengths (q @ [x, y, z, 61]) = Some (4 * k + 3, 1)"
proof -
  have idx: "index_of c (a @ c # b) = int (length a)" if "c \<notin> set a" for a b and c :: jchar
  proof -
    have "index_from i c (a @ c # b) = i + int (length a)" for i
      using that by (induction a arbitrary: i) auto
    then show ?thesis by (simp add: index_of_def)
  qed
  show "base64_lengths q = Some (4 * k, 0)"
    using assms by (simp add: base64_lengths_def index_of_absent)
  show "base64_lengths (q @ [x, y, 61, 61]) = Some (4 * k + 2, 2)" if "x \<noteq> 61" "y \<noteq> 61"
  proof -
    have "index_of 61 (q @ [x, y, 61, 61]) = int (4 * k + 2)"
      using assms that idx [of 61 "q @ [x, y]" "[61]"] by simp
    moreover have "length (q @ [x, y, 61, 61]) = 4 * (k + 1)"
      using assms(2) by simp
    moreover have "(4 * k + 2) mod 4 = 2"
      by presburger
    moreover have "nat (2 + 4 * int k) = Suc (Suc (4 * k))"
      by linarith
    ultimately show ?thesis
      unfolding base64_lengths_def Let_def by simp
  qed
  show "base64_lengths (q @ [x, y, z, 61]) = Some (4 * k + 3, 1)" if "x \<noteq> 61" "y \<noteq> 61" "z \<noteq> 61"
  proof -
    have "index_of 61 (q @ [x, y, z, 61]) = int (4 * k + 3)"
      using assms that idx [of 61 "q @ [x, y, z]" "[]"] by simp
    moreover have "length (q @ [x, y, z, 61]) = 4 * (k + 1)"
      using assms(2) by simp
    moreover have "(4 * k + 3) mod 4 = 3"
      by presburger
    moreover have "nat (4 * int k + 3) = 4 * k + 3"
      by linarith
    ultimately show ?thesis
      unfolding base64_lengths_def Let_def by simp
  qed
qed

lemma from_byte_array_split:
  obtains q r where "e = q @ r" "3 dvd length q" "length r = length e mod 3" "length r < 3"
    "chunk_loop e 0 (length e - length e mod 3) = encode_chunk q"
proof
  let ?s = "length e - length e mod 3"
  show "e = take ?s e @ drop ?s e" by simp
  show "3 dvd length (take ?s e)" by (simp add: dvd_minus_mod)
  show "length (drop ?s e) = length e mod 3" by simp
  then show "length (drop ?s e) < 3" by simp
  show "chunk_loop e 0 ?s = encode_chunk (take ?s e)"
    using chunk_loop_all [of 0 ?s e] by (simp add: sub_list_def dvd_minus_mod)
qed

lemma padded_end:
  fixes k :: nat
  shows "(4 * k + 2 - 4 + 3) div 4 * 4 = 4 * k" and "(4 * k + 3 - 4 + 3) div 4 * 4 = 4 * k"
proof -
  have "(1 + 4 * n) div 4 = n" "(2 + 4 * n) div 4 = n" for n :: nat
    by presburger+
  then show "(4 * k + 2 - 4 + 3) div 4 * 4 = 4 * k" and "(4 * k + 3 - 4 + 3) div 4 * 4 = 4 * k"
    by (cases k; simp)+
qed

lemma char_at_tail:
  "length c = n \<Longrightarrow> char_at (c @ xs) n = char_at xs 0"
  "length c = n \<Longrightarrow> char_at (c @ xs) (n + 1) = char_at xs 1"
  "length c = n \<Longrightarrow> char_at (c @ xs) (n + 2) = char_at xs 2"
  by (simp_all add: char_at_def nth_append)

lemma to_byte_array_padded:
  assumes "61 \<notin> set c" and "length c = 4 * k" and "length (decode_quads c) = 3 * k" and "x \<noteq> 61" and "y \<noteq> 61"
  shows "to_byte_array c = Some (decode_quads c)"
    and "to_byte_array (c @ [x, y, 61, 61]) =
      Some (decode_quads c @ [(char_sextet x * 4 + char_sextet y div 16) mod 256])"
    and "z \<noteq> 61 \<Longrightarrow> to_byte_array (c @ [x, y, z, 61]) =
      Some (decode_quads c @
        (let t = char_sextet x * 1024 + char_sextet y * 16 + char_sextet z div 4 in [t div 256 mod 256, t mod 256]))"
proof -
  show "to_byte_array c = Some (decode_quads c)"
    unfolding to_byte_array_def base64_lengths_padded(1) [OF assms(1,2)]
    using assms(2,3) by simp
  have "3 * (4 * k + 2 + 2) div 4 = 3 * k + 3" "3 * (4 * k + 3 + 1) div 4 = 3 * k + 3"
    by presburger+
  note sizes = this
  show "to_byte_array (c @ [x, y, 61, 61]) =
      Some (decode_quads c @ [(char_sextet x * 4 + char_sextet y div 16) mod 256])"
    unfolding to_byte_array_def base64_lengths_padded(2) [OF assms(1,2,4,5)] option.case prod.case Let_def
      sizes padded_end char_at_tail [OF assms(2)]
    using assms(2,3) by (simp add: char_at_def nth_append)
  show "to_byte_array (c @ [x, y, z, 61]) =
      Some (decode_quads c @
        (let t = char_sextet x * 1024 + char_sextet y * 16 + char_sextet z div 4 in [t div 256 mod 256, t mod 256]))"
    if z: "z \<noteq> 61"
    unfolding to_byte_array_def base64_lengths_padded(3) [OF assms(1,2,4,5) z] option.case prod.case Let_def
      sizes padded_end char_at_tail [OF assms(2)]
    using assms(2,3) by (simp add: char_at_def nth_append)
qed

lemma base64_inverse:
  assumes "bytes bs"
  shows "to_byte_array (from_byte_array bs) = Some bs"
proof -
  obtain q r where bs: "bs = q @ r" and q: "3 dvd length q"
    and r: "length r = length bs mod 3" "length r < 3"
    and loop: "chunk_loop bs 0 (length bs - length bs mod 3) = encode_chunk q"
    by (rule from_byte_array_split)
  define c where "c = encode_chunk q"
  have c: "61 \<notin> set c" "length c = 4 * (length q div 3)" "decode_quads c = q"
    using encode_chunk_plain [of q] decode_encode_chunk [OF q] assms by (simp_all add: c_def bs)
  have d: "length (decode_quads c) = 3 * (length q div 3)"
    using q by (simp add: c(3))
  consider "r = []" | a where "r = [a]" | a b where "r = [a, b]"
    using r(2) by (auto simp: length_Suc_conv numeral_3_eq_3 less_Suc_eq)
  then show ?thesis
  proof cases
    case 1
    then have "from_byte_array bs = c"
      using r(1) loop by (simp add: from_byte_array_def Let_def c_def)
    then show ?thesis
      using to_byte_array_padded(1) [OF c(1,2) d, of 0 0] c(3) 1 by (simp add: bs)
  next
    case 2
    have a: "a < 256" using assms by (simp add: bs 2)
    then have s: "a div 4 < 64" "a * 16 mod 64 < 64" by (simp_all add: div_less_iff_less_mult)
    have "bs ! (length bs - 1) = a" by (simp add: bs 2)
    then have e: "from_byte_array bs = c @ [sextet_char (a div 4), sextet_char (a * 16 mod 64), 61, 61]"
      using r(1) loop by (simp add: from_byte_array_def Let_def c_def 2)
    have "a * 16 mod 64 = a mod 4 * 16"
      using mult_mod_left [of a 4 16] by simp
    then have "a div 4 * 4 + a * 16 mod 64 div 16 = a"
      by simp
    then have "(char_sextet (sextet_char (a div 4)) * 4 + char_sextet (sextet_char (a * 16 mod 64)) div 16) mod 256 = a"
      using a by (simp only: sextet_inverse [OF s(1)] sextet_inverse [OF s(2)] mod_less)
    with to_byte_array_padded(2) [OF c(1,2) d sextet_no_pad [OF s(1)] sextet_no_pad [OF s(2)]] c(3)
    show ?thesis
      unfolding e by (simp only: bs 2)
  next
    case 3
    have ab: "a < 256" "b < 256" using assms by (simp_all add: bs 3)
    define t where "t = a * 256 + b"
    have s: "t div 1024 < 64" "t div 16 mod 64 < 64" "t * 4 mod 64 < 64"
      using ab by (simp_all add: t_def div_less_iff_less_mult)
    have "bs ! (length bs - 2) = a" "bs ! (length bs - 1) = b" by (simp_all add: bs 3 nth_append)
    then have e: "from_byte_array bs =
        c @ [sextet_char (t div 1024), sextet_char (t div 16 mod 64), sextet_char (t * 4 mod 64), 61]"
      using r(1) loop by (simp add: from_byte_array_def Let_def c_def 3 t_def)
    have low: "t * 4 mod 64 div 4 = t mod 16"
      using mult_mod_left [of t 16 4] by simp
    have high: "t div 1024 = t div 16 div 64"
      by (simp add: div_mult2_eq [symmetric])
    have sum: "16 * (64 * x + y) + z = t \<Longrightarrow> x * 1024 + y * 16 + z = t" for x y z :: nat
      by simp
    have "t div 1024 * 1024 + t div 16 mod 64 * 16 + t * 4 mod 64 div 4 = t"
      unfolding low high by (rule sum) (simp only: mult_div_mod_eq)
    moreover have "t div 256 mod 256 = a" "t mod 256 = b" using ab by (simp_all add: t_def)
    ultimately show ?thesis
      using to_byte_array_padded(3) [OF c(1,2) d sextet_no_pad [OF s(1)] sextet_no_pad [OF s(2)] sextet_no_pad [OF s(3)]] c(3)
      unfolding e Let_def by (simp only: bs 3 sextet_inverse [OF s(1)] sextet_inverse [OF s(2)] sextet_inverse [OF s(3)])
  qed
qed

section \<open>Text as bytes\<close>

text \<open>The coder keeps the leading surrogate it has seen; what cannot be paired becomes the bytes of
  U+FFFD.\<close>

definition replacement :: "nat list" where
  "replacement = [239, 191, 189]"

fun buffer_utf8 :: "nat option \<Rightarrow> jstr \<Rightarrow> nat list" where
  "buffer_utf8 lead [] = []"
| "buffer_utf8 lead (c # s) =
     (let n = unat c in
      if 55295 < n \<and> n < 57344 then
        (case lead of
           None \<Rightarrow>
             if n > 56319 \<or> s = [] then replacement @ buffer_utf8 None s
             else buffer_utf8 (Some n) s
         | Some l \<Rightarrow>
             if n < 56320 then replacement @ buffer_utf8 (Some n) s
             else utf8 (65536 + ((l - 55296) * 1024 + (n - 56320))) @ buffer_utf8 None s)
      else (if lead \<noteq> None then replacement else []) @ utf8 n @ buffer_utf8 None s)"

definition btoa :: "jstr \<Rightarrow> jstr" where
  "btoa s = from_byte_array (buffer_utf8 None s)"

text \<open>The code points of a well-formed text.\<close>

fun scalars :: "jstr \<Rightarrow> nat list option" where
  "scalars [] = Some []"
| "scalars (c # s) =
     (if trail_surrogate c then None
      else if lead_surrogate c then
        (case s of
           d # s' \<Rightarrow> if trail_surrogate d then map_option ((#) (code_point c d)) (scalars s') else None
         | [] \<Rightarrow> None)
      else map_option ((#) (unat c)) (scalars s))"

lemma surrogate_values:
  "lead_surrogate c \<longleftrightarrow> 55295 < unat c \<and> unat c \<le> 56319"
  "trail_surrogate c \<longleftrightarrow> 56319 < unat c \<and> unat c < 57344"
  by (auto simp: lead_surrogate_def trail_surrogate_def word_le_nat_alt)

lemma buffer_utf8_scalars:
  "scalars s = Some ps \<Longrightarrow> buffer_utf8 None s = concat (map utf8 ps)"
proof (induction s arbitrary: ps rule: scalars.induct)
  case (2 c s)
  then have t: "\<not> trail_surrogate c" by (auto split: if_splits)
  show ?case
  proof (cases "lead_surrogate c")
    case True
    with 2(3) t obtain d s' qs where s: "s = d # s'" "trail_surrogate d" "scalars s' = Some qs"
      "ps = code_point c d # qs"
      by (auto split: list.splits if_splits)
    with 2(1) [OF t True s(1,2)] have "buffer_utf8 None s' = concat (map utf8 qs)" by blast
    with s(2) True show ?thesis
      by (simp add: s(1,4) surrogate_values code_point_def Let_def)
  next
    case False
    with 2(3) t obtain qs where "scalars s = Some qs" "ps = unat c # qs" by auto
    with 2(2) [OF t False] t False show ?thesis
      by (auto simp: surrogate_values Let_def)
  qed
qed simp

lemma scalars_in_range: "scalars s = Some ps \<Longrightarrow> \<forall>v \<in> set ps. scalar_value v"
proof (induction s arbitrary: ps rule: scalars.induct)
  case (2 c s)
  then show ?case
    using unat_scalar(1) [of c] code_point_scalar [of c]
    by (auto split: if_splits list.splits)
qed simp

lemma bytes_utf8_list:
  assumes "\<forall>v \<in> set ps. scalar_value v"
  shows "bytes (concat (map utf8 ps))"
proof -
  have "bytes (utf8 v)" if "scalar_value v" for v
    using that utf8_octets [of v] by (auto simp: bytes_def scalar_value_def)
  then show ?thesis
    using assms by (auto simp: bytes_def)
qed

lemma btoa_bytes:
  assumes "scalars s = Some ps"
  shows "to_byte_array (btoa s) = Some (concat (map utf8 ps))"
  using base64_inverse [OF bytes_utf8_list [OF scalars_in_range [OF assms]]]
  by (simp add: btoa_def buffer_utf8_scalars [OF assms])

text \<open>C25: Every sequence of bytes, of any length, is read back from its Base64 text, whose padding and
chunks the coder chooses.\<close>

theorem base64_roundtrip:
  assumes "bytes bs"
  shows "to_byte_array (from_byte_array bs) = Some bs"
  by (rule base64_inverse [OF assms])

theorem base64_roundtrip_witness:
  "to_byte_array (from_byte_array [72, 105, 255, 0]) = Some [72, 105, 255, 0]"
  by (rule base64_roundtrip) simp

end
