(* ===== verification/Auth_Store.thy ===== *)
theory Auth_Store
  imports Keyed_Tree Base64
begin

text \<open>
  The authorization plugin in \<^verbatim>\<open>swagger-ui-bundle.js\<close>: actions (module 82),
  reducers (278) and selectors (279), with the copy of the authorizations in the browser's storage.  An
  authorization is a nested map; a leaf of it is a plain value.  What the code turns into text and back
  with \<^verbatim>\<open>JSON\<close> is stored as it is; the text of a value that is no scalar is a
  parameter.  \<open>None\<close> is a thrown error (an authorization that is no map on the way to a key, a
  logout before anything was authorized).
\<close>

type_synonym auth_tree = "json tree"

record auth_state =
  au_show :: json
  au_authorized :: "auth_tree option"
  au_configs :: json

datatype auth_action =
    ShowDefinitions json
  | Authorize "(jstr \<times> auth_tree) list"
  | AuthorizeOauth2 auth_tree auth_tree
  | Logout "jstr list"
  | ConfigureAuth json
  | RestoreAuth "auth_tree option"

definition field :: "string \<Rightarrow> jstr" where
  "field s = js s"

definition leaf_text :: "(auth_tree \<Rightarrow> jstr) \<Rightarrow> auth_tree option \<Rightarrow> jstr" where
  "leaf_text other v =
     (case v of
        None \<Rightarrow> js ''undefined''
      | Some (Leaf (JStr s)) \<Rightarrow> s
      | Some (Leaf JUndef) \<Rightarrow> js ''undefined''
      | Some (Leaf JNull) \<Rightarrow> js ''null''
      | Some (Leaf (JBool b)) \<Rightarrow> (if b then js ''true'' else js ''false'')
      | Some (Leaf (JNum n)) \<Rightarrow> js (show_int n)
      | Some t \<Rightarrow> other t)"

definition basic_header :: "jstr \<Rightarrow> jstr \<Rightarrow> jstr" where
  "basic_header user pass = js ''Basic '' @ btoa (user @ js '':'' @ pass)"

text \<open>A user name that is itself a map, which no form of the console yields, is kept as its text.\<close>

definition basic_value :: "(auth_tree \<Rightarrow> jstr) \<Rightarrow> auth_tree \<Rightarrow> auth_tree" where
  "basic_value other a =
     (let user = get_in (Some a) [field ''value'', field ''username''];
          pass = get_in (Some a) [field ''value'', field ''password'']
      in Leaf (JObj
        [(field ''username'', case user of Some (Leaf u) \<Rightarrow> u | Some t \<Rightarrow> JStr (other t) | None \<Rightarrow> JUndef),
         (field ''header'', JStr (basic_header (leaf_text other user) (leaf_text other pass)))]))"

text \<open>One entry of the payload of \<^verbatim>\<open>AUTHORIZE\<close>; an entry that is no map is skipped, as is one of
  another type.\<close>

definition authorize_entry ::
  "(auth_tree \<Rightarrow> jstr) \<Rightarrow> jstr \<times> auth_tree \<Rightarrow> auth_tree option \<Rightarrow> auth_tree option option" where
  "authorize_entry other e a =
     (case e of
        (_, Leaf _) \<Rightarrow> Some a
      | (r, Branch m) \<Rightarrow>
          let t = get_in (Some (Branch m)) [field ''schema'', field ''type''] in
          if t = Some (Leaf (JStr (js ''apiKey''))) \<or> t = Some (Leaf (JStr (js ''http'')))
          then Some (put_child a r (Some (Branch m)))
          else if t = Some (Leaf (JStr (js ''basic'')))
          then Option.bind (set_in [r, field ''value''] (basic_value other (Branch m)) a)
                 (update_in (\<lambda>_. get_in (Some (Branch m)) [field ''schema'']) [r, field ''schema''])
          else Some a)"

fun authorize_entries ::
  "(auth_tree \<Rightarrow> jstr) \<Rightarrow> (jstr \<times> auth_tree) list \<Rightarrow> auth_tree option \<Rightarrow> auth_tree option option" where
  "authorize_entries other [] a = Some a"
| "authorize_entries other (e # es) a = Option.bind (authorize_entry other e a) (authorize_entries other es)"

definition authorized_map :: "auth_state \<Rightarrow> auth_tree option" where
  "authorized_map st = (case au_authorized st of None \<Rightarrow> Some (Branch []) | Some a \<Rightarrow> Some a)"

definition tree_key :: "auth_tree option \<Rightarrow> jstr" where
  "tree_key n = leaf_text (\<lambda>_. []) n"

fun auth_reduce :: "(auth_tree \<Rightarrow> jstr) \<Rightarrow> auth_action \<Rightarrow> auth_state \<Rightarrow> auth_state option" where
  "auth_reduce other (ShowDefinitions v) st = Some (st\<lparr>au_show := v\<rparr>)"
| "auth_reduce other (Authorize r) st =
     map_option (\<lambda>a. st\<lparr>au_authorized := a\<rparr>) (authorize_entries other r (authorized_map st))"
| "auth_reduce other (AuthorizeOauth2 auth token) st =
     map_option
       (\<lambda>n. st\<lparr>au_authorized := put_child (authorized_map st) (tree_key (child n (field ''name''))) n\<rparr>)
       (set_in [field ''token''] token (Some auth))"
| "auth_reduce other (Logout names) st =
     (case au_authorized st of
        None \<Rightarrow> None
      | Some a \<Rightarrow> Some (st\<lparr>au_authorized := fold (\<lambda>n t. put_child t n None) names (Some a)\<rparr>))"
| "auth_reduce other (ConfigureAuth v) st = Some (st\<lparr>au_configs := v\<rparr>)"
| "auth_reduce other (RestoreAuth a) st = Some (st\<lparr>au_authorized := a\<rparr>)"

section \<open>Selectors\<close>

definition authorized :: "auth_state \<Rightarrow> auth_tree option" where
  "authorized st = authorized_map st"

definition auth_is_authorized :: "auth_state \<Rightarrow> jstr list list \<Rightarrow> bool" where
  "auth_is_authorized st requirements \<longleftrightarrow>
     filter (\<lambda>names. \<not> list_ex (\<lambda>b. \<not> b)
       (map (\<lambda>n. case child (authorized st) n of None \<Rightarrow> False | Some (Leaf v) \<Rightarrow> truthy v | Some (Branch _) \<Rightarrow> True) names))
       requirements \<noteq> []"

section \<open>The copy in the browser's storage\<close>

record auth_err =
  ae_id :: jstr
  ae_level :: jstr
  ae_message :: jstr

record auth_world =
  aw_state :: auth_state
  aw_storage :: "auth_tree option"
  aw_persist :: bool
  aw_errors :: "auth_err list"

definition dispatch :: "(auth_tree \<Rightarrow> jstr) \<Rightarrow> auth_action \<Rightarrow> auth_world \<Rightarrow> auth_world option" where
  "dispatch other a w = map_option (\<lambda>st. w\<lparr>aw_state := st\<rparr>) (auth_reduce other a (aw_state w))"

definition persist_authorization_if_needed :: "auth_world \<Rightarrow> auth_world" where
  "persist_authorization_if_needed w =
     (if aw_persist w then w\<lparr>aw_storage := authorized (aw_state w)\<rparr> else w)"

definition with_persist :: "(auth_tree \<Rightarrow> jstr) \<Rightarrow> auth_action \<Rightarrow> auth_world \<Rightarrow> auth_world option" where
  "with_persist other a w = map_option persist_authorization_if_needed (dispatch other a w)"

definition authorize_with_persist_option where
  "authorize_with_persist_option other r = with_persist other (Authorize r)"

definition authorize_oauth2_with_persist_option where
  "authorize_oauth2_with_persist_option other auth token = with_persist other (AuthorizeOauth2 auth token)"

definition logout_with_persist_option where
  "logout_with_persist_option other names = with_persist other (Logout names)"

definition new_auth_err :: "auth_tree option \<Rightarrow> string \<Rightarrow> jstr \<Rightarrow> auth_world \<Rightarrow> auth_world" where
  "new_auth_err name level message w =
     w\<lparr>aw_errors := aw_errors w @ [\<lparr>ae_id = tree_key name, ae_level = js level, ae_message = message\<rparr>]\<rparr>"

definition state_warning :: jstr where
  "state_warning = js (''Authorization may be unsafe, passed state was changed in server ''
     @ ''Passed state wasn'' @ [CHR 39] @ ''t returned from auth server'')"

definition tree_truthy :: "auth_tree option \<Rightarrow> bool" where
  "tree_truthy t = (case t of None \<Rightarrow> False | Some (Leaf v) \<Rightarrow> truthy v | Some (Branch _) \<Rightarrow> True)"

text \<open>The end of an implicit grant: \<open>stringify\<close> is \<^verbatim>\<open>JSON.stringify\<close>.\<close>

definition pre_authorize_implicit ::
  "(auth_tree \<Rightarrow> jstr) \<Rightarrow> (auth_tree \<Rightarrow> jstr) \<Rightarrow> auth_tree \<Rightarrow> auth_tree \<Rightarrow> bool \<Rightarrow> auth_world \<Rightarrow> auth_world option" where
  "pre_authorize_implicit other stringify auth token valid w =
     (let name = child (Some auth) (field ''name'');
          flow = get_in (Some auth) [field ''schema'', field ''flow''];
          w1 = (if flow = Some (Leaf (JStr (js ''accessCode''))) \<or> valid then w
                else new_auth_err name ''warning'' state_warning w)
      in if tree_truthy (child (Some token) (field ''error''))
         then Some (new_auth_err name ''error'' (stringify token) w1)
         else authorize_oauth2_with_persist_option other auth token w1)"

definition configs_loaded_auth :: "(auth_tree \<Rightarrow> jstr) \<Rightarrow> auth_world \<Rightarrow> auth_world option" where
  "configs_loaded_auth other w =
     (if aw_persist w then
        (case aw_storage w of
           Some a \<Rightarrow> dispatch other (RestoreAuth (Some a)) w
         | None \<Rightarrow> Some w)
      else Some w)"

section \<open>Facts\<close>

lemma get_in_schema_type:
  "get_in (Some (Branch m)) [field ''schema'', field ''type''] = child (child (Some (Branch m)) (field ''schema'')) (field ''type'')"
  by (simp add: tree_simps)

text \<open>A list of alternative requirements is authorized exactly when for some alternative every name in it
has an authorization that counts as true.\<close>

theorem auth_is_authorized_iff:
  "auth_is_authorized st requirements \<longleftrightarrow>
   list_ex (list_all (\<lambda>n. tree_truthy (child (authorized st) n))) requirements"
  by (induction requirements)
    (auto simp: auth_is_authorized_def tree_truthy_def list_ex_iff list_all_iff filter_empty_conv)

lemma child_logout:
  "a \<noteq> None \<Longrightarrow> (\<nexists>v. a = Some (Leaf v)) \<Longrightarrow>
   child (fold (\<lambda>n t. put_child t n None) names a) k = (if k \<in> set names then None else child a k)"
proof (induction names arbitrary: a)
  case (Cons n names)
  have "put_child a n None \<noteq> None \<and> (\<nexists>v. put_child a n None = Some (Leaf v))"
    using Cons.prems by (auto simp: put_child_def Let_def)
  with Cons.IH [of "put_child a n None"] Cons.prems show ?case
    by (simp add: tree_simps)
qed simp

text \<open>Logging out of some names removes their authorizations and leaves every other one as it was.\<close>

theorem logout_removes:
  assumes "auth_reduce other (Logout names) st = Some st'" and "au_authorized st = Some (Branch m)"
  shows "child (authorized st') k = (if k \<in> set names then None else child (authorized st) k)"
proof -
  let ?a = "fold (\<lambda>n t. put_child t n None) names (Some (Branch m))"
  have "?a \<noteq> None"
  proof -
    have "a \<noteq> None \<Longrightarrow> fold (\<lambda>n t. put_child t n None) names a \<noteq> None" for a :: "auth_tree option"
      by (induction names arbitrary: a) (simp_all add: put_child_def Let_def)
    then show ?thesis by blast
  qed
  then have "authorized st' = ?a"
    using assms by (auto simp: authorized_def authorized_map_def split: option.splits)
  with child_logout [of "Some (Branch m)" names k] assms(2) show ?thesis
    by (simp add: authorized_def authorized_map_def)
qed

definition example_basic :: "(jstr \<times> auth_tree) list" where
  "example_basic =
     [(field ''schema'', Branch [(field ''type'', Leaf (JStr (js ''basic'')))]),
      (field ''value'', Branch [(field ''username'', Leaf (JStr (js ''ann''))), (field ''password'', Leaf (JStr (js ''p:w'')))])]"

definition start_auth :: auth_state where
  "start_auth = \<lparr>au_show = JUndef, au_authorized = Some (Branch [(field ''a'', Branch []), (field ''b'', Branch [])]), au_configs = JUndef\<rparr>"

theorem logout_removes_witness:
  "\<exists>st'. auth_reduce (\<lambda>_. []) (Logout [field ''a'']) start_auth = Some st' \<and>
    child (authorized st') (field ''a'') = None \<and> child (authorized st') (field ''b'') \<noteq> None"
proof -
  obtain st' where st': "auth_reduce (\<lambda>_. []) (Logout [field ''a'']) start_auth = Some st'"
    by (simp add: start_auth_def)
  show ?thesis
    using logout_removes [OF st', of "[(field ''a'', Branch []), (field ''b'', Branch [])]"] st'
    by (simp add: start_auth_def authorized_def authorized_map_def child_def field_def)
qed


section \<open>Basic authentication\<close>

lemma btoa_parts:
  assumes "scalars u = Some us" and "scalars p = Some ps"
  shows "to_byte_array (btoa (u @ js '':'' @ p)) = Some (concat (map utf8 (us @ 58 # ps)))"
proof -
  have app: "(@) (a # z) = (\<lambda>x. a # z @ x)" for a z by (simp add: fun_eq_iff)
  have "scalars (u @ t) = map_option ((@) us) (scalars t)" for t
    using assms(1)
  proof (induction u arbitrary: us rule: scalars.induct)
    case (2 c s)
    then show ?case
      by (auto split: if_splits list.splits simp: option.map_comp comp_def app)
  next
    case 1
    then show ?case by (cases "scalars t") simp_all
  qed
  moreover have "scalars (js '':'' @ p) = Some (58 # ps)"
    using assms(2) by (simp add: surrogate_values)
  ultimately show ?thesis
    using btoa_bytes [of "u @ js '':'' @ p" "us @ 58 # ps"] by simp
qed

text \<open>C26: Authorizing with a user name and a password stores a header from whose Base64 part the server gets the
UTF-8 bytes of the name, a colon and the password, whatever characters these contain.\<close>

theorem basic_credentials_sent:
  assumes "get_in (Some (Branch m)) [field ''schema'', field ''type''] = Some (Leaf (JStr (js ''basic'')))"
    and "get_in (Some (Branch m)) [field ''value'', field ''username''] = Some (Leaf (JStr u))"
    and "get_in (Some (Branch m)) [field ''value'', field ''password''] = Some (Leaf (JStr p))"
    and "scalars u = Some us" and "scalars p = Some ps"
    and "auth_reduce other (Authorize [(name, Branch m)]) st = Some st'"
  shows "\<exists>code. get_in (authorized st') [name, field ''value''] =
      Some (Leaf (JObj [(field ''username'', JStr u), (field ''header'', JStr (js ''Basic '' @ code))])) \<and>
    to_byte_array code = Some (concat (map utf8 (us @ 58 # ps)))"
proof -
  let ?v = "Leaf (JObj [(field ''username'', JStr u), (field ''header'', JStr (basic_header u p))])"
  have v: "basic_value other (Branch m) = ?v"
    by (simp add: basic_value_def assms(2,3) leaf_text_def Let_def)
  obtain a1 a2 where a1: "set_in [name, field ''value''] ?v (authorized_map st) = Some a1"
    and a2: "update_in (\<lambda>_. get_in (Some (Branch m)) [field ''schema'']) [name, field ''schema''] a1 = Some a2"
    and st': "au_authorized st' = a2"
    using assms(1,6) unfolding auth_reduce.simps authorize_entries.simps authorize_entry_def
    by (auto simp: v bind_eq_Some_conv simp del: js_simps split: if_splits)
  have "get_in a1 [name, field ''value''] = Some ?v"
    using update_in_at [OF a1 [unfolded set_in_def]] .
  moreover have "\<not> prefix [name, field ''schema''] [name, field ''value'']" "\<not> prefix [name, field ''value''] [name, field ''schema'']"
    by (simp_all add: field_def del: js_simps)
  ultimately have "get_in a2 [name, field ''value''] = Some ?v"
    using update_in_frame [OF a2] by simp
  moreover from this have "a2 \<noteq> None" by (cases a2) simp_all
  ultimately have "get_in (authorized st') [name, field ''value''] = Some ?v"
    using st' by (auto simp: authorized_def authorized_map_def)
  then show ?thesis
    using btoa_parts [OF assms(4,5)] by (auto simp: basic_header_def)
qed

theorem basic_credentials_sent_witness:
  "\<exists>st'. auth_reduce (\<lambda>_. []) (Authorize [(field ''login'', Branch example_basic)]) start_auth = Some st' \<and>
    (\<exists>code. to_byte_array code = Some (concat (map utf8 ([97, 110, 110] @ 58 # [112, 58, 119]))))"
proof -
  have g: "get_in (Some (Branch example_basic)) [field ''schema'', field ''type''] = Some (Leaf (JStr (js ''basic'')))"
    "get_in (Some (Branch example_basic)) [field ''value'', field ''username''] = Some (Leaf (JStr (js ''ann'')))"
    "get_in (Some (Branch example_basic)) [field ''value'', field ''password''] = Some (Leaf (JStr (js ''p:w'')))"
    by (simp_all add: example_basic_def tree_simps child_def field_def)
  have s: "scalars (js ''ann'') = Some [97, 110, 110]" "scalars (js ''p:w'') = Some [112, 58, 119]"
    by code_simp+
  have "auth_reduce (\<lambda>_. []) (Authorize [(field ''login'', Branch example_basic)]) start_auth \<noteq> None"
    using g(1) by (simp add: authorize_entry_def set_in_def child_def start_auth_def authorized_map_def field_def put_child_def
        del: js_simps)
  then obtain st' where st': "auth_reduce (\<lambda>_. []) (Authorize [(field ''login'', Branch example_basic)]) start_auth = Some st'"
    by blast
  from basic_credentials_sent [OF g s st'] st' show ?thesis by blast
qed


section \<open>Persistence\<close>

datatype auth_op =
    OpAuthorize "(jstr \<times> auth_tree) list"
  | OpOauth2 auth_tree auth_tree
  | OpLogout "jstr list"
  | OpImplicit auth_tree auth_tree bool

fun perform ::
  "(auth_tree \<Rightarrow> jstr) \<Rightarrow> (auth_tree \<Rightarrow> jstr) \<Rightarrow> auth_op \<Rightarrow> auth_world \<Rightarrow> auth_world option" where
  "perform other sf (OpAuthorize r) = authorize_with_persist_option other r"
| "perform other sf (OpOauth2 a t) = authorize_oauth2_with_persist_option other a t"
| "perform other sf (OpLogout ns) = logout_with_persist_option other ns"
| "perform other sf (OpImplicit a t v) = pre_authorize_implicit other sf a t v"

inductive auth_reach :: "(auth_tree \<Rightarrow> jstr) \<Rightarrow> (auth_tree \<Rightarrow> jstr) \<Rightarrow> auth_world \<Rightarrow> auth_world \<Rightarrow> bool"
  for other sf where
  refl: "auth_reach other sf w w"
| step: "auth_reach other sf w w' \<Longrightarrow> perform other sf op w' = Some w'' \<Longrightarrow> auth_reach other sf w w''"

definition stored :: "auth_world \<Rightarrow> bool" where
  "stored w \<longleftrightarrow> aw_persist w \<and> aw_storage w = authorized (aw_state w)"

lemma stored_with_persist:
  assumes "aw_persist w" and "with_persist other a w = Some w'"
  shows "stored w'"
  using assms
  by (auto simp: with_persist_def dispatch_def persist_authorization_if_needed_def stored_def)

lemma new_auth_err_stored [simp]:
  "stored (new_auth_err n l m w) = stored w" "aw_persist (new_auth_err n l m w) = aw_persist w"
  by (simp_all add: new_auth_err_def stored_def)

lemma stored_perform:
  assumes "stored w" and "perform other sf op w = Some w'"
  shows "stored w'"
proof (cases op)
  case (OpImplicit a t v)
  have "aw_persist w" using assms(1) by (simp add: stored_def)
  with OpImplicit assms show ?thesis
    by (auto simp: pre_authorize_implicit_def authorize_oauth2_with_persist_option_def Let_def
        dest: stored_with_persist [rotated] split: if_splits)
qed (use assms stored_with_persist in \<open>auto simp: stored_def authorize_with_persist_option_def
  authorize_oauth2_with_persist_option_def logout_with_persist_option_def\<close>)




end
