(* ===== verification/Err_Store.thy ===== *)
theory Err_Store
  imports JS_Prelude
begin

text \<open>
  The error plugin in \<^verbatim>\<open>swagger-ui-bundle.js\<close>: actions (module 60), reducers
  (257), the transformers that run over all errors (127, 258, 259) and selectors (260).  An error is the
  list of its fields.  \<^verbatim>\<open>Object.assign\<close> writes into its first argument, which for
  thrown errors and batches is the shared object of defaults; that object is part of the state
  (\<open>er_defaults\<close>).  Sorting by line is a parameter, because the order of the language's sort is
  only determined when every error has a line.  \<open>None\<close> as a result is a thrown error.
\<close>

type_synonym err = "(jstr \<times> json) list"

record err_state =
  er_errors :: "err list option"
  er_defaults :: err

datatype err_action =
    NewThrownErr err
  | NewThrownErrBatch "err list"
  | NewSpecErr err
  | NewSpecErrBatch "err list"
  | NewAuthErr err
  | Clear err
  | ClearBy "err \<Rightarrow> bool"

definition default_structure :: err where
  "default_structure =
     [(js ''line'', JNum 0), (js ''level'', JStr (js ''error'')), (js ''message'', JStr (js ''Unknown error''))]"

definition object_assign :: "err \<Rightarrow> err \<Rightarrow> err" where
  "object_assign t s = fold (\<lambda>(k, v). assoc_put k v) s t"

definition with_type :: "string \<Rightarrow> err \<Rightarrow> err" where
  "with_type s e = assoc_put (js ''type'') (JStr (js s)) e"

section \<open>Transformers\<close>

fun find_sub :: "jstr \<Rightarrow> jstr \<Rightarrow> nat option" where
  "find_sub p [] = (if p = [] then Some 0 else None)"
| "find_sub p (c # cs) = (if prefix p (c # cs) then Some 0 else map_option Suc (find_sub p cs))"

definition not_of_type_text :: jstr where
  "not_of_type_text = js ''is not of a type(s)''"

text \<open>The reduction over the listed types, with the index and the whole list at hand.\<close>

definition join_types :: "jstr list \<Rightarrow> jstr" where
  "join_types r =
     fst (foldl (\<lambda>(acc, n) t.
         (if n + 1 = length r \<and> length r > 1 then acc @ js ''or '' @ t
          else if n + 1 < length r \<and> r ! (n + 1) \<noteq> [] \<and> length r > 2 then acc @ t @ js '', ''
          else if n + 1 < length r \<and> r ! (n + 1) \<noteq> [] then acc @ t @ js '' ''
          else acc @ t, n + 1))
       (js ''should be a'', 0) r)"

definition transform_not_of_type_one :: "err \<Rightarrow> err option" where
  "transform_not_of_type_one e =
     (case assoc_get e (js ''message'') of
        Some (JStr m) \<Rightarrow>
          (case find_sub not_of_type_text m of
             None \<Rightarrow> Some e
           | Some r \<Rightarrow>
               Some (assoc_put (js ''message'')
                 (JStr (take r m @ join_types (pieces 44 (drop (r + length not_of_type_text) m)))) e))
      | Some (JArr vs) \<Rightarrow> if JStr not_of_type_text \<in> set vs then None else Some e
      | _ \<Rightarrow> None)"

fun all_some :: "'a option list \<Rightarrow> 'a list option" where
  "all_some [] = Some []"
| "all_some (x # xs) = (case x of None \<Rightarrow> None | Some y \<Rightarrow> map_option ((#) y) (all_some xs))"

definition transform_not_of_type :: "err list \<Rightarrow> err list option" where
  "transform_not_of_type es = all_some (map transform_not_of_type_one es)"

text \<open>A transformer that throws is skipped; the second one changes nothing.\<close>

definition transform_errors :: "err list \<Rightarrow> err list" where
  "transform_errors es = (case transform_not_of_type es of None \<Rightarrow> es | Some es' \<Rightarrow> es')"

section \<open>Reducers\<close>

definition errors_of :: "err_state \<Rightarrow> err list" where
  "errors_of st = (case er_errors st of None \<Rightarrow> [] | Some es \<Rightarrow> es)"

fun assign_batch :: "string \<Rightarrow> err list \<Rightarrow> err \<Rightarrow> err list \<times> err" where
  "assign_batch s [] d = ([], d)"
| "assign_batch s (e # es) d =
     (let d' = with_type s (object_assign d e); (rs, d'') = assign_batch s es d' in (d' # rs, d''))"

text \<open>Strict equality with a value of a plain object: collections are never identical to it.\<close>

definition strictly_equal :: "json \<Rightarrow> json \<Rightarrow> bool" where
  "strictly_equal v w \<longleftrightarrow> v = w \<and> (case v of JArr _ \<Rightarrow> False | JObj _ \<Rightarrow> False | _ \<Rightarrow> True)"

definition kept_by_clear :: "err \<Rightarrow> err \<Rightarrow> bool" where
  "kept_by_clear r e \<longleftrightarrow>
     list_all (\<lambda>(t, n). case assoc_get r t of Some v \<Rightarrow> \<not> truthy v \<or> \<not> strictly_equal n v | None \<Rightarrow> True) e"

fun err_reduce :: "(err list \<Rightarrow> err list) \<Rightarrow> err_action \<Rightarrow> err_state \<Rightarrow> err_state option" where
  "err_reduce arrange (NewThrownErr n) st =
     (let r = with_type ''thrown'' (object_assign (er_defaults st) n)
      in Some (st\<lparr>er_errors := Some (transform_errors (errors_of st @ [r])), er_defaults := r\<rparr>))"
| "err_reduce arrange (NewThrownErrBatch ns) st =
     (let (rs, d) = assign_batch ''thrown'' ns (er_defaults st)
      in Some (st\<lparr>er_errors := Some (transform_errors (errors_of st @ rs)), er_defaults := d\<rparr>))"
| "err_reduce arrange (NewSpecErr n) st =
     Some (st\<lparr>er_errors := Some (transform_errors (arrange (errors_of st @ [with_type ''spec'' n])))\<rparr>)"
| "err_reduce arrange (NewSpecErrBatch ns) st =
     (let (rs, d) = assign_batch ''spec'' ns (er_defaults st)
      in Some (st\<lparr>er_errors := Some (transform_errors (errors_of st @ rs)), er_defaults := d\<rparr>))"
| "err_reduce arrange (NewAuthErr n) st =
     Some (st\<lparr>er_errors := Some (transform_errors (errors_of st @ [with_type ''auth'' (object_assign [] n)]))\<rparr>)"
| "err_reduce arrange (Clear r) st =
     (case er_errors st of
        None \<Rightarrow> Some st
      | Some es \<Rightarrow> Some (st\<lparr>er_errors := Some (filter (kept_by_clear r) es)\<rparr>))"
| "err_reduce arrange (ClearBy f) st =
     (case er_errors st of
        None \<Rightarrow> None
      | Some es \<Rightarrow> Some (st\<lparr>er_errors := Some (filter f es)\<rparr>))"

definition all_errors :: "err_state \<Rightarrow> err list" where
  "all_errors st = errors_of st"

definition last_error :: "err_state \<Rightarrow> err option" where
  "last_error st = (if errors_of st = [] then None else Some (last (errors_of st)))"

section \<open>Facts\<close>

lemma assign_get:
  "distinct (map fst s) \<Longrightarrow> assoc_get (object_assign t s) k = (case assoc_get s k of None \<Rightarrow> assoc_get t k | Some v \<Rightarrow> Some v)"
proof (induction s arbitrary: t)
  case (Cons e s)
  obtain a b where e: "e = (a, b)" by (cases e)
  have "assoc_get s a = None"
    using Cons.prems by (auto simp: e assoc_get_def map_of_eq_None_iff)
  with Cons show ?case by (auto simp: e object_assign_def split: option.splits)
qed (simp add: object_assign_def)

lemma type_field: "assoc_get (with_type s e) k = (if k = js ''type'' then Some (JStr (js s)) else assoc_get e k)"
  by (simp add: with_type_def del: js_simps)

lemma transform_field:
  assumes "transform_not_of_type_one e = Some e'" and "k \<noteq> js ''message''"
  shows "assoc_get e' k = assoc_get e k"
  using assms by (auto simp: transform_not_of_type_one_def simp del: js_simps split: option.splits json.splits if_splits)

lemma all_some_map: "all_some xs = Some ys \<Longrightarrow> xs = map Some ys"
  by (induction xs arbitrary: ys) (auto split: option.splits)

lemma transform_length [simp]: "length (transform_errors es) = length es"
proof (cases "transform_not_of_type es")
  case (Some es')
  then have "map transform_not_of_type_one es = map Some es'"
    unfolding transform_not_of_type_def by (rule all_some_map)
  with Some show ?thesis
    by (metis length_map option.simps(5) transform_errors_def)
qed (simp add: transform_errors_def)

lemma transform_nth:
  assumes "i < length es" and "k \<noteq> js ''message''"
  shows "assoc_get (transform_errors es ! i) k = assoc_get (es ! i) k"
proof (cases "transform_not_of_type es")
  case None
  then show ?thesis by (simp add: transform_errors_def)
next
  case (Some es')
  then have "map transform_not_of_type_one es = map Some es'"
    unfolding transform_not_of_type_def by (rule all_some_map)
  then have "transform_not_of_type_one (es ! i) = Some (es' ! i)"
    using assms(1) by (metis length_map nth_map)
  with transform_field [OF this assms(2)] Some show ?thesis
    by (simp add: transform_errors_def)
qed

lemma transform_last:
  assumes "es \<noteq> []" and "k \<noteq> js ''message''"
  shows "assoc_get (last (transform_errors es)) k = assoc_get (last es) k"
proof -
  have ne: "transform_errors es \<noteq> []"
    using assms(1) transform_length [of es] by (metis length_0_conv)
  show ?thesis
    unfolding last_conv_nth [OF assms(1)] last_conv_nth [OF ne] transform_length
    using assms by (intro transform_nth) simp_all
qed

lemma thrown_error_fields:
  assumes "err_reduce arrange (NewThrownErr n) st = Some st'" and "distinct (map fst n)" and "k \<noteq> js ''message''"
  obtains e where "last_error st' = Some e"
    "assoc_get e k = (if k = js ''type'' then Some (JStr (js ''thrown''))
       else case assoc_get n k of None \<Rightarrow> assoc_get (er_defaults st) k | Some v \<Rightarrow> Some v)"
    "assoc_get (er_defaults st') k = assoc_get e k"
proof -
  let ?r = "with_type ''thrown'' (object_assign (er_defaults st) n)"
  have st': "er_errors st' = Some (transform_errors (errors_of st @ [?r]))" "er_defaults st' = ?r"
    using assms(1) by (auto simp: Let_def)
  have "transform_errors (errors_of st @ [?r]) \<noteq> []"
    by (metis Nil_is_append_conv length_0_conv list.distinct(1) transform_length)
  then have "last_error st' = Some (last (transform_errors (errors_of st @ [?r])))"
    using st'(1) by (simp add: last_error_def errors_of_def)
  moreover have "assoc_get (last (transform_errors (errors_of st @ [?r]))) k = assoc_get ?r k"
    using transform_last [of "errors_of st @ [?r]" k] assms(3) by simp
  ultimately show thesis
    using that st'(2) assign_get [OF assms(2)] by (simp add: type_field)
qed

text \<open>A field that one thrown error has and the next one lacks, such as its source or path, appears in the
next one all the same, with the value of the first: the defaults are overwritten by every thrown
error.\<close>

theorem thrown_error_inherits_fields:
  assumes "err_reduce arrange (NewThrownErr n1) st = Some st1"
    and "err_reduce arrange (NewThrownErr n2) st1 = Some st2"
    and "distinct (map fst n1)" and "distinct (map fst n2)"
    and "assoc_get n1 k = Some v" and "assoc_get n2 k = None" and "k \<noteq> js ''message''" and "k \<noteq> js ''type''"
  shows "\<exists>e. last_error st2 = Some e \<and> assoc_get e k = Some v"
proof -
  obtain e1 where e1: "assoc_get e1 k = Some v" "assoc_get (er_defaults st1) k = assoc_get e1 k"
    using thrown_error_fields [OF assms(1,3,7)] assms(5,8) by (metis option.simps(5))
  obtain e2 where "last_error st2 = Some e2" "assoc_get e2 k = assoc_get (er_defaults st1) k"
    using thrown_error_fields [OF assms(2,4,7)] assms(6,8) by (metis option.simps(4))
  with e1 show ?thesis by auto
qed

definition fresh_errors :: err_state where
  "fresh_errors = \<lparr>er_errors = None, er_defaults = default_structure\<rparr>"

theorem thrown_error_inherits_fields_witness:
  "\<exists>st1 st2 e. err_reduce (\<lambda>es. es) (NewThrownErr [(js ''source'', JStr (js ''fetch''))]) fresh_errors = Some st1 \<and>
     err_reduce (\<lambda>es. es) (NewThrownErr []) st1 = Some st2 \<and>
     last_error st2 = Some e \<and> assoc_get e (js ''source'') = Some (JStr (js ''fetch''))"
proof -
  obtain st1 where st1: "err_reduce (\<lambda>es. es) (NewThrownErr [(js ''source'', JStr (js ''fetch''))]) fresh_errors = Some st1"
    by (simp add: Let_def)
  obtain st2 where st2: "err_reduce (\<lambda>es. es) (NewThrownErr []) st1 = Some st2"
    by (simp add: Let_def)
  show ?thesis
    using thrown_error_inherits_fields [OF st1 st2, of "js ''source''" "JStr (js ''fetch'')"] st1 st2
    by (simp del: js_simps err_reduce.simps)
qed


text \<open>Clearing the errors of a source removes exactly the errors whose source it is and keeps the others in
their order.\<close>

theorem clear_by_source:
  assumes "err_reduce arrange (Clear [(js ''source'', JStr s)]) st = Some st'" and "s \<noteq> []"
  shows "all_errors st' =
    filter (\<lambda>e. (js ''source'', JStr s) \<notin> set e) (all_errors st)"
proof -
  have "kept_by_clear [(js ''source'', JStr s)] e \<longleftrightarrow> (js ''source'', JStr s) \<notin> set e" for e
    using assms(2)
    by (auto simp: kept_by_clear_def list_all_iff strictly_equal_def simp del: js_simps)
  then have "kept_by_clear [(js ''source'', JStr s)] = (\<lambda>e. (js ''source'', JStr s) \<notin> set e)"
    by (intro ext)
  then show ?thesis
    using assms(1) by (auto simp: all_errors_def errors_of_def simp del: js_simps split: option.splits)
qed

theorem clear_by_source_witness:
  "\<exists>st'. err_reduce (\<lambda>es. es) (Clear [(js ''source'', JStr (js ''fetch''))])
      \<lparr>er_errors = Some [[(js ''source'', JStr (js ''fetch''))], []], er_defaults = []\<rparr> = Some st' \<and>
    all_errors st' = [[]]"
proof -
  let ?st = "\<lparr>er_errors = Some [[(js ''source'', JStr (js ''fetch''))], []], er_defaults = []\<rparr>"
  obtain st' where st': "err_reduce (\<lambda>es. es) (Clear [(js ''source'', JStr (js ''fetch''))]) ?st = Some st'"
    by simp
  show ?thesis
    using clear_by_source [OF st'] st' by (simp add: all_errors_def errors_of_def del: err_reduce.simps)
qed


end
