(* ===== verification/Redux_Store.thy ===== *)
theory Redux_Store
  imports JS_Prelude
begin

text \<open>
  The store of the console in \<^verbatim>\<open>swagger-ui-es-bundle.js\<close>: creation, dispatch and
  exchange of the reducer (functions \<^verbatim>\<open>H\<close>, \<^verbatim>\<open>p\<close>,
  \<^verbatim>\<open>h\<close> of the store's module), the combination of the reducers of the domains (modules 556
  and 559) and the merge of nested objects (\<^verbatim>\<open>deep-extend\<close>), here for objects whose
  members are merged by a function of their own.  A reducer yields a thrown error or a state together with
  what it writes to the browser's console.  Listeners are not part of the model: they only read the
  state.  Main facts: \<open>dispatch_rejected\<close>, \<open>combine_frame\<close>, \<open>combine_returns\<close>.
\<close>

type_synonym 'a logged = "'a \<times> json list"

text \<open>The state of the store maps the name of a domain to its state; the state of a domain that is not set
is \<open>None\<close>, as is the result \<^verbatim>\<open>undefined\<close> of a reducer.\<close>

type_synonym 'd root_state = "jstr \<rightharpoonup> 'd"
type_synonym 'd domain_reducer = "'d option \<Rightarrow> json \<Rightarrow> (json + 'd option) logged"

record 'd store =
  rx_state :: "'d root_state"
  rx_reducer :: "'d root_state \<Rightarrow> json \<Rightarrow> (json + 'd root_state) logged"
  rx_console :: "json list"

definition redux_error :: "int \<Rightarrow> json" where
  "redux_error n =
     JStr (js ''Minified Redux error #'' @ js (show_int n) @ js ''; visit https://redux.js.org/Errors?code='' @
       js (show_int n) @ js '' for the full message or use the non-minified dev environment for full errors. '')"

definition member :: "json \<Rightarrow> string \<Rightarrow> json" where
  "member a k = (case a of
     JObj m \<Rightarrow> (case assoc_get m (js k) of None \<Rightarrow> JUndef | Some v \<Rightarrow> v)
   | _ \<Rightarrow> JUndef)"

text \<open>A property key or a part of a text that is made of a value; \<open>other\<close> is the text of a value
that is no scalar.\<close>

definition key_text :: "(json \<Rightarrow> jstr) \<Rightarrow> json \<Rightarrow> jstr" where
  "key_text other v = (case v of
     JStr s \<Rightarrow> s
   | JUndef \<Rightarrow> js ''undefined''
   | JNull \<Rightarrow> js ''null''
   | JBool b \<Rightarrow> (if b then js ''true'' else js ''false'')
   | JNum n \<Rightarrow> js (show_int n)
   | _ \<Rightarrow> other v)"

definition is_plain_object :: "json \<Rightarrow> bool" where
  "is_plain_object a \<longleftrightarrow> (case a of JObj _ \<Rightarrow> True | _ \<Rightarrow> False)"

definition dispatch :: "json \<Rightarrow> 'd store \<Rightarrow> (json + json) \<times> 'd store" where
  "dispatch a s =
     (if \<not> is_plain_object a then (Inl (redux_error 7), s)
      else if member a ''type'' = JUndef then (Inl (redux_error 8), s)
      else
        let (r, l) = rx_reducer s (rx_state s) a; s' = s\<lparr>rx_console := rx_console s @ l\<rparr>
        in (case r of
              Inl e \<Rightarrow> (Inl e, s')
            | Inr st \<Rightarrow> (Inr a, s'\<lparr>rx_state := st\<rparr>)))"

text \<open>The two actions of the store itself end in a random text, \<open>rnd\<close>.\<close>

definition replace_action :: "jstr \<Rightarrow> json" where
  "replace_action rnd = JObj [(js ''type'', JStr (js ''@@redux/REPLACE'' @ rnd))]"

definition replace_reducer ::
  "jstr \<Rightarrow> ('d root_state \<Rightarrow> json \<Rightarrow> (json + 'd root_state) logged) \<Rightarrow> 'd store \<Rightarrow> (json + json) \<times> 'd store" where
  "replace_reducer rnd r s = dispatch (replace_action rnd) (s\<lparr>rx_reducer := r\<rparr>)"

definition create_store ::
  "jstr \<Rightarrow> ('d root_state \<Rightarrow> json \<Rightarrow> (json + 'd root_state) logged) \<Rightarrow> 'd root_state \<Rightarrow> (json + json) \<times> 'd store" where
  "create_store rnd r st =
     dispatch (JObj [(js ''type'', JStr (js ''@@redux/INIT'' @ rnd))])
       \<lparr>rx_state = st, rx_reducer = r, rx_console = []\<rparr>"

definition undefined_state_error :: "(json \<Rightarrow> jstr) \<Rightarrow> jstr \<Rightarrow> json \<Rightarrow> json" where
  "undefined_state_error other n a =
     JStr (js ''Reducer \"'' @ n @ js ''\" returned undefined when handling \"'' @
       key_text other (member a ''type'') @
       js ''\" action. To ignore an action, you must explicitly return the previous state.'')"

fun combine_reducers ::
  "(json \<Rightarrow> jstr) \<Rightarrow> (jstr \<times> 'd domain_reducer) list \<Rightarrow> 'd root_state \<Rightarrow> json \<Rightarrow> (json + 'd root_state) logged" where
  "combine_reducers other [] m a = (Inr m, [])"
| "combine_reducers other ((n, r) # rs) m a =
     (case r (m n) a of
        (Inl e, l) \<Rightarrow> (Inl e, l)
      | (Inr None, l) \<Rightarrow> (Inl (undefined_state_error other n a), l)
      | (Inr (Some d), l) \<Rightarrow> (let (r', l') = combine_reducers other rs (m(n \<mapsto> d)) a in (r', l @ l')))"

section \<open>Merging objects\<close>

text \<open>Every member of the source is merged into the target: by \<open>f\<close> where the target has it,
as a copy otherwise.\<close>

definition merge_member :: "('v \<Rightarrow> 'v \<Rightarrow> 'v) \<Rightarrow> jstr \<times> 'v \<Rightarrow> (jstr \<times> 'v) list \<Rightarrow> (jstr \<times> 'v) list" where
  "merge_member f e d = assoc_put (fst e) (case assoc_get d (fst e) of None \<Rightarrow> snd e | Some t \<Rightarrow> f t (snd e)) d"

definition extend_with :: "('v \<Rightarrow> 'v \<Rightarrow> 'v) \<Rightarrow> (jstr \<times> 'v) list \<Rightarrow> (jstr \<times> 'v) list \<Rightarrow> (jstr \<times> 'v) list" where
  "extend_with f d s = fold (merge_member f) s d"

definition extend_opt :: "('o \<Rightarrow> 'o \<Rightarrow> 'o) \<Rightarrow> 'o option \<Rightarrow> 'o option \<Rightarrow> 'o option" where
  "extend_opt f d s = (case s of None \<Rightarrow> d | Some v \<Rightarrow> (case d of None \<Rightarrow> Some v | Some t \<Rightarrow> Some (f t v)))"

text \<open>A member that is no object replaces what was there.\<close>

definition replaced :: "'v \<Rightarrow> 'v \<Rightarrow> 'v" where
  "replaced t v = v"

abbreviation names :: "(jstr \<times> 'v) list \<Rightarrow> jstr list" where
  "names m \<equiv> map fst m"

named_theorems merge_simps \<open>reads of merged objects\<close>

lemma merge_member_get [merge_simps]:
  "assoc_get (merge_member f e d) k =
     (if k = fst e then Some (case assoc_get d k of None \<Rightarrow> snd e | Some t \<Rightarrow> f t (snd e)) else assoc_get d k)"
  by (simp add: merge_member_def)

lemma assoc_get_notin [simp]: "k \<notin> set (names m) \<Longrightarrow> assoc_get m k = None"
  by (simp add: assoc_get_def map_of_eq_None_iff)

lemma extend_with_get [merge_simps]:
  "distinct (names s) \<Longrightarrow>
   assoc_get (extend_with f d s) k =
     (case assoc_get s k of
        None \<Rightarrow> assoc_get d k
      | Some v \<Rightarrow> Some (case assoc_get d k of None \<Rightarrow> v | Some t \<Rightarrow> f t v))"
proof (induction s arbitrary: d)
  case (Cons e s)
  obtain a b where e: "e = (a, b)" by (cases e)
  from Cons.prems have "a \<notin> set (names s)" and IH: "distinct (names s)"
    by (auto simp: e)
  with Cons.IH [OF IH] show ?case
    by (cases "k = a") (simp_all add: extend_with_def merge_member_get e split: option.splits)
qed (simp add: extend_with_def)

lemma extend_with_distinct [intro]: "distinct (names d) \<Longrightarrow> distinct (names (extend_with f d s))"
  unfolding extend_with_def
  by (induction s arbitrary: d) (auto simp: merge_member_def)

lemma extend_with_names: "set (names (extend_with f d s)) = set (names d) \<union> set (names s)"
  unfolding extend_with_def
  by (induction s arbitrary: d) (auto simp: merge_member_def assoc_put_keys)

section \<open>Dispatch\<close>

lemma dispatch_rejected:
  assumes "\<not> is_plain_object a \<or> member a ''type'' = JUndef"
  shows "\<exists>e. dispatch a s = (Inl e, s)"
  using assms by (auto simp: dispatch_def)

text \<open>Domains that do not occur in the list keep their state; if every reducer yields a state, so does the
combination, and each domain has the state its own reducer yields for the state it had.\<close>

lemma combine_frame:
  "combine_reducers other rs m a = (Inr m', l) \<Longrightarrow> n \<notin> set (names rs) \<Longrightarrow> m' n = m n"
proof (induction rs arbitrary: m l)
  case (Cons e rs)
  obtain k r where e: "e = (k, r)" by (cases e)
  from Cons.prems(1) obtain d l' where "combine_reducers other rs (m(k \<mapsto> d)) a = (Inr m', l')"
    by (auto simp: e split: sum.splits option.splits prod.splits)
  from Cons.IH [OF this] Cons.prems(2) show ?case
    by (simp add: e)
qed simp

lemma combine_returns:
  assumes "\<forall>(n, r) \<in> set rs. \<exists>d l. r (m n) a = (Inr (Some d), l)"
    and "distinct (names rs)"
  shows "\<exists>m' l. combine_reducers other rs m a = (Inr m', l) \<and>
           (\<forall>(n, r) \<in> set rs. \<exists>l'. r (m n) a = (Inr (m' n), l')) \<and>
           set l = (\<Union>(n, r) \<in> set rs. set (snd (r (m n) a)))"
  using assms
proof (induction rs arbitrary: m)
  case (Cons e rs)
  obtain k r where e: "e = (k, r)" by (cases e)
  obtain d l where d: "r (m k) a = (Inr (Some d), l)"
    using Cons.prems(1) by (auto simp: e)
  let ?m = "m(k \<mapsto> d)"
  have other: "?m n = m n" if "(n, r') \<in> set rs" for n r'
  proof -
    from that have "n \<in> set (names rs)" by force
    with Cons.prems(2) show ?thesis by (auto simp: e)
  qed
  then have o: "?m (fst x) = m (fst x)" if "x \<in> set rs" for x
    using that by (metis prod.collapse)
  have IH: "\<forall>(n, r') \<in> set rs. \<exists>d l. r' (?m n) a = (Inr (Some d), l)"
    using Cons.prems(1) by (simp add: e o split_beta del: fun_upd_apply cong: ball_cong)
  have "\<exists>m' l'. combine_reducers other rs ?m a = (Inr m', l') \<and>
      (\<forall>(n, r) \<in> set rs. \<exists>l'. r (?m n) a = (Inr (m' n), l')) \<and>
      set l' = (\<Union>(n, r) \<in> set rs. set (snd (r (?m n) a)))"
    using Cons.prems(2) by (intro Cons.IH IH) (simp add: e)
  then obtain m' l' where m': "combine_reducers other rs ?m a = (Inr m', l')"
      "\<forall>(n, r) \<in> set rs. \<exists>l'. r (?m n) a = (Inr (m' n), l')"
      "set l' = (\<Union>(n, r) \<in> set rs. set (snd (r (?m n) a)))"
    by blast
  have k: "m' k = Some d"
    using combine_frame [OF m'(1), of k] Cons.prems(2) by (simp add: e)
  have "(\<Union>(n, r) \<in> set rs. set (snd (r (?m n) a))) = (\<Union>(n, r) \<in> set rs. set (snd (r (m n) a)))"
    by (intro SUP_cong refl) (simp only: o split_beta)
  moreover have "\<forall>(n, r) \<in> set rs. \<exists>l'. r (m n) a = (Inr (m' n), l')"
    using m'(2) by (simp add: o split_beta del: fun_upd_apply cong: ball_cong)
  ultimately show ?case
    using m'(1,3) d k by (auto simp: e)
qed simp

end
