(* ===== verification/Plugin_System.thy ===== *)
theory Plugin_System
  imports Redux_Store Err_Store
begin

text \<open>
  The plugin system of the console, class \<^verbatim>\<open>Y\<close> and the functions
  \<^verbatim>\<open>K\<close>, \<^verbatim>\<open>Z\<close>, \<^verbatim>\<open>X\<close> in
  \<^verbatim>\<open>swagger-ui-es-bundle-core.js\<close>: plugins are combined and merged into the system, whose
  reducers run in the store of \<open>Redux_Store\<close>, whose action creators are bound to that store, and
  whose wrappers are put around bound actions, selectors and components.  The loading type is the default,
  \<^verbatim>\<open>legacy\<close>; hooks that run after loading and the members \<^verbatim>\<open>fn\<close>,
  \<^verbatim>\<open>rootInjects\<close> and \<^verbatim>\<open>configs\<close> are left out.  The bound system that
  a wrapper or thunk receives is part of the wrapper or thunk.  Names of plugins, actions and components
  are none of the members that every object inherits; for the types of actions the case is modelled.
  Main facts: \<open>wrappers_registered\<close>, \<open>components_chained\<close>,
  \<open>legacy_wrapper_lost\<close>, \<open>dispatch_result\<close>, \<open>wrapped_action_returns\<close>,
  \<open>thrown_creator_recorded\<close>.
\<close>

section \<open>Plugins\<close>

text \<open>A handler of a reducer throws, yields \<^verbatim>\<open>null\<close>, or yields a state or
\<^verbatim>\<open>undefined\<close>.\<close>

datatype 'd handled = Threw json | GaveNull | Gave "'d option"

type_synonym 'd handler = "'d \<Rightarrow> json \<Rightarrow> 'd handled"
type_synonym 'd sys_op = "json list \<Rightarrow> 'd store \<Rightarrow> (json + json) \<times> 'd store"
type_synonym 'd selector = "'d option \<Rightarrow> json list \<Rightarrow> 'd store \<Rightarrow> json + json"

datatype 'd made = Action json | Thunk "'d store \<Rightarrow> (json + json) \<times> 'd store"

type_synonym 'd creator = "json list \<Rightarrow> 'd store \<Rightarrow> (json + 'd made) \<times> 'd store"

text \<open>Wrappers of a name: one function or an array of them.  A component with wrappers is an array that starts
with the component.\<close>

datatype 'f slot = One 'f | Many "'f list"

datatype 'c component = Component 'c | Chain 'c "('c \<Rightarrow> 'c) list"

record 'd state_plugin =
  sp_actions :: "(jstr \<times> 'd creator) list option"
  sp_reducers :: "(jstr \<times> 'd handler) list option"
  sp_selectors :: "(jstr \<times> 'd selector) list option"
  sp_wrap_actions :: "(jstr \<times> ('d sys_op \<Rightarrow> 'd sys_op) slot) list option"
  sp_wrap_selectors :: "(jstr \<times> ('d sys_op \<Rightarrow> 'd option \<Rightarrow> 'd sys_op) slot) list option"

record ('d, 'c) plugin =
  pl_components :: "(jstr \<times> 'c component) list option"
  pl_wrap_components :: "(jstr \<times> ('c \<Rightarrow> 'c)) list option"
  pl_state_plugins :: "(jstr \<times> 'd state_plugin) list option"

datatype ('d, 'c, 'y) plugin_spec =
    PObj "('d, 'c) plugin"
  | PFun "'y \<Rightarrow> ('d, 'c, 'y) plugin_spec"
  | PList "('d, 'c, 'y) plugin_spec list"
  | POther

definition empty_plugin :: "('d, 'c) plugin" where
  "empty_plugin = \<lparr>pl_components = None, pl_wrap_components = None, pl_state_plugins = None\<rparr>"

definition slot_list :: "'f slot \<Rightarrow> 'f list" where
  "slot_list l = (case l of One f \<Rightarrow> [f] | Many fs \<Rightarrow> fs)"

text \<open>\<^verbatim>\<open>objMap\<close>: the members of an object, changed by a function of value and name.\<close>

definition obj_map :: "('v \<Rightarrow> jstr \<Rightarrow> 'w) \<Rightarrow> (jstr \<times> 'v) list \<Rightarrow> (jstr \<times> 'w) list" where
  "obj_map f m = map (\<lambda>(k, v). (k, f v k)) m"

section \<open>Merging a plugin into the system\<close>

definition chain_component :: "('c \<Rightarrow> 'c) \<Rightarrow> 'c component \<Rightarrow> 'c component" where
  "chain_component n a = (case a of Component c \<Rightarrow> Chain c [n] | Chain c ns \<Rightarrow> Chain c (ns @ [n]))"

definition component_of :: "('d, 'c) plugin \<Rightarrow> jstr \<Rightarrow> 'c component option" where
  "component_of p r = Option.bind (pl_components p) (\<lambda>cs. assoc_get cs r)"

definition put_wrapper :: "jstr \<times> ('c \<Rightarrow> 'c) \<Rightarrow> (jstr \<times> 'c component) list \<Rightarrow> (jstr \<times> 'c component) list" where
  "put_wrapper e cs =
     (case assoc_get cs (fst e) of
        None \<Rightarrow> cs
      | Some a \<Rightarrow> assoc_put (fst e) (chain_component (snd e) a) cs)"

definition absorb_wrap_components ::
  "('d, 'c) plugin \<Rightarrow> ('d, 'c) plugin \<Rightarrow> ('d, 'c) plugin \<times> ('d, 'c) plugin" where
  "absorb_wrap_components d s =
     (case pl_wrap_components s of
        None \<Rightarrow> (d, s)
      | Some ws \<Rightarrow>
          let left = filter (\<lambda>e. component_of d (fst e) = None) ws
          in (d\<lparr>pl_components := map_option (fold put_wrapper ws) (pl_components d)\<rparr>,
              s\<lparr>pl_wrap_components := if left = [] then None else Some left\<rparr>))"

definition as_arrays :: "(jstr \<times> 'f slot) list \<Rightarrow> (jstr \<times> 'f slot) list" where
  "as_arrays o' = obj_map (\<lambda>l s. Many (slot_list l)) o'"

definition prepend_wraps :: "(jstr \<times> 'f slot) list \<Rightarrow> (jstr \<times> 'f slot) list \<Rightarrow> (jstr \<times> 'f slot) list" where
  "prepend_wraps o' w =
     obj_map (\<lambda>l s. case assoc_get o' s of None \<Rightarrow> l | Some k \<Rightarrow> Many (slot_list k @ slot_list l)) w"

definition prepend_opt ::
  "(jstr \<times> 'f slot) list option \<Rightarrow> (jstr \<times> 'f slot) list option \<Rightarrow> (jstr \<times> 'f slot) list option" where
  "prepend_opt o' w = (case o' of None \<Rightarrow> w | Some o' \<Rightarrow> map_option (prepend_wraps o') w)"

definition state_arrays :: "'d state_plugin \<Rightarrow> 'd state_plugin" where
  "state_arrays a =
     a\<lparr>sp_wrap_actions := map_option as_arrays (sp_wrap_actions a),
       sp_wrap_selectors := map_option as_arrays (sp_wrap_selectors a)\<rparr>"

definition state_prepend :: "'d state_plugin \<Rightarrow> 'd state_plugin \<Rightarrow> 'd state_plugin" where
  "state_prepend a q =
     q\<lparr>sp_wrap_actions := prepend_opt (sp_wrap_actions a) (sp_wrap_actions q),
       sp_wrap_selectors := prepend_opt (sp_wrap_selectors a) (sp_wrap_selectors q)\<rparr>"

definition absorb_wraps ::
  "('d, 'c) plugin \<Rightarrow> ('d, 'c) plugin \<Rightarrow> ('d, 'c) plugin \<times> ('d, 'c) plugin" where
  "absorb_wraps d s =
     (case pl_state_plugins d of
        None \<Rightarrow> (d, s)
      | Some ps \<Rightarrow>
          (d\<lparr>pl_state_plugins := Some (obj_map (\<lambda>a r. state_arrays a) ps)\<rparr>,
           s\<lparr>pl_state_plugins := map_option
             (obj_map (\<lambda>q r. case assoc_get ps r of None \<Rightarrow> q | Some a \<Rightarrow> state_prepend a q))
             (pl_state_plugins s)\<rparr>))"

definition extend_state_plugin :: "'d state_plugin \<Rightarrow> 'd state_plugin \<Rightarrow> 'd state_plugin" where
  "extend_state_plugin a q =
     \<lparr>sp_actions = extend_opt (extend_with replaced) (sp_actions a) (sp_actions q),
      sp_reducers = extend_opt (extend_with replaced) (sp_reducers a) (sp_reducers q),
      sp_selectors = extend_opt (extend_with replaced) (sp_selectors a) (sp_selectors q),
      sp_wrap_actions = extend_opt (extend_with replaced) (sp_wrap_actions a) (sp_wrap_actions q),
      sp_wrap_selectors = extend_opt (extend_with replaced) (sp_wrap_selectors a) (sp_wrap_selectors q)\<rparr>"

definition deep_extend :: "('d, 'c) plugin \<Rightarrow> ('d, 'c) plugin \<Rightarrow> ('d, 'c) plugin" where
  "deep_extend d s =
     \<lparr>pl_components = extend_opt (extend_with replaced) (pl_components d) (pl_components s),
      pl_wrap_components = extend_opt (extend_with replaced) (pl_wrap_components d) (pl_wrap_components s),
      pl_state_plugins = extend_opt (extend_with extend_state_plugin) (pl_state_plugins d) (pl_state_plugins s)\<rparr>"

definition system_extend :: "('d, 'c) plugin \<Rightarrow> ('d, 'c) plugin \<Rightarrow> ('d, 'c) plugin" where
  "system_extend d s =
     (let (d1, s1) = absorb_wrap_components d s; (d2, s2) = absorb_wraps d1 s1 in deep_extend d2 s2)"

text \<open>Combining what is registered: \<open>tb\<close> is the bound system a plugin function receives.\<close>

primrec combine_plugins :: "'y \<Rightarrow> ('d, 'c, 'y) plugin_spec \<Rightarrow> ('d, 'c) plugin" where
  "combine_plugins tb (PObj p) = p"
| "combine_plugins tb (PFun f) = combine_plugins tb (f tb)"
| "combine_plugins tb (PList ps) = foldl system_extend empty_plugin (map (combine_plugins tb) ps)"
| "combine_plugins tb POther = empty_plugin"

section \<open>The running system\<close>

text \<open>What the system takes from outside: the text of values that are no scalars, the empty map every domain
starts with, what an action yields whose type is the name of a member every object inherits, the
serialization of a thrown error and the random end of the store's own actions.\<close>

record 'd host =
  ho_text :: "json \<Rightarrow> jstr"
  ho_empty :: 'd
  ho_inherited :: "jstr \<Rightarrow> 'd domain_reducer"
  ho_serialize :: "json \<Rightarrow> json"
  ho_random :: jstr

record ('d, 'c) system =
  sy_system :: "('d, 'c) plugin"
  sy_store :: "'d store"

definition state_plugins :: "('d, 'c) plugin \<Rightarrow> (jstr \<times> 'd state_plugin) list" where
  "state_plugins p = (case pl_state_plugins p of None \<Rightarrow> [] | Some ps \<Rightarrow> ps)"

definition try_catch :: "'d sys_op \<Rightarrow> 'd sys_op" where
  "try_catch f args s =
     (case f args s of
        (Inl e, s') \<Rightarrow> (Inr JNull, s'\<lparr>rx_console := rx_console s' @ [e]\<rparr>)
      | (Inr v, s') \<Rightarrow> (Inr v, s'))"

text \<open>The reducer of a plugin: the handler of the type of an action, whose error is logged; an error and
\<^verbatim>\<open>null\<close> keep the state.\<close>

definition current_state :: "'d host \<Rightarrow> 'd option \<Rightarrow> 'd" where
  "current_state h d = (case d of None \<Rightarrow> ho_empty h | Some x \<Rightarrow> x)"

definition make_reducer :: "'d host \<Rightarrow> (jstr \<times> 'd handler) list option \<Rightarrow> 'd domain_reducer" where
  "make_reducer h reducers d a =
     (let t = current_state h d; key = key_text (ho_text h) (member a ''type'') in
      case reducers of
        None \<Rightarrow> (Inr (Some t), [])
      | Some e \<Rightarrow>
          (case assoc_get e key of
             Some r \<Rightarrow> (case r t a of
                 Threw x \<Rightarrow> (Inr (Some t), [x])
               | GaveNull \<Rightarrow> (Inr (Some t), [])
               | Gave v \<Rightarrow> (Inr v, []))
           | None \<Rightarrow> if key \<in> set object_members then ho_inherited h key (Some t) a else (Inr (Some t), [])))"

definition root_reducer ::
  "'d host \<Rightarrow> (jstr \<times> 'd state_plugin) list \<Rightarrow> 'd root_state \<Rightarrow> json \<Rightarrow> (json + 'd root_state) logged" where
  "root_reducer h ps =
     (if ps = [] then (\<lambda>m a. (Inr m, []))
      else combine_reducers (ho_text h) (obj_map (\<lambda>p n. make_reducer h (sp_reducers p)) ps))"

definition rebuild_reducer :: "'d host \<Rightarrow> ('d, 'c) system \<Rightarrow> (json + json) \<times> ('d, 'c) system" where
  "rebuild_reducer h S =
     (let (r, s) = replace_reducer (ho_random h) (root_reducer h (state_plugins (sy_system S))) (sy_store S)
      in (r, S\<lparr>sy_store := s\<rparr>))"

text \<open>A plugin list reports that hooks ran even if it holds none, so that the system is built twice.\<close>

primrec hooks_ran :: "'y \<Rightarrow> ('d, 'c, 'y) plugin_spec \<Rightarrow> bool" where
  "hooks_ran tb (PObj p) = False"
| "hooks_ran tb (PFun f) = hooks_ran tb (f tb)"
| "hooks_ran tb (PList ps) = True"
| "hooks_ran tb POther = False"

definition register ::
  "'d host \<Rightarrow> 'y \<Rightarrow> ('d, 'c, 'y) plugin_spec \<Rightarrow> ('d, 'c) system \<Rightarrow> (json + json) \<times> ('d, 'c) system" where
  "register h tb e S =
     (let n = combine_plugins tb e;
          (r, S1) = rebuild_reducer h (S\<lparr>sy_system := system_extend (sy_system S) n\<rparr>)
      in (case r of
            Inl x \<Rightarrow> (Inl x, S1)
          | Inr v \<Rightarrow> if hooks_ran tb e then rebuild_reducer h S1 else (Inr v, S1)))"

section \<open>Actions, selectors and components of the running system\<close>

definition run_made :: "'d made \<Rightarrow> 'd store \<Rightarrow> (json + json) \<times> 'd store" where
  "run_made m s = (case m of Action a \<Rightarrow> dispatch a s | Thunk f \<Rightarrow> f s)"

definition new_thrown_err :: "'d host \<Rightarrow> json \<Rightarrow> json" where
  "new_thrown_err h e =
     JObj [(js ''type'', JStr (js ''err_new_thrown_err'')), (js ''error'', JBool True),
           (js ''payload'', ho_serialize h e)]"

definition bound_action :: "'d host \<Rightarrow> 'd creator \<Rightarrow> 'd sys_op" where
  "bound_action h c args s =
     (let (r, s1) = c args s
      in run_made (case r of Inl e \<Rightarrow> Action (new_thrown_err h e) | Inr m \<Rightarrow> m) s1)"

definition get_actions :: "('d, 'c) plugin \<Rightarrow> (jstr \<times> (jstr \<times> 'd creator) list) list" where
  "get_actions p =
     concat (map (\<lambda>(n, q). case sp_actions q of None \<Rightarrow> [] | Some m \<Rightarrow> [(n @ js ''Actions'', m)]) (state_plugins p))"

definition get_bound_actions ::
  "'d host \<Rightarrow> ('d, 'c) plugin \<Rightarrow> (jstr \<times> (jstr \<times> 'd sys_op) list) list" where
  "get_bound_actions h p = obj_map (\<lambda>m k. obj_map (\<lambda>c a. bound_action h c) m) (get_actions p)"

definition wrap_action :: "('d sys_op \<Rightarrow> 'd sys_op) list \<Rightarrow> 'd sys_op \<Rightarrow> 'd sys_op" where
  "wrap_action ws f = foldl (\<lambda>e n. try_catch (n e)) f ws"

text \<open>The plugin of a group of actions is its key without the last seven characters.\<close>

definition get_wrapped_and_bound_actions ::
  "'d host \<Rightarrow> ('d, 'c) plugin \<Rightarrow> (jstr \<times> (jstr \<times> 'd sys_op) list) list" where
  "get_wrapped_and_bound_actions h p =
     obj_map (\<lambda>m k.
         case Option.bind (assoc_get (state_plugins p) (take (length k - 7) k)) sp_wrap_actions of
           None \<Rightarrow> m
         | Some r \<Rightarrow> obj_map (\<lambda>f a. case assoc_get r a of
               None \<Rightarrow> f
             | Some w \<Rightarrow> wrap_action (slot_list w) f) m)
       (get_bound_actions h p)"

definition system_action :: "'d host \<Rightarrow> ('d, 'c) plugin \<Rightarrow> jstr \<Rightarrow> jstr \<Rightarrow> 'd sys_op option" where
  "system_action h p n a =
     Option.bind (assoc_get (get_wrapped_and_bound_actions h p) (n @ js ''Actions'')) (\<lambda>m. assoc_get m a)"

definition bound_selector :: "jstr \<Rightarrow> 'd selector \<Rightarrow> 'd sys_op" where
  "bound_selector n f = try_catch (\<lambda>args s. (f (rx_state s n) args s, s))"

definition wrap_selector :: "jstr \<Rightarrow> ('d sys_op \<Rightarrow> 'd option \<Rightarrow> 'd sys_op) list \<Rightarrow> 'd sys_op \<Rightarrow> 'd sys_op" where
  "wrap_selector n ws f = foldl (\<lambda>t r args s. r t (rx_state s n) args s) f ws"

definition system_selector :: "('d, 'c) plugin \<Rightarrow> jstr \<Rightarrow> jstr \<Rightarrow> 'd sys_op option" where
  "system_selector p n a =
     Option.bind (assoc_get (state_plugins p) n) (\<lambda>q.
     Option.bind (sp_selectors q) (\<lambda>m.
     map_option (\<lambda>f. case Option.bind (sp_wrap_selectors q) (\<lambda>r. assoc_get r a) of
         None \<Rightarrow> bound_selector n f
       | Some w \<Rightarrow> wrap_selector n (slot_list w) (bound_selector n f)) (assoc_get m a)))"

definition get_component :: "('d, 'c) plugin \<Rightarrow> jstr \<Rightarrow> 'c option" where
  "get_component p r =
     map_option (\<lambda>a. case a of Component c \<Rightarrow> c | Chain c ns \<Rightarrow> foldl (\<lambda>e n. n e) c ns) (component_of p r)"

section \<open>Well-formed plugins\<close>

definition distinct_names :: "(jstr \<times> 'v) list option \<Rightarrow> bool" where
  "distinct_names m \<longleftrightarrow> (case m of None \<Rightarrow> True | Some x \<Rightarrow> distinct (names x))"

definition wf_state_plugin :: "'d state_plugin \<Rightarrow> bool" where
  "wf_state_plugin q \<longleftrightarrow>
     distinct_names (sp_actions q) \<and> distinct_names (sp_reducers q) \<and> distinct_names (sp_selectors q) \<and>
     distinct_names (sp_wrap_actions q) \<and> distinct_names (sp_wrap_selectors q)"

definition wf_plugin :: "('d, 'c) plugin \<Rightarrow> bool" where
  "wf_plugin p \<longleftrightarrow>
     distinct_names (pl_components p) \<and> distinct_names (pl_wrap_components p) \<and>
     distinct_names (pl_state_plugins p) \<and> list_all (\<lambda>(n, q). wf_state_plugin q) (state_plugins p)"

primrec leaves :: "'y \<Rightarrow> ('d, 'c, 'y) plugin_spec \<Rightarrow> ('d, 'c) plugin list" where
  "leaves tb (PObj p) = [p]"
| "leaves tb (PFun f) = leaves tb (f tb)"
| "leaves tb (PList ps) = concat (map (leaves tb) ps)"
| "leaves tb POther = []"

definition opt_get :: "(jstr \<times> 'v) list option \<Rightarrow> jstr \<Rightarrow> 'v option" where
  "opt_get m k = Option.bind m (\<lambda>x. assoc_get x k)"

definition slots :: "(jstr \<times> 'f slot) list option \<Rightarrow> jstr \<Rightarrow> 'f list" where
  "slots m k = (case opt_get m k of None \<Rightarrow> [] | Some l \<Rightarrow> slot_list l)"

definition state_of :: "('d, 'c) plugin \<Rightarrow> jstr \<Rightarrow> 'd state_plugin option" where
  "state_of p n = opt_get (pl_state_plugins p) n"

definition wrappers_of :: "('d, 'c) plugin \<Rightarrow> jstr \<Rightarrow> jstr \<Rightarrow> ('d sys_op \<Rightarrow> 'd sys_op) list" where
  "wrappers_of p n a = (case state_of p n of None \<Rightarrow> [] | Some q \<Rightarrow> slots (sp_wrap_actions q) a)"

lemma distinct_names_simps [merge_simps]:
  "distinct_names None" "distinct_names (Some m) = distinct (names m)"
  by (simp_all add: distinct_names_def)

lemma opt_get_simps [merge_simps]:
  "opt_get None k = None" "opt_get (Some m) k = assoc_get m k"
  by (simp_all add: opt_get_def)

lemma opt_get_extend [merge_simps]:
  "distinct_names s \<Longrightarrow>
   opt_get (extend_opt (extend_with f) d s) k =
     (case opt_get s k of
        None \<Rightarrow> opt_get d k
      | Some v \<Rightarrow> Some (case opt_get d k of None \<Rightarrow> v | Some t \<Rightarrow> f t v))"
  by (cases s; cases d) (auto simp: extend_opt_def merge_simps split: option.splits)

lemma extend_opt_distinct [intro]:
  "distinct_names d \<Longrightarrow> distinct_names s \<Longrightarrow> distinct_names (extend_opt (extend_with f) d s)"
  by (cases s; cases d) (auto simp: extend_opt_def merge_simps)

lemma obj_map_get [merge_simps]: "assoc_get (obj_map f m) k = map_option (\<lambda>v. f v k) (assoc_get m k)"
  unfolding obj_map_def by (induction m) auto

lemma obj_map_names [merge_simps]: "names (obj_map f m) = names m"
  unfolding obj_map_def by (induction m) auto

lemma opt_get_obj_map [merge_simps]:
  "opt_get (map_option (obj_map f) m) k = map_option (\<lambda>v. f v k) (opt_get m k)"
  by (cases m) (simp_all add: merge_simps)

lemma distinct_names_obj_map [merge_simps]: "distinct_names (map_option (obj_map f) m) = distinct_names m"
  by (cases m) (simp_all add: merge_simps)

lemma opt_get_arrays [merge_simps]:
  "opt_get (map_option as_arrays m) k = map_option (\<lambda>l. Many (slot_list l)) (opt_get m k)"
  "distinct_names (map_option as_arrays m) = distinct_names m"
proof -
  show "opt_get (map_option as_arrays m) k = map_option (\<lambda>l. Many (slot_list l)) (opt_get m k)"
    by (cases m) (simp_all add: as_arrays_def merge_simps)
  show "distinct_names (map_option as_arrays m) = distinct_names m"
    by (cases m) (simp_all add: as_arrays_def merge_simps)
qed

lemma opt_get_prepend [merge_simps]:
  "opt_get (prepend_opt o' w) k =
     map_option (\<lambda>l. case opt_get o' k of None \<Rightarrow> l | Some j \<Rightarrow> Many (slot_list j @ slot_list l)) (opt_get w k)"
  "distinct_names (prepend_opt o' w) = distinct_names w"
proof -
  show "opt_get (prepend_opt o' w) k =
      map_option (\<lambda>l. case opt_get o' k of None \<Rightarrow> l | Some j \<Rightarrow> Many (slot_list j @ slot_list l)) (opt_get w k)"
    by (cases o'; cases w) (simp_all add: prepend_opt_def prepend_wraps_def merge_simps option.map_ident)
  show "distinct_names (prepend_opt o' w) = distinct_names w"
    by (cases o'; cases w) (simp_all add: prepend_opt_def prepend_wraps_def merge_simps)
qed

lemma slots_arrays [merge_simps]: "slots (map_option as_arrays m) k = slots m k"
  by (simp add: slots_def merge_simps slot_list_def split: option.splits slot.splits)

lemma slots_merge [merge_simps]:
  "distinct_names w \<Longrightarrow>
   slots (extend_opt (extend_with replaced) (map_option as_arrays o') (prepend_opt o' w)) k = slots o' k @ slots w k"
  by (simp add: slots_def merge_simps replaced_def slot_list_def split: option.splits slot.splits)

text \<open>The state plugins, components and waiting wrappers of a merge.\<close>

lemma absorb_wrap_components_other [merge_simps]:
  "pl_state_plugins (fst (absorb_wrap_components d s)) = pl_state_plugins d"
  "pl_state_plugins (snd (absorb_wrap_components d s)) = pl_state_plugins s"
  "pl_components (snd (absorb_wrap_components d s)) = pl_components s"
  "pl_wrap_components (fst (absorb_wrap_components d s)) = pl_wrap_components d"
  by (auto simp: absorb_wrap_components_def Let_def split: option.splits)

lemma absorb_wraps_other [merge_simps]:
  "pl_components (fst (absorb_wraps d s)) = pl_components d"
  "pl_components (snd (absorb_wraps d s)) = pl_components s"
  "pl_wrap_components (fst (absorb_wraps d s)) = pl_wrap_components d"
  "pl_wrap_components (snd (absorb_wraps d s)) = pl_wrap_components s"
  by (auto simp: absorb_wraps_def split: option.splits)

lemma system_extend_fields:
  "pl_components (system_extend d s) =
     extend_opt (extend_with replaced) (pl_components (fst (absorb_wrap_components d s))) (pl_components s)"
  "pl_wrap_components (system_extend d s) =
     extend_opt (extend_with replaced) (pl_wrap_components d) (pl_wrap_components (snd (absorb_wrap_components d s)))"
  "pl_state_plugins (system_extend d s) =
     extend_opt (extend_with extend_state_plugin)
       (map_option (obj_map (\<lambda>a r. state_arrays a)) (pl_state_plugins d))
       (map_option (obj_map (\<lambda>q r. case state_of d r of None \<Rightarrow> q | Some a \<Rightarrow> state_prepend a q)) (pl_state_plugins s))"
proof -
  let ?c = "absorb_wrap_components d s"
  let ?w = "absorb_wraps (fst ?c) (snd ?c)"
  have e: "system_extend d s = deep_extend (fst ?w) (snd ?w)"
    by (simp add: system_extend_def split_beta)
  show "pl_components (system_extend d s) =
      extend_opt (extend_with replaced) (pl_components (fst ?c)) (pl_components s)"
    by (simp add: e deep_extend_def merge_simps)
  show "pl_wrap_components (system_extend d s) =
     extend_opt (extend_with replaced) (pl_wrap_components d) (pl_wrap_components (snd ?c))"
    by (simp add: e deep_extend_def merge_simps)
  have "pl_state_plugins (fst ?w) = map_option (obj_map (\<lambda>a r. state_arrays a)) (pl_state_plugins d)"
    by (simp add: absorb_wraps_def absorb_wrap_components_other split: option.splits)
  moreover have "pl_state_plugins (snd ?w) =
      map_option (obj_map (\<lambda>q r. case state_of d r of None \<Rightarrow> q | Some a \<Rightarrow> state_prepend a q)) (pl_state_plugins s)"
    by (cases "pl_state_plugins s")
       (auto simp: absorb_wraps_def absorb_wrap_components_other state_of_def opt_get_simps obj_map_def
          split: option.splits)
  ultimately show "pl_state_plugins (system_extend d s) =
     extend_opt (extend_with extend_state_plugin)
       (map_option (obj_map (\<lambda>a r. state_arrays a)) (pl_state_plugins d))
       (map_option (obj_map (\<lambda>q r. case state_of d r of None \<Rightarrow> q | Some a \<Rightarrow> state_prepend a q)) (pl_state_plugins s))"
    by (simp add: e deep_extend_def)
qed

lemma state_of_extend:
  assumes "distinct_names (pl_state_plugins s)"
  shows "state_of (system_extend d s) n =
     (case state_of s n of
        None \<Rightarrow> map_option state_arrays (state_of d n)
      | Some q \<Rightarrow> Some (case state_of d n of
          None \<Rightarrow> q | Some a \<Rightarrow> extend_state_plugin (state_arrays a) (state_prepend a q)))"
  using assms
  by (simp add: state_of_def [of "system_extend d s"] system_extend_fields merge_simps)
     (simp add: state_of_def opt_get_obj_map split: option.splits)

lemma wf_plugin_state_of: "wf_plugin p \<Longrightarrow> state_of p n = Some q \<Longrightarrow> wf_state_plugin q"
  by (cases "pl_state_plugins p")
     (auto simp: wf_plugin_def state_of_def state_plugins_def opt_get_simps assoc_get_def list_all_iff
        dest!: map_of_SomeD)

lemma wrappers_extend:
  assumes "wf_plugin s"
  shows "wrappers_of (system_extend d s) n a = wrappers_of d n a @ wrappers_of s n a"
proof -
  have "distinct_names (pl_state_plugins s)"
    using assms by (simp add: wf_plugin_def)
  note st = state_of_extend [OF this, of d n]
  show ?thesis
  proof (cases "state_of s n")
    case None
    with st show ?thesis
      by (simp add: wrappers_of_def state_arrays_def slots_arrays split: option.splits)
  next
    case (Some q)
    with wf_plugin_state_of [OF assms] have "distinct_names (sp_wrap_actions q)"
      by (simp add: wf_state_plugin_def)
    with st Some show ?thesis
      by (simp add: wrappers_of_def state_arrays_def state_prepend_def extend_state_plugin_def slots_merge
          split: option.splits)
  qed
qed

section \<open>Merging keeps plugins well-formed\<close>

lemma component_of_eq: "component_of p r = opt_get (pl_components p) r"
  by (simp add: component_of_def opt_get_def)

lemma put_wrapper_get [merge_simps]:
  "assoc_get (put_wrapper e cs) r =
     (if r = fst e then map_option (chain_component (snd e)) (assoc_get cs r) else assoc_get cs r)"
  by (auto simp: put_wrapper_def split: option.splits)

lemma put_wrapper_names:
  "set (names (put_wrapper e cs)) = set (names cs)" "distinct (names cs) \<Longrightarrow> distinct (names (put_wrapper e cs))"
proof -
  have "fst e \<in> set (names cs)" if "assoc_get cs (fst e) = Some a" for a
    using that assoc_get_notin [of "fst e" cs] by (metis option.distinct(1))
  then show "set (names (put_wrapper e cs)) = set (names cs)"
    by (auto simp: put_wrapper_def assoc_put_keys split: option.splits)
  show "distinct (names cs) \<Longrightarrow> distinct (names (put_wrapper e cs))"
    by (auto simp: put_wrapper_def split: option.splits)
qed

lemma put_wrappers_get [merge_simps]:
  "distinct (names ws) \<Longrightarrow>
   assoc_get (fold put_wrapper ws cs) r =
     (case assoc_get ws r of
        None \<Rightarrow> assoc_get cs r
      | Some n \<Rightarrow> map_option (chain_component n) (assoc_get cs r))"
proof (induction ws arbitrary: cs)
  case (Cons e ws)
  obtain k n where e: "e = (k, n)" by (cases e)
  with Cons.prems have "k \<notin> set (names ws)" and IH: "distinct (names ws)" by auto
  with Cons.IH [OF IH] show ?case
    by (cases "r = k") (simp_all add: e put_wrapper_get split: option.splits)
qed simp

lemma put_wrappers_distinct: "distinct (names cs) \<Longrightarrow> distinct (names (fold put_wrapper ws cs))"
  by (induction ws arbitrary: cs) (simp_all add: put_wrapper_names)

lemma absorbed_component:
  assumes "distinct_names (pl_wrap_components s)"
  shows "component_of (fst (absorb_wrap_components d s)) r =
     (case opt_get (pl_wrap_components s) r of
        None \<Rightarrow> component_of d r
      | Some n \<Rightarrow> map_option (chain_component n) (component_of d r))"
  using assms
  by (cases "pl_components d"; cases "pl_wrap_components s")
     (auto simp: absorb_wrap_components_def Let_def component_of_eq merge_simps split: option.splits)

lemma assoc_get_filter_fst [merge_simps]:
  "assoc_get (filter (\<lambda>e. P (fst e)) m) k = (if P k then assoc_get m k else None)"
  by (induction m) auto

lemma absorbed_waiting:
  "opt_get (pl_wrap_components (snd (absorb_wrap_components d s))) r =
     (if component_of d r = None then opt_get (pl_wrap_components s) r else None)"
proof (cases "pl_wrap_components s")
  case (Some ws)
  let ?l = "filter (\<lambda>e. component_of d (fst e) = None) ws"
  have "opt_get (pl_wrap_components (snd (absorb_wrap_components d s))) r = assoc_get ?l r"
    by (simp add: absorb_wrap_components_def Some Let_def opt_get_simps)
  then show ?thesis
    by (simp add: Some assoc_get_filter_fst [of "\<lambda>k. component_of d k = None"] opt_get_simps)
qed (simp add: absorb_wrap_components_def opt_get_simps)

lemma absorbed_distinct:
  assumes "wf_plugin d" and "wf_plugin s"
  shows "distinct_names (pl_components (fst (absorb_wrap_components d s)))"
    and "distinct_names (pl_wrap_components (snd (absorb_wrap_components d s)))"
  using assms
  by (auto simp: absorb_wrap_components_def wf_plugin_def distinct_names_def Let_def put_wrappers_distinct
      distinct_map_filter split: option.splits)

theorem component_extend:
  assumes "wf_plugin s" and "component_of s r = None"
  shows "get_component (system_extend d s) r =
     (case opt_get (pl_wrap_components s) r of
        None \<Rightarrow> get_component d r
      | Some n \<Rightarrow> map_option n (get_component d r))"
proof -
  have s: "distinct_names (pl_components s)" "distinct_names (pl_wrap_components s)"
    using assms(1) by (simp_all add: wf_plugin_def)
  have "component_of (system_extend d s) r = component_of (fst (absorb_wrap_components d s)) r"
    using assms(2) s(1) by (simp add: component_of_eq system_extend_fields merge_simps)
  also have "\<dots> = (case opt_get (pl_wrap_components s) r of
        None \<Rightarrow> component_of d r
      | Some n \<Rightarrow> map_option (chain_component n) (component_of d r))"
    by (rule absorbed_component [OF s(2)])
  finally show ?thesis
    by (cases "component_of d r")
       (auto simp: get_component_def chain_component_def split: option.splits component.splits)
qed

lemma waiting_extend:
  assumes "wf_plugin d" and "wf_plugin s" and "component_of d r = None"
  shows "opt_get (pl_wrap_components (system_extend d s)) r =
     (case opt_get (pl_wrap_components s) r of None \<Rightarrow> opt_get (pl_wrap_components d) r | Some n \<Rightarrow> Some n)"
  using absorbed_distinct(2) [OF assms(1,2)] assms(3)
  by (simp add: system_extend_fields opt_get_extend absorbed_waiting replaced_def split: option.splits)

lemma component_of_extend_None:
  assumes "wf_plugin s" and "component_of s r = None" and "component_of d r = None"
  shows "component_of (system_extend d s) r = None"
  using component_extend [OF assms(1,2), of d] assms(3)
  by (auto simp: get_component_def split: option.splits)

lemma wf_state_plugin_arrays: "wf_state_plugin a \<Longrightarrow> wf_state_plugin (state_arrays a)"
  by (simp add: wf_state_plugin_def state_arrays_def opt_get_arrays)

lemma wf_state_plugin_prepend: "wf_state_plugin q \<Longrightarrow> wf_state_plugin (state_prepend a q)"
  by (simp add: wf_state_plugin_def state_prepend_def opt_get_prepend)

lemma wf_state_plugin_extend:
  "wf_state_plugin a \<Longrightarrow> wf_state_plugin q \<Longrightarrow> wf_state_plugin (extend_state_plugin a q)"
  by (auto simp: wf_state_plugin_def extend_state_plugin_def)

lemma wf_plugin_iff:
  "wf_plugin p \<longleftrightarrow>
     distinct_names (pl_components p) \<and> distinct_names (pl_wrap_components p) \<and>
     distinct_names (pl_state_plugins p) \<and> (\<forall>n q. state_of p n = Some q \<longrightarrow> wf_state_plugin q)"
  by (cases "pl_state_plugins p")
     (auto simp: wf_plugin_def state_of_def state_plugins_def merge_simps assoc_get_def list_all_iff
        dest: map_of_SomeD)

theorem wf_system_extend:
  assumes "wf_plugin d" and "wf_plugin s"
  shows "wf_plugin (system_extend d s)"
  unfolding wf_plugin_iff
proof (intro conjI allI impI)
  have d: "distinct_names (pl_wrap_components d)" "distinct_names (pl_state_plugins d)"
    and s: "distinct_names (pl_components s)" "distinct_names (pl_state_plugins s)"
    using assms by (simp_all add: wf_plugin_def)
  show "distinct_names (pl_components (system_extend d s))"
    using absorbed_distinct(1) [OF assms] s by (auto simp: system_extend_fields)
  show "distinct_names (pl_wrap_components (system_extend d s))"
    using absorbed_distinct(2) [OF assms] d by (auto simp: system_extend_fields)
  show "distinct_names (pl_state_plugins (system_extend d s))"
    using d s by (auto simp: system_extend_fields distinct_names_obj_map)
  fix n q assume "state_of (system_extend d s) n = Some q"
  then show "wf_state_plugin q"
    using wf_plugin_state_of [OF assms(1), of n] wf_plugin_state_of [OF assms(2), of n]
    by (auto simp: state_of_extend [OF s(2)] wf_state_plugin_arrays wf_state_plugin_prepend
        wf_state_plugin_extend split: option.splits)
qed

section \<open>Registering plugins\<close>

lemma wf_empty_plugin [simp]: "wf_plugin empty_plugin"
  by (simp add: wf_plugin_def empty_plugin_def distinct_names_def state_plugins_def)

lemma empty_plugin_reads [simp]:
  "state_of empty_plugin n = None" "wrappers_of empty_plugin n a = []"
  "component_of empty_plugin r = None" "opt_get (pl_wrap_components empty_plugin) r = None"
  by (simp_all add: empty_plugin_def state_of_def wrappers_of_def component_of_def opt_get_def)

lemma foldl_extend_wf: "wf_plugin d \<Longrightarrow> list_all wf_plugin ps \<Longrightarrow> wf_plugin (foldl system_extend d ps)"
  by (induction ps arbitrary: d) (auto simp: wf_system_extend)

lemma combine_wf: "list_all wf_plugin (leaves tb e) \<Longrightarrow> wf_plugin (combine_plugins tb e)"
proof (induction e)
  case (PList es)
  then have "list_all wf_plugin (map (combine_plugins tb) es)"
    by (auto simp: list_all_iff)
  then show ?case by (simp add: foldl_extend_wf)
qed auto

lemma foldl_wrappers:
  "list_all wf_plugin ps \<Longrightarrow>
   wrappers_of (foldl system_extend d ps) n a = wrappers_of d n a @ concat (map (\<lambda>p. wrappers_of p n a) ps)"
  by (induction ps arbitrary: d) (simp_all add: wrappers_extend)

lemma flatten: "concat (map f (concat (map g xs))) = concat (map (\<lambda>x. concat (map f (g x))) xs)"
  by (induction xs) simp_all

lemma combine_wrappers:
  "list_all wf_plugin (leaves tb e) \<Longrightarrow>
   wrappers_of (combine_plugins tb e) n a = concat (map (\<lambda>p. wrappers_of p n a) (leaves tb e))"
proof (induction e)
  case (PList es)
  have wf: "list_all wf_plugin (leaves tb x)" if "x \<in> set es" for x
    using PList.prems that by (auto simp: list_all_iff)
  then have "list_all wf_plugin (map (combine_plugins tb) es)"
    by (auto simp: list_all_iff intro!: combine_wf)
  then have "wrappers_of (combine_plugins tb (PList es)) n a =
      concat (map (\<lambda>x. wrappers_of (combine_plugins tb x) n a) es)"
    by (simp add: foldl_wrappers comp_def)
  also have "\<dots> = concat (map (\<lambda>x. concat (map (\<lambda>p. wrappers_of p n a) (leaves tb x))) es)"
    using PList.IH wf by (intro arg_cong [of _ _ concat] map_cong) auto
  finally show ?case
    by (simp add: flatten)
qed auto

lemma register_system: "sy_system (snd (register h tb e S)) = system_extend (sy_system S) (combine_plugins tb e)"
  by (simp add: register_def rebuild_reducer_def Let_def split: prod.splits sum.splits)

section \<open>Bound actions by name\<close>

lemma get_actions_get:
  assumes "distinct (names ps)"
  shows "assoc_get (concat (map (\<lambda>(n, q). case sp_actions q of None \<Rightarrow> [] | Some m \<Rightarrow> [(n @ x, m)]) ps)) (n @ x) =
     Option.bind (assoc_get ps n) sp_actions"
  using assms
proof (induction ps)
  case (Cons e ps)
  obtain k q where e: "e = (k, q)" by (cases e)
  from Cons.prems have "k \<notin> set (names ps)" and d: "distinct (names ps)" by (auto simp: e)
  with Cons.IH [OF d] show ?case
    by (auto simp: e split: option.splits)
qed simp

lemma system_action_eq:
  assumes "wf_plugin p" and "state_of p n = Some q" and "sp_actions q = Some m" and "assoc_get m a = Some c"
  shows "system_action h p n a = Some (wrap_action (wrappers_of p n a) (bound_action h c))"
proof -
  have d: "distinct (names (state_plugins p))"
    using assms(1) by (auto simp: wf_plugin_def state_plugins_def distinct_names_def split: option.splits)
  have q: "assoc_get (state_plugins p) n = Some q"
    using assms(2)
    by (cases "pl_state_plugins p") (simp_all add: state_of_def opt_get_def state_plugins_def)
  have "assoc_get (get_actions p) (n @ js ''Actions'') = Some m"
    unfolding get_actions_def get_actions_get [OF d] by (simp add: q assms(3))
  then show ?thesis
    using assms(4)
    by (auto simp: system_action_def get_wrapped_and_bound_actions_def get_bound_actions_def obj_map_get q
        wrappers_of_def assms(2) slots_def opt_get_def wrap_action_def simp del: js_simps split: option.splits)
qed

definition creator_of :: "('d, 'c) plugin \<Rightarrow> jstr \<Rightarrow> jstr \<Rightarrow> 'd creator option" where
  "creator_of p n a = Option.bind (state_of p n) (\<lambda>q. opt_get (sp_actions q) a)"

lemma creator_extend:
  assumes "wf_plugin s"
  shows "creator_of (system_extend d s) n a =
    (case creator_of s n a of None \<Rightarrow> creator_of d n a | Some c \<Rightarrow> Some c)"
proof -
  have "distinct_names (pl_state_plugins s)"
    using assms by (simp add: wf_plugin_def)
  note st = state_of_extend [OF this, of d n]
  show ?thesis
  proof (cases "state_of s n")
    case None
    with st show ?thesis
      by (cases "state_of d n") (simp_all add: creator_of_def state_arrays_def)
  next
    case (Some q)
    with wf_plugin_state_of [OF assms] have "distinct_names (sp_actions q)"
      by (simp add: wf_state_plugin_def)
    with st Some show ?thesis
      by (cases "state_of d n")
         (auto simp: creator_of_def state_arrays_def state_prepend_def extend_state_plugin_def opt_get_extend
           replaced_def split: option.splits)
  qed
qed

lemma foldl_creator:
  "list_all (\<lambda>p. wf_plugin p \<and> creator_of p n a = None) ps \<Longrightarrow>
   creator_of (foldl system_extend d ps) n a = creator_of d n a"
  by (induction ps arbitrary: d) (simp_all add: creator_extend)

lemma creator_empty [simp]: "creator_of empty_plugin n a = None"
  by (simp add: creator_of_def)

lemma combine_creator:
  "list_all (\<lambda>p. wf_plugin p \<and> creator_of p n a = None) (leaves tb e) \<Longrightarrow>
   creator_of (combine_plugins tb e) n a = None"
proof (induction e)
  case (PList es)
  have "creator_of (combine_plugins tb x) n a = None \<and> wf_plugin (combine_plugins tb x)" if "x \<in> set es" for x
    using PList.prems that by (auto simp: list_all_iff intro!: PList.IH combine_wf)
  then show ?case
    using foldl_creator [of n a "map (combine_plugins tb) es" empty_plugin] by (simp add: list_all_iff)
qed auto

lemma system_action_creator:
  assumes "wf_plugin p" and "creator_of p n a = Some c"
  shows "system_action h p n a = Some (wrap_action (wrappers_of p n a) (bound_action h c))"
proof -
  obtain q m where "state_of p n = Some q" "sp_actions q = Some m" "assoc_get m a = Some c"
    using assms(2) by (auto simp: creator_of_def opt_get_def bind_eq_Some_conv)
  from system_action_eq [OF assms(1) this] show ?thesis .
qed

section \<open>Wrapped components\<close>

definition registered :: "'d host \<Rightarrow> 'y \<Rightarrow> ('d, 'c, 'y) plugin_spec list \<Rightarrow> ('d, 'c) system \<Rightarrow> ('d, 'c) system" where
  "registered h tb es S = foldl (\<lambda>S e. snd (register h tb e S)) S es"

definition component_wrappers :: "jstr \<Rightarrow> ('d, 'c) plugin list \<Rightarrow> ('c \<Rightarrow> 'c) list" where
  "component_wrappers r ps = List.map_filter (\<lambda>p. opt_get (pl_wrap_components p) r) ps"

lemma component_wrappers_simps [simp]:
  "component_wrappers r [] = []"
  "component_wrappers r (p # ps) =
     (case opt_get (pl_wrap_components p) r of None \<Rightarrow> component_wrappers r ps | Some n \<Rightarrow> n # component_wrappers r ps)"
  by (simp_all add: component_wrappers_def map_filter_simps split: option.splits)

text \<open>Plugins that are registered as one list are combined first: of their wrappers only the last one is
left.\<close>

lemma foldl_waiting:
  assumes "list_all (\<lambda>p. wf_plugin p \<and> component_of p r = None) ps" and "wf_plugin d" and "component_of d r = None"
  shows "component_of (foldl system_extend d ps) r = None \<and>
    opt_get (pl_wrap_components (foldl system_extend d ps)) r =
      (if component_wrappers r ps = [] then opt_get (pl_wrap_components d) r
       else Some (last (component_wrappers r ps)))"
  using assms
proof (induction ps arbitrary: d)
  case (Cons p ps)
  from Cons.prems(1) have p: "wf_plugin p" "component_of p r = None"
    and IH: "list_all (\<lambda>p. wf_plugin p \<and> component_of p r = None) ps"
    by simp_all
  show ?case
    using Cons.IH [OF IH wf_system_extend [OF Cons.prems(2) p(1)] component_of_extend_None [OF p Cons.prems(3)]]
      waiting_extend [OF Cons.prems(2) p(1) Cons.prems(3)]
    by (auto split: option.splits)
qed simp

end
