(* ===== verification/Plugin_Runtime.thy ===== *)
theory Plugin_Runtime
  imports Plugin_System
begin

text \<open>
  The plugin system at work: what a dispatched action does to the domains of the registered plugins, how the
  error plugin (\<open>Err_Store\<close>) takes part in it, and the properties of the whole: the order of
  wrappers (\<open>wrappers_registered\<close>, \<open>components_chained\<close>,
  \<open>legacy_wrapper_lost\<close>), the independence of the domains (\<open>domains_independent\<close>)
  and the record of errors that action creators throw (\<open>thrown_creator_recorded\<close>).
\<close>

section \<open>Dispatch in the built system\<close>

definition built :: "'d host \<Rightarrow> ('d, 'c) system \<Rightarrow> bool" where
  "built h S \<longleftrightarrow> rx_reducer (sy_store S) = root_reducer h (state_plugins (sy_system S))"

definition handler_of :: "'d state_plugin \<Rightarrow> jstr \<Rightarrow> 'd handler option" where
  "handler_of p t = opt_get (sp_reducers p) t"

text \<open>What the reducer of a plugin makes of a state for a type that is no inherited name.\<close>

definition next_state :: "'d state_plugin \<Rightarrow> jstr \<Rightarrow> 'd \<Rightarrow> json \<Rightarrow> 'd" where
  "next_state p t d a =
     (case handler_of p t of
        None \<Rightarrow> d
      | Some r \<Rightarrow> (case r d a of Gave (Some d') \<Rightarrow> d' | _ \<Rightarrow> d))"

lemma dispatch_reducer [simp]: "rx_reducer (snd (dispatch a s)) = rx_reducer s"
  by (simp add: dispatch_def Let_def split: prod.splits sum.splits)

lemma rebuild_built: "built h (snd (rebuild_reducer h S))" "sy_system (snd (rebuild_reducer h S)) = sy_system S"
proof -
  let ?s = "replace_reducer (ho_random h) (root_reducer h (state_plugins (sy_system S))) (sy_store S)"
  have "snd (rebuild_reducer h S) = S\<lparr>sy_store := snd ?s\<rparr>"
    by (simp add: rebuild_reducer_def split_beta)
  then show "built h (snd (rebuild_reducer h S))" "sy_system (snd (rebuild_reducer h S)) = sy_system S"
    by (simp_all add: built_def replace_reducer_def)
qed

lemma register_built: "built h (snd (register h tb e S))"
  by (simp add: register_def Let_def split_beta rebuild_built split: sum.splits)

lemma make_reducer_own:
  assumes "member a ''type'' = JStr t" and "t \<notin> set object_members"
    and "\<forall>r. handler_of p t = Some r \<longrightarrow> r (current_state h d) a \<noteq> Gave None"
  shows "fst (make_reducer h (sp_reducers p) d a) = Inr (Some (next_state p t (current_state h d) a))"
    and "set (snd (make_reducer h (sp_reducers p) d a)) =
      {x. \<exists>r. handler_of p t = Some r \<and> r (current_state h d) a = Threw x}"
  using assms
  by (auto simp: make_reducer_def next_state_def handler_of_def opt_get_def key_text_def Let_def
      split: option.splits handled.splits)

definition never_undefined :: "'d host \<Rightarrow> ('d, 'c) system \<Rightarrow> jstr \<Rightarrow> json \<Rightarrow> bool" where
  "never_undefined h S t a \<longleftrightarrow>
     (\<forall>n p r. state_of (sy_system S) n = Some p \<longrightarrow> handler_of p t = Some r \<longrightarrow>
        r (current_state h (rx_state (sy_store S) n)) a \<noteq> Gave None)"

definition thrown_by_handlers :: "'d host \<Rightarrow> ('d, 'c) system \<Rightarrow> jstr \<Rightarrow> json \<Rightarrow> json set" where
  "thrown_by_handlers h S t a =
     {x. \<exists>n p r. state_of (sy_system S) n = Some p \<and> handler_of p t = Some r \<and>
        r (current_state h (rx_state (sy_store S) n)) a = Threw x}"

lemma state_plugins_get: "state_of p n = assoc_get (state_plugins p) n"
  by (cases "pl_state_plugins p") (simp_all add: state_of_def opt_get_def state_plugins_def)

lemma state_plugins_distinct: "wf_plugin p \<Longrightarrow> distinct (names (state_plugins p))"
  by (auto simp: wf_plugin_def state_plugins_def distinct_names_def split: option.splits)

lemma state_plugins_member:
  "wf_plugin p \<Longrightarrow> (n, q) \<in> set (state_plugins p) \<longleftrightarrow> state_of p n = Some q"
  by (simp add: state_plugins_get assoc_get_def state_plugins_distinct)

lemma reducers_return:
  assumes "wf_plugin (sy_system S)" and "member a ''type'' = JStr t" and "t \<notin> set object_members"
    and "never_undefined h S t a" and "(n, p) \<in> set (state_plugins (sy_system S))"
  shows "\<exists>l. make_reducer h (sp_reducers p) (rx_state (sy_store S) n) a =
      (Inr (Some (next_state p t (current_state h (rx_state (sy_store S) n)) a)), l) \<and>
      set l = {x. \<exists>r. handler_of p t = Some r \<and> r (current_state h (rx_state (sy_store S) n)) a = Threw x}"
proof -
  have "\<forall>r. handler_of p t = Some r \<longrightarrow> r (current_state h (rx_state (sy_store S) n)) a \<noteq> Gave None"
    using assms(4,5) state_plugins_member [OF assms(1)] by (auto simp: never_undefined_def)
  from make_reducer_own [OF assms(2,3) this] show ?thesis
    by (intro exI [of _ "snd (make_reducer h (sp_reducers p) (rx_state (sy_store S) n) a)"])
       (simp add: prod_eq_iff)
qed

lemma root_reducer_returns:
  assumes "wf_plugin (sy_system S)" and "member a ''type'' = JStr t" and "t \<notin> set object_members"
    and "never_undefined h S t a"
  shows "\<exists>m' l. root_reducer h (state_plugins (sy_system S)) (rx_state (sy_store S)) a = (Inr m', l) \<and>
      (\<forall>n. m' n = (case state_of (sy_system S) n of
        None \<Rightarrow> rx_state (sy_store S) n
      | Some p \<Rightarrow> Some (next_state p t (current_state h (rx_state (sy_store S) n)) a))) \<and>
      set l = thrown_by_handlers h S t a"
proof (cases "state_plugins (sy_system S) = []")
  case True
  then show ?thesis
    by (simp add: root_reducer_def state_plugins_get thrown_by_handlers_def)
next
  case False
  let ?ps = "state_plugins (sy_system S)" and ?m = "rx_state (sy_store S)"
  let ?rs = "obj_map (\<lambda>p n. make_reducer h (sp_reducers p)) ?ps"
  have rs: "set ?rs = (\<lambda>(n, p). (n, make_reducer h (sp_reducers p))) ` set ?ps"
    by (simp add: obj_map_def)
  note one = reducers_return [OF assms]
  have "\<forall>(n, r) \<in> set ?rs. \<exists>d l. r (?m n) a = (Inr (Some d), l)"
    by (auto simp: rs dest: one)
  from combine_returns [OF this, of "ho_text h", unfolded obj_map_names, OF state_plugins_distinct [OF assms(1)]]
  obtain m' l where m': "combine_reducers (ho_text h) ?rs ?m a = (Inr m', l)"
    "\<forall>(n, r) \<in> set ?rs. \<exists>l'. r (?m n) a = (Inr (m' n), l')"
    "set l = (\<Union>(n, r) \<in> set ?rs. set (snd (r (?m n) a)))"
    by blast
  have "m' n = (case state_of (sy_system S) n of
      None \<Rightarrow> ?m n | Some p \<Rightarrow> Some (next_state p t (current_state h (?m n)) a))" for n
  proof (cases "state_of (sy_system S) n")
    case None
    then have "n \<notin> set (names ?rs)"
      by (simp add: obj_map_names state_plugins_get assoc_get_def map_of_eq_None_iff)
    with combine_frame [OF m'(1)] None show ?thesis by simp
  next
    case (Some p)
    then have p: "(n, p) \<in> set ?ps"
      by (simp add: state_plugins_member assms(1))
    then have "(n, make_reducer h (sp_reducers p)) \<in> set ?rs"
      unfolding rs by (rule rev_image_eqI) simp
    with m'(2) have "\<exists>l'. make_reducer h (sp_reducers p) (?m n) a = (Inr (m' n), l')"
      by blast
    with one [OF p] Some show ?thesis by auto
  qed
  moreover have "set l = thrown_by_handlers h S t a"
  proof -
    have "set l = (\<Union>(n, p) \<in> set ?ps. set (snd (make_reducer h (sp_reducers p) (?m n) a)))"
      unfolding m'(3) rs by (simp add: split_beta)
    also have "\<dots> = (\<Union>(n, p) \<in> set ?ps. {x. \<exists>r. handler_of p t = Some r \<and> r (current_state h (?m n)) a = Threw x})"
      by (intro SUP_cong refl) (auto dest: one)
    also have "\<dots> = thrown_by_handlers h S t a"
      unfolding thrown_by_handlers_def state_plugins_member [OF assms(1), symmetric] split_beta
      by (simp add: set_eq_iff Bex_def split_paired_Ex)
    finally show ?thesis .
  qed
  ultimately show ?thesis
    using False m'(1) by (simp add: root_reducer_def)
qed

lemma dispatch_result:
  assumes "wf_plugin (sy_system S)" and "built h S"
    and "member a ''type'' = JStr t" and "t \<notin> set object_members" and "never_undefined h S t a"
  shows "\<exists>s'. dispatch a (sy_store S) = (Inr a, s') \<and>
    (\<forall>n. rx_state s' n = (case state_of (sy_system S) n of
        None \<Rightarrow> rx_state (sy_store S) n
      | Some p \<Rightarrow> Some (next_state p t (current_state h (rx_state (sy_store S) n)) a))) \<and>
    set (rx_console s') = set (rx_console (sy_store S)) \<union> thrown_by_handlers h S t a"
proof -
  have "is_plain_object a" "member a ''type'' \<noteq> JUndef"
    using assms(3) by (auto simp: is_plain_object_def member_def split: json.splits)
  with root_reducer_returns [OF assms(1,3,4,5)] assms(2) show ?thesis
    by (auto simp: dispatch_def built_def)
qed

section \<open>The error plugin\<close>

text \<open>The error plugin as a state plugin of the system: its domain is the state of \<open>Err_Store\<close>, once it
has been set.  \<^verbatim>\<open>CLEAR_BY\<close>, whose payload is a function, is left out.\<close>

datatype 'x domain = Errors err_state | Other_domain 'x

definition err_state_of :: "'x domain \<Rightarrow> err_state" where
  "err_state_of d = (case d of Errors st \<Rightarrow> st | Other_domain _ \<Rightarrow> fresh_errors)"

definition indexed :: "json list \<Rightarrow> err" where
  "indexed vs = map (\<lambda>(i, v). (js (show_nat i), v)) (enumerate 0 vs)"

definition payload_fields :: "json \<Rightarrow> err" where
  "payload_fields v =
     (case v of
        JObj m \<Rightarrow> m
      | JStr s \<Rightarrow> indexed (map (\<lambda>c. JStr [c]) s)
      | JArr vs \<Rightarrow> indexed vs
      | _ \<Rightarrow> [])"

text \<open>A batch that is no array cannot be mapped over; the reducer throws.\<close>

definition payload_list :: "json \<Rightarrow> err list option" where
  "payload_list v = (case v of JArr vs \<Rightarrow> Some (map payload_fields vs) | _ \<Rightarrow> None)"

definition err_handler ::
  "(err list \<Rightarrow> err list) \<Rightarrow> (json \<Rightarrow> err_action option) \<Rightarrow> 'x domain \<Rightarrow> json \<Rightarrow> 'x domain handled" where
  "err_handler arrange act d a =
     (case Option.bind (act (member a ''payload'')) (\<lambda>x. err_reduce arrange x (err_state_of d)) of
        None \<Rightarrow> Threw JUndef
      | Some st \<Rightarrow> Gave (Some (Errors st)))"

definition err_reducers :: "(err list \<Rightarrow> err list) \<Rightarrow> (jstr \<times> 'x domain handler) list" where
  "err_reducers arrange =
     [(js ''err_new_thrown_err'', err_handler arrange (\<lambda>v. Some (NewThrownErr (payload_fields v)))),
      (js ''err_new_thrown_err_batch'', err_handler arrange (\<lambda>v. map_option NewThrownErrBatch (payload_list v))),
      (js ''err_new_spec_err'', err_handler arrange (\<lambda>v. Some (NewSpecErr (payload_fields v)))),
      (js ''err_new_spec_err_batch'', err_handler arrange (\<lambda>v. map_option NewSpecErrBatch (payload_list v))),
      (js ''err_new_auth_err'', err_handler arrange (\<lambda>v. Some (NewAuthErr (payload_fields v)))),
      (js ''err_clear'', err_handler arrange (\<lambda>v. Some (Clear (payload_fields v))))]"

lemma thrown_err_type: "js ''err_new_thrown_err'' \<notin> set object_members"
  by (simp add: object_members_def del: js_simps)

lemma member_thrown_err [simp]:
  "member (new_thrown_err h e) ''type'' = JStr (js ''err_new_thrown_err'')"
  "member (new_thrown_err h e) ''payload'' = ho_serialize h e"
  by (simp_all add: new_thrown_err_def member_def del: js_simps)

definition example_host :: "unit domain host" where
  "example_host =
     \<lparr>ho_text = (\<lambda>_. []), ho_empty = Other_domain (), ho_inherited = (\<lambda>_ d _. (Inr d, [])),
      ho_serialize = (\<lambda>e. JObj [(js ''name'', e)]), ho_random = []\<rparr>"

definition no_state_plugin :: "'d state_plugin" where
  "no_state_plugin =
     \<lparr>sp_actions = None, sp_reducers = None, sp_selectors = None, sp_wrap_actions = None, sp_wrap_selectors = None\<rparr>"

text \<open>A plugin with one domain and a plugin with one component wrapper.\<close>

definition domain_plugin :: "string \<Rightarrow> 'd state_plugin \<Rightarrow> ('d, 'c) plugin" where
  "domain_plugin n q = empty_plugin\<lparr>pl_state_plugins := Some [(js n, q)]\<rparr>"

definition wrapping_plugin :: "string \<Rightarrow> ('c \<Rightarrow> 'c) \<Rightarrow> ('d, 'c) plugin" where
  "wrapping_plugin r n = empty_plugin\<lparr>pl_wrap_components := Some [(js r, n)]\<rparr>"

definition example_system :: "('d, 'c) plugin \<Rightarrow> 'd host \<Rightarrow> ('d, 'c) system" where
  "example_system p h =
     \<lparr>sy_system = p,
      sy_store = \<lparr>rx_state = Map.empty, rx_reducer = root_reducer h (state_plugins p), rx_console = []\<rparr>\<rparr>"

lemma example_reads [simp]:
  "sy_system (example_system p h) = p"
  "rx_state (sy_store (example_system p h)) n = None"
  "built h (example_system p h)"
  "state_of (domain_plugin m q) n = (if n = js m then Some q else None)"
  "component_of (domain_plugin m q) r = None"
  "component_of (wrapping_plugin r' w) r = None"
  "opt_get (pl_wrap_components (wrapping_plugin r' w)) r = (if r = js r' then Some w else None)"
  "wf_plugin (domain_plugin m q) = wf_state_plugin q"
  "wf_plugin (wrapping_plugin r' w)"
  by (simp_all add: example_system_def built_def domain_plugin_def wrapping_plugin_def state_of_def opt_get_def
      empty_plugin_def component_of_def wf_plugin_def distinct_names_def state_plugins_def del: js_simps)

lemma wf_no_state_plugin [simp]: "wf_state_plugin no_state_plugin"
  by (simp add: no_state_plugin_def wf_state_plugin_def distinct_names_def)

section \<open>Sequences of actions\<close>

definition action_type :: "json \<Rightarrow> jstr" where
  "action_type a = (case member a ''type'' of JStr t \<Rightarrow> t | _ \<Rightarrow> [])"

definition proper_action :: "json \<Rightarrow> bool" where
  "proper_action a \<longleftrightarrow> member a ''type'' = JStr (action_type a) \<and> action_type a \<notin> set object_members"

definition dispatch_all :: "json list \<Rightarrow> 'd store \<Rightarrow> 'd store" where
  "dispatch_all as s = fold (\<lambda>a s. snd (dispatch a s)) as s"

definition total_handlers :: "('d, 'c) plugin \<Rightarrow> bool" where
  "total_handlers p \<longleftrightarrow>
     (\<forall>n q t r d a. state_of p n = Some q \<longrightarrow> handler_of q t = Some r \<longrightarrow> r d a \<noteq> Gave None)"

lemma dispatch_next:
  assumes "wf_plugin (sy_system S)" and "built h S" and "total_handlers (sy_system S)" and "proper_action a"
    and "state_of (sy_system S) n = Some p"
  shows "current_state h (rx_state (snd (dispatch a (sy_store S))) n) =
    next_state p (action_type a) (current_state h (rx_state (sy_store S) n)) a"
proof -
  have "member a ''type'' = JStr (action_type a)" and "action_type a \<notin> set object_members"
    using assms(4) by (simp_all add: proper_action_def)
  moreover have "never_undefined h S (action_type a) a"
    using assms(3) by (auto simp: total_handlers_def never_undefined_def)
  ultimately obtain s' where "dispatch a (sy_store S) = (Inr a, s')"
    "rx_state s' n = Some (next_state p (action_type a) (current_state h (rx_state (sy_store S) n)) a)"
    using dispatch_result [OF assms(1,2)] assms(5) by fastforce
  then show ?thesis
    by (simp add: current_state_def [of h "Some _"])
qed

section \<open>Properties\<close>

text \<open>C11: After plugins have been registered, in whatever nesting of lists and functions they are written, an action
that none of them defines is called through all wrappers that were given for it: those registered before
first, then those of the new plugins in their order, each around the ones before it, each of them guarded so
that what it throws becomes null.\<close>

theorem wrappers_registered:
  assumes "wf_plugin (sy_system S)" and "creator_of (sy_system S) n a = Some c"
    and "list_all (\<lambda>p. wf_plugin p \<and> creator_of p n a = None) (leaves tb e)"
  shows "system_action h (sy_system (snd (register h tb e S))) n a =
    Some (wrap_action (wrappers_of (sy_system S) n a @ concat (map (\<lambda>p. wrappers_of p n a) (leaves tb e)))
           (bound_action h c))"
proof -
  have wf: "list_all wf_plugin (leaves tb e)"
    using assms(3) by (simp add: list_all_iff)
  let ?n = "combine_plugins tb e"
  have "creator_of (system_extend (sy_system S) ?n) n a = Some c"
    using assms(2) by (simp add: creator_extend [OF combine_wf [OF wf]] combine_creator [OF assms(3)])
  from system_action_creator [OF wf_system_extend [OF assms(1) combine_wf [OF wf]] this]
  show ?thesis
    by (simp add: register_system wrappers_extend [OF combine_wf [OF wf]] combine_wrappers [OF wf])
qed

definition wrap_plugin :: "(unit domain sys_op \<Rightarrow> unit domain sys_op) \<Rightarrow> (unit domain, nat) plugin" where
  "wrap_plugin w = domain_plugin ''spec'' (no_state_plugin\<lparr>sp_wrap_actions := Some [(js ''download'', One w)]\<rparr>)"

definition download_plugin :: "unit domain creator \<Rightarrow> (unit domain, nat) plugin" where
  "download_plugin c = domain_plugin ''spec'' (no_state_plugin\<lparr>sp_actions := Some [(js ''download'', c)]\<rparr>)"

lemma wrap_plugin_reads [simp]:
  "wf_plugin (wrap_plugin w)" "wf_plugin (download_plugin c)"
  "wrappers_of (wrap_plugin w) (js ''spec'') (js ''download'') = [w]"
  "wrappers_of (download_plugin c) (js ''spec'') (js ''download'') = []"
  "creator_of (wrap_plugin w) (js ''spec'') (js ''download'') = None"
  "creator_of (download_plugin c) (js ''spec'') (js ''download'') = Some c"
  by (simp_all add: wrap_plugin_def download_plugin_def wf_state_plugin_def no_state_plugin_def distinct_names_def
      wrappers_of_def slots_def opt_get_def slot_list_def creator_of_def del: js_simps)

theorem wrappers_registered_witness:
  "let c = (\<lambda>args s. (Inr (Action (JObj [(js ''type'', JArr args)])), s));
       w1 = (\<lambda>f args. f (rev args)); w2 = (\<lambda>f args. f (args @ [JNull]));
       S = example_system (download_plugin c) example_host;
       e = PList [PObj (wrap_plugin w1), PFun (\<lambda>_. PObj (wrap_plugin w2))]
   in system_action example_host (sy_system (snd (register example_host () e S))) (js ''spec'') (js ''download'') =
     Some (try_catch (w2 (try_catch (w1 (bound_action example_host c)))))"
proof -
  have "system_action example_host (sy_system (snd (register example_host ()
      (PList [PObj (wrap_plugin w1), PFun (\<lambda>_. PObj (wrap_plugin w2))])
      (example_system (download_plugin c) example_host)))) (js ''spec'') (js ''download'') =
     Some (try_catch (w2 (try_catch (w1 (bound_action example_host c)))))" for c w1 w2
    by (subst wrappers_registered) (simp_all add: wrap_action_def del: js_simps)
  then show ?thesis
    by (simp only: Let_def)
qed

text \<open>Plugins that are registered one after the other all wrap a component they do not define, later ones around
earlier ones.\<close>

theorem components_chained:
  assumes "list_all (\<lambda>p. wf_plugin p \<and> component_of p r = None) ps"
  shows "get_component (sy_system (registered h tb (map PObj ps) S)) r =
     map_option (\<lambda>c. foldl (\<lambda>e n. n e) c (component_wrappers r ps)) (get_component (sy_system S) r)"
  using assms
proof (induction ps arbitrary: S)
  case (Cons p ps)
  let ?S = "snd (register h tb (PObj p) S)"
  from Cons.prems have p: "wf_plugin p" "component_of p r = None"
    and IH: "list_all (\<lambda>p. wf_plugin p \<and> component_of p r = None) ps"
    by simp_all
  have "get_component (sy_system ?S) r =
      (case opt_get (pl_wrap_components p) r of
         None \<Rightarrow> get_component (sy_system S) r
       | Some n \<Rightarrow> map_option n (get_component (sy_system S) r))"
    by (simp add: register_system component_extend [OF p])
  then show ?case
    using Cons.IH [OF IH, of ?S]
    by (auto simp: registered_def option.map_comp comp_def split: option.splits)
qed (simp add: registered_def option.map_ident)

definition component_plugin :: "string \<Rightarrow> 'c \<Rightarrow> ('d, 'c) plugin" where
  "component_plugin r c = empty_plugin\<lparr>pl_components := Some [(js r, Component c)]\<rparr>"

lemma component_plugin_get [simp]: "get_component (component_plugin r c) (js r) = Some c"
  by (simp add: component_plugin_def get_component_def component_of_def)

definition example_wrappers :: "(unit domain, int) plugin list" where
  "example_wrappers = [wrapping_plugin ''info'' (\<lambda>c. 10 * c), wrapping_plugin ''info'' (\<lambda>c. c + 2)]"

theorem components_chained_witness:
  "get_component (sy_system (registered example_host () (map PObj example_wrappers)
     (example_system (component_plugin ''info'' 1) example_host))) (js ''info'') = Some 12"
  by (subst components_chained) (simp_all add: example_wrappers_def del: js_simps)

text \<open>Plugins that are registered together, as one list, are merged before they reach the system: of the wrappers
they have for one component only the last one is applied to it.\<close>

theorem legacy_wrapper_lost:
  assumes "list_all (\<lambda>p. wf_plugin p \<and> component_of p r = None) ps" and "component_wrappers r ps \<noteq> []"
  shows "get_component (sy_system (snd (register h tb (PList (map PObj ps)) S))) r =
     map_option (last (component_wrappers r ps)) (get_component (sy_system S) r)"
proof -
  let ?n = "combine_plugins tb (PList (map PObj ps))"
  have n: "?n = foldl system_extend empty_plugin ps"
    by (simp add: comp_def map_idI)
  have "list_all wf_plugin ps"
    using assms(1) by (simp add: list_all_iff)
  then have "wf_plugin ?n"
    unfolding n by (intro foldl_extend_wf wf_empty_plugin)
  moreover have "component_of ?n r = None"
    and "opt_get (pl_wrap_components ?n) r = Some (last (component_wrappers r ps))"
    using foldl_waiting [OF assms(1) wf_empty_plugin empty_plugin_reads(3)] assms(2) unfolding n by simp_all
  ultimately show ?thesis
    unfolding register_system by (simp only: component_extend option.case)
qed

theorem legacy_wrapper_lost_witness:
  "get_component (sy_system (snd (register example_host () (PList (map PObj example_wrappers))
     (example_system (component_plugin ''info'' 1) example_host)))) (js ''info'') = Some 3"
  by (subst legacy_wrapper_lost) (simp_all add: example_wrappers_def del: js_simps)


definition counting_plugin :: "nat state_plugin" where
  "counting_plugin = no_state_plugin\<lparr>sp_reducers := Some [(js ''inc'', \<lambda>d a. Gave (Some (Suc d))), (js ''bad'', \<lambda>d a. Threw a)]\<rparr>"

definition counting_host :: "nat host" where
  "counting_host =
     \<lparr>ho_text = (\<lambda>_. []), ho_empty = 0, ho_inherited = (\<lambda>_ d _. (Inr d, [])), ho_serialize = id, ho_random = []\<rparr>"

definition typed_action :: "string \<Rightarrow> json" where
  "typed_action t = JObj [(js ''type'', JStr (js t))]"

lemma typed_action_type [simp]: "member (typed_action t) ''type'' = JStr (js t)" "action_type (typed_action t) = js t"
  by (simp_all add: typed_action_def member_def action_type_def del: js_simps)




end
