(* ===== verification/Spec_Params.thy ===== *)
theory Spec_Params
  imports Keyed_Tree Value_Validation
begin

text \<open>
  The parameters of operations in \<^verbatim>\<open>swagger-ui.js\<close>: identifiers of parameters (the
  functions \<^verbatim>\<open>rt\<close> and \<^verbatim>\<open>at\<close>), the reducers of the spec plugin that
  keep values and verdicts (module 242), the selectors that read them (module 85) and the component with the
  button that executes a request (\<^verbatim>\<open>pn\<close>).  The state is a nested map
  (\<open>Keyed_Tree\<close>) whose leaves are values, lists of verdicts and the lists of parameters of the
  document; a parameter carries what its schema is for either version of the specification and has no member
  \<^verbatim>\<open>value\<close> or \<^verbatim>\<open>value_xml\<close> of its own.  \<open>None\<close> as a state is a
  thrown error.  The request body, which the component checks as well, is a parameter of it.
  Main facts: \<open>validate_params_verdicts\<close> (what is stored are the verdicts),
  \<open>run_clean\<close> (errors belong to parameters, whatever the user does),
  \<open>param_to_value_entered\<close> (the validation sees what was entered).
\<close>

record param =
  pr_name :: "jstr option"
  pr_in :: "jstr option"
  pr_hash :: jstr
  pr_required :: bool
  pr_schema :: "bool \<Rightarrow> schema option"
  pr_media :: "bool \<Rightarrow> jstr option"

datatype spec_leaf = SValue js_value | SErrors "verr list" | SParams "param list"

type_synonym spec_tree = "spec_leaf tree"
type_synonym operation = "jstr \<times> jstr"

section \<open>Identifiers\<close>

definition undefined_text :: "jstr option \<Rightarrow> jstr" where
  "undefined_text v = (case v of None \<Rightarrow> js ''undefined'' | Some s \<Rightarrow> s)"

definition set_text :: "jstr option \<Rightarrow> bool" where
  "set_text v \<longleftrightarrow> v \<noteq> None \<and> v \<noteq> Some []"

definition plain_key :: "param \<Rightarrow> jstr" where
  "plain_key p = undefined_text (pr_in p) @ js ''.'' @ undefined_text (pr_name p)"

definition hash_key :: "param \<Rightarrow> jstr" where
  "hash_key p = plain_key p @ js ''.hash-'' @ pr_hash p"

definition param_identifiers :: "bool \<Rightarrow> param \<Rightarrow> jstr option list" where
  "param_identifiers hashes p =
     (let full = set_text (pr_in p) \<and> set_text (pr_name p) in
      (if full \<and> hashes then [Some (hash_key p)] else []) @
      (if full then [Some (plain_key p)] else []) @ [pr_name p])"

definition param_to_identifier :: "bool \<Rightarrow> param \<Rightarrow> jstr" where
  "param_to_identifier hashes p = (case hd (param_identifiers hashes p) of None \<Rightarrow> [] | Some s \<Rightarrow> s)"

text \<open>The value of the first identifier that has one; members every object inherits are found as
well.\<close>

definition param_to_value :: "platform \<Rightarrow> param \<Rightarrow> (jstr \<times> js_value) list \<Rightarrow> js_value" where
  "param_to_value pf p values =
     (case filter (\<lambda>v. v \<noteq> Some VUndef)
        (map (\<lambda>k. property_of pf (VObj values) (undefined_text k)) (param_identifiers True p)) of
        Some v # _ \<Rightarrow> v
      | _ \<Rightarrow> VUndef)"

section \<open>The document\<close>

text \<open>The document as it was read, with the subtrees resolved so far merged into it.\<close>

fun merge_nodes :: "spec_tree \<Rightarrow> spec_tree \<Rightarrow> spec_tree"
and merge_members ::
  "(jstr \<times> spec_tree) list \<Rightarrow> (jstr \<times> spec_tree) list \<Rightarrow> (jstr \<times> spec_tree) list" where
  "merge_nodes (Branch a) (Branch b) =
     (case assoc_get b (js ''$$ref'') of
        None \<Rightarrow> Branch (merge_members a b)
      | Some (Leaf (SValue v)) \<Rightarrow> if value_truthy v then Branch b else Branch (merge_members a b)
      | Some _ \<Rightarrow> Branch b)"
| "merge_nodes _ b = b"
| "merge_members a [] = a"
| "merge_members a ((k, v) # b) =
     merge_members (assoc_put k (case assoc_get a k of None \<Rightarrow> v | Some o' \<Rightarrow> merge_nodes o' v) a) b"

definition members_of :: "spec_tree option \<Rightarrow> (jstr \<times> spec_tree) list" where
  "members_of t = (case t of Some (Branch m) \<Rightarrow> m | _ \<Rightarrow> [])"

definition spec_json_with_resolved_subtrees :: "spec_tree option \<Rightarrow> spec_tree option" where
  "spec_json_with_resolved_subtrees s =
     Some (Branch (merge_members (members_of (child s (js ''json''))) (members_of (child s (js ''resolvedSubtrees'')))))"

definition operation_node :: "spec_tree option \<Rightarrow> operation \<Rightarrow> spec_tree option" where
  "operation_node s oper = get_in (spec_json_with_resolved_subtrees s) [js ''paths'', fst oper, snd oper]"

definition operation_params :: "spec_tree option \<Rightarrow> operation \<Rightarrow> param list" where
  "operation_params s oper =
     (case child (operation_node s oper) (js ''parameters'') of
        Some (Leaf (SParams ps)) \<Rightarrow> ps
      | _ \<Rightarrow> [])"

section \<open>Reducers\<close>

definition meta_path :: "operation \<Rightarrow> jstr list" where
  "meta_path oper = [js ''meta'', js ''paths'', fst oper, snd oper]"

definition params_path :: "operation \<Rightarrow> jstr list" where
  "params_path oper = meta_path oper @ [js ''parameters'']"

definition update_param ::
  "operation \<Rightarrow> jstr \<Rightarrow> js_value \<Rightarrow> bool \<Rightarrow> spec_tree option \<Rightarrow> spec_tree option option" where
  "update_param oper k v xml s =
     set_in (params_path oper @ [k, if xml then js ''value_xml'' else js ''value'']) (Leaf (SValue v)) s"

definition change_param ::
  "operation \<Rightarrow> jstr option \<Rightarrow> jstr option \<Rightarrow> js_value \<Rightarrow> bool \<Rightarrow> spec_tree option \<Rightarrow> spec_tree option option" where
  "change_param oper name in' v xml = update_param oper (undefined_text in' @ js ''.'' @ undefined_text name) v xml"

definition change_param_by_identity ::
  "operation \<Rightarrow> param \<Rightarrow> js_value \<Rightarrow> bool \<Rightarrow> spec_tree option \<Rightarrow> spec_tree option option" where
  "change_param_by_identity oper p v xml = update_param oper (param_to_identifier True p) v xml"

definition update_empty_param_inclusion ::
  "operation \<Rightarrow> jstr option \<Rightarrow> jstr option \<Rightarrow> bool \<Rightarrow> spec_tree option \<Rightarrow> spec_tree option option" where
  "update_empty_param_inclusion oper name in' include s =
     (if \<not> set_text name \<or> \<not> set_text in' then Some s
      else set_in (meta_path oper @ [js ''parameter_inclusions'', undefined_text in' @ js ''.'' @ undefined_text name])
             (Leaf (SValue (VBool include))) s)"

section \<open>Selectors\<close>

definition meta_value :: "spec_tree option \<Rightarrow> operation \<Rightarrow> jstr \<Rightarrow> string \<Rightarrow> js_value option" where
  "meta_value s oper k f =
     (case get_in s (params_path oper @ [k, js f]) of Some (Leaf (SValue v)) \<Rightarrow> Some v | _ \<Rightarrow> None)"

text \<open>A parameter of an operation with what was entered for it: the first one of its place and name, overlaid
with the values that are stored without and with the hash of the parameter that was asked for.\<close>

record param_with_meta =
  pm_param :: param
  pm_value :: "js_value option"
  pm_value_xml :: "js_value option"

definition overlaid :: "js_value option \<Rightarrow> js_value option \<Rightarrow> js_value option" where
  "overlaid plain hashed = (case hashed of None \<Rightarrow> plain | Some v \<Rightarrow> Some v)"

definition parameter_with_meta_by_identity ::
  "spec_tree option \<Rightarrow> operation \<Rightarrow> param \<Rightarrow> param_with_meta option" where
  "parameter_with_meta_by_identity s oper n =
     map_option (\<lambda>e. \<lparr>pm_param = e,
         pm_value = overlaid (meta_value s oper (plain_key n) ''value'') (meta_value s oper (hash_key n) ''value''),
         pm_value_xml = overlaid (meta_value s oper (plain_key n) ''value_xml'') (meta_value s oper (hash_key n) ''value_xml'')\<rparr>)
       (find (\<lambda>e. pr_in e = pr_in n \<and> pr_name e = pr_name n) (operation_params s oper))"

definition or_undefined :: "js_value option \<Rightarrow> js_value" where
  "or_undefined v = (case v of None \<Rightarrow> VUndef | Some w \<Rightarrow> w)"

definition parameter_values :: "bool \<Rightarrow> spec_tree option \<Rightarrow> operation \<Rightarrow> (jstr \<times> js_value) list" where
  "parameter_values xml s oper =
     fold (\<lambda>m values. assoc_put (param_to_identifier False (pm_param m))
         (or_undefined (if xml \<and> pr_in (pm_param m) = Some (js ''body'') then pm_value_xml m else pm_value m)) values)
       (List.map_filter (parameter_with_meta_by_identity s oper) (operation_params s oper)) []"

definition parameter_inclusion_setting_for :: "spec_tree option \<Rightarrow> operation \<Rightarrow> param \<Rightarrow> bool" where
  "parameter_inclusion_setting_for s oper p =
     (case get_in s (meta_path oper @ [js ''parameter_inclusions'', plain_key p]) of
        Some (Leaf (SValue v)) \<Rightarrow> value_truthy v
      | Some _ \<Rightarrow> True
      | None \<Rightarrow> False)"

section \<open>Validation\<close>

definition param_verdict :: "platform \<Rightarrow> bool \<Rightarrow> spec_tree option \<Rightarrow> operation \<Rightarrow> param \<Rightarrow> verr list option" where
  "param_verdict pf oas3 s oper p =
     validate_value pf (param_to_value pf p (parameter_values False s oper)) (pr_schema p oas3) (pr_required p)
       (parameter_inclusion_setting_for s oper p) (pr_media p oas3)"

fun record_errors ::
  "(param \<Rightarrow> verr list option) \<Rightarrow> param list \<Rightarrow> spec_tree option \<Rightarrow> spec_tree option option" where
  "record_errors judge [] t = Some t"
| "record_errors judge (p # ps) t =
     Option.bind (judge p) (\<lambda>es.
     Option.bind (set_in [param_to_identifier True p, js ''errors''] (Leaf (SErrors es)) t)
       (record_errors judge ps))"

definition validate_params ::
  "platform \<Rightarrow> bool \<Rightarrow> operation \<Rightarrow> spec_tree option \<Rightarrow> spec_tree option option" where
  "validate_params pf oas3 oper s =
     (if operation_node s oper = None then None
      else
        let ps = operation_params s oper;
            t = (case get_in s (params_path oper) of None \<Rightarrow> Some (Branch []) | t \<Rightarrow> t)
        in Option.bind (record_errors (param_verdict pf oas3 s oper) ps t)
             (\<lambda>r. update_in (\<lambda>t. if ps = [] then t else r) (params_path oper) s))"

text \<open>Clearing sets the errors of every entry there is to none; an entry that is no map has no way to.\<close>

definition clear_entry :: "jstr \<times> spec_tree \<Rightarrow> jstr \<times> spec_tree" where
  "clear_entry e =
     (case e of
        (k, Branch m) \<Rightarrow> (k, Branch (assoc_put (js ''errors'') (Leaf (SErrors [])) m))
      | e \<Rightarrow> e)"

definition clear_validate_params :: "operation \<Rightarrow> spec_tree option \<Rightarrow> spec_tree option option" where
  "clear_validate_params oper s =
     (case get_in s (params_path oper) of
        Some (Branch m) \<Rightarrow>
          if list_ex (\<lambda>(k, t). case t of Leaf _ \<Rightarrow> True | _ \<Rightarrow> False) m then None
          else set_in (params_path oper) (Branch (map clear_entry m)) s
      | Some (Leaf _) \<Rightarrow> None
      | None \<Rightarrow> update_in (\<lambda>t. t) (params_path oper) s)"

definition no_errors_at :: "spec_tree option \<Rightarrow> jstr \<Rightarrow> bool" where
  "no_errors_at t k \<longleftrightarrow>
     (case child (child t k) (js ''errors'') of Some (Leaf (SErrors es)) \<Rightarrow> es = [] | _ \<Rightarrow> True)"

definition validate_before_execute :: "spec_tree option \<Rightarrow> operation \<Rightarrow> bool" where
  "validate_before_execute s oper \<longleftrightarrow>
     (let t = get_in s (params_path oper) in list_all (no_errors_at t) (map fst (members_of t)))"

section \<open>The button\<close>

text \<open>The reducers run inside the plugin system, which logs what a reducer throws and keeps the state.
\<open>body\<close> is the check of the request body.  A click that fails clears the verdicts and has them
computed again once the timer, of 40 milliseconds, fires; \<open>Executed\<close> is the call of
\<^verbatim>\<open>execute\<close> with what was entered.\<close>

definition reduced :: "(spec_tree option \<Rightarrow> spec_tree option option) \<Rightarrow> spec_tree option \<Rightarrow> spec_tree option" where
  "reduced r s = (case r s of None \<Rightarrow> s | Some s' \<Rightarrow> s')"

datatype click = Executed | Refused

definition handle_validate_parameters ::
  "platform \<Rightarrow> bool \<Rightarrow> operation \<Rightarrow> spec_tree option \<Rightarrow> bool \<times> spec_tree option" where
  "handle_validate_parameters pf oas3 oper s =
     (let s' = reduced (validate_params pf oas3 oper) s in (validate_before_execute s' oper, s'))"

definition on_click ::
  "platform \<Rightarrow> bool \<Rightarrow> bool \<Rightarrow> operation \<Rightarrow> spec_tree option \<Rightarrow> click \<times> spec_tree option" where
  "on_click pf oas3 body oper s =
     (let (e, s1) = handle_validate_parameters pf oas3 oper s
      in if e \<and> body then (Executed, s1) else (Refused, reduced (clear_validate_params oper) s1))"

datatype form_event =
    Enter param js_value bool
  | EnterByName "jstr option" "jstr option" js_value bool
  | IncludeEmpty "jstr option" "jstr option" bool
  | Click bool
  | Timer

definition form_step ::
  "platform \<Rightarrow> bool \<Rightarrow> operation \<Rightarrow> form_event \<Rightarrow> spec_tree option \<Rightarrow> spec_tree option" where
  "form_step pf oas3 oper e s =
     (case e of
        Enter p v xml \<Rightarrow> reduced (change_param_by_identity oper p v xml) s
      | EnterByName n i v xml \<Rightarrow> reduced (change_param oper n i v xml) s
      | IncludeEmpty n i b \<Rightarrow> reduced (update_empty_param_inclusion oper n i b) s
      | Click body \<Rightarrow> snd (on_click pf oas3 body oper s)
      | Timer \<Rightarrow> reduced (validate_params pf oas3 oper) s)"

definition form_run ::
  "platform \<Rightarrow> bool \<Rightarrow> operation \<Rightarrow> form_event list \<Rightarrow> spec_tree option \<Rightarrow> spec_tree option" where
  "form_run pf oas3 oper es s = fold (form_step pf oas3 oper) es s"

section \<open>What the reducers leave alone\<close>

lemma child_get_in: "child s k = get_in s [k]"
  by (simp add: get_in_child)

lemma get_in_append: "get_in s (ks @ qs) = get_in (get_in s ks) qs"
  by (induction ks arbitrary: s) (simp_all add: get_in_child)

lemma params_path_eq: "params_path oper = [js ''meta'', js ''paths'', fst oper, snd oper, js ''parameters'']"
  by (simp add: params_path_def meta_path_def)

definition same_document :: "spec_tree option \<Rightarrow> spec_tree option \<Rightarrow> bool" where
  "same_document s s' \<longleftrightarrow>
     child s' (js ''json'') = child s (js ''json'') \<and> child s' (js ''resolvedSubtrees'') = child s (js ''resolvedSubtrees'')"

lemma same_document_refl [simp]: "same_document s s"
  by (simp add: same_document_def)

lemma same_document_trans: "same_document s s' \<Longrightarrow> same_document s' s'' \<Longrightarrow> same_document s s''"
  by (simp add: same_document_def)

lemma same_document_reads:
  assumes "same_document s s'"
  shows "operation_node s' oper = operation_node s oper" and "operation_params s' oper = operation_params s oper"
proof -
  show n: "operation_node s' oper = operation_node s oper"
    using assms by (simp add: operation_node_def spec_json_with_resolved_subtrees_def same_document_def)
  show "operation_params s' oper = operation_params s oper"
    by (simp add: operation_params_def n)
qed

lemma update_meta_same_document:
  assumes "update_in f (meta_path oper @ ks) s = Some s'"
  shows "same_document s s'"
  using update_in_frame [OF assms, of "[js ''json'']"] update_in_frame [OF assms, of "[js ''resolvedSubtrees'']"]
  by (simp add: same_document_def child_get_in meta_path_def del: js_simps)

lemma update_params_elsewhere:
  assumes "update_in f (params_path oper @ [k, x]) s = Some s'"
  shows "get_in s' (params_path oper @ [k', x']) =
    (if k' = k \<and> x' = x then f (get_in s (params_path oper @ [k, x])) else get_in s (params_path oper @ [k', x']))"
proof (cases "k' = k \<and> x' = x")
  case True
  then show ?thesis using update_in_at [OF assms] by simp
next
  case False
  then have "\<not> prefix (params_path oper @ [k, x]) (params_path oper @ [k', x'])"
    "\<not> prefix (params_path oper @ [k', x']) (params_path oper @ [k, x])"
    by auto
  with False update_in_frame [OF assms] show ?thesis by auto
qed

lemma update_param_meta_value:
  assumes "update_param oper k v xml s = Some s'"
  shows "meta_value s' oper k' f =
    (if k' = k \<and> f = (if xml then ''value_xml'' else ''value'') then Some v else meta_value s oper k' f)"
proof -
  have "(if xml then js ''value_xml'' else js ''value'') = js (if xml then ''value_xml'' else ''value'')"
    by simp
  then have u: "update_in (\<lambda>_. Some (Leaf (SValue v))) (params_path oper @ [k, js (if xml then ''value_xml'' else ''value'')]) s = Some s'"
    using assms by (simp only: update_param_def set_in_def)
  show ?thesis
    unfolding meta_value_def update_params_elsewhere [OF u] by (auto simp del: js_simps)
qed

lemma no_errors_at_get_in:
  "no_errors_at (get_in s (params_path oper)) k =
    (case get_in s (params_path oper @ [k, js ''errors'']) of Some (Leaf (SErrors es)) \<Rightarrow> es = [] | _ \<Rightarrow> True)"
  by (simp add: no_errors_at_def get_in_append get_in_child del: js_simps)

lemma update_param_errors:
  assumes "update_param oper k v xml s = Some s'"
  shows "no_errors_at (get_in s' (params_path oper)) k' = no_errors_at (get_in s (params_path oper)) k'"
    and "same_document s s'"
proof -
  have u: "update_in (\<lambda>_. Some (Leaf (SValue v))) (params_path oper @ [k, if xml then js ''value_xml'' else js ''value'']) s = Some s'"
    using assms by (simp only: update_param_def set_in_def)
  have "js ''errors'' \<noteq> (if xml then js ''value_xml'' else js ''value'')"
    by simp
  then show "no_errors_at (get_in s' (params_path oper)) k' = no_errors_at (get_in s (params_path oper)) k'"
    unfolding no_errors_at_get_in update_params_elsewhere [OF u] by (simp del: js_simps)
  show "same_document s s'"
    using update_meta_same_document u by (simp add: params_path_def del: js_simps)
qed

lemma update_inclusion_errors:
  assumes "update_empty_param_inclusion oper n i b s = Some s'"
  shows "get_in s' (params_path oper) = get_in s (params_path oper)" and "same_document s s'"
proof -
  have "get_in s' (params_path oper) = get_in s (params_path oper) \<and> same_document s s'"
  proof (cases "\<not> set_text n \<or> \<not> set_text i")
    case True
    with assms show ?thesis
      by (auto simp: update_empty_param_inclusion_def simp del: js_simps)
  next
    case False
    with assms have u: "update_in (\<lambda>_. Some (Leaf (SValue (VBool b))))
        (meta_path oper @ [js ''parameter_inclusions'', undefined_text i @ js ''.'' @ undefined_text n]) s = Some s'"
      by (simp add: update_empty_param_inclusion_def set_in_def del: js_simps)
    show ?thesis
      using update_in_frame [OF u, of "params_path oper"] update_meta_same_document [OF u]
      by (simp add: params_path_def del: js_simps(2))
  qed
  then show "get_in s' (params_path oper) = get_in s (params_path oper)" and "same_document s s'"
    by blast+
qed

section \<open>Verdicts in the state\<close>

lemma no_errors_at_missing [simp]: "no_errors_at None k" "no_errors_at (Some (Branch [])) k"
  by (simp_all add: no_errors_at_def child_def)

lemma no_errors_at_default [simp]:
  "no_errors_at (case t of None \<Rightarrow> Some (Branch []) | Some x \<Rightarrow> Some x) k = no_errors_at t k"
  by (cases t) simp_all

lemma validate_before_execute_iff:
  "validate_before_execute s oper \<longleftrightarrow> (\<forall>k. no_errors_at (get_in s (params_path oper)) k)"
proof -
  let ?t = "get_in s (params_path oper)"
  have "no_errors_at ?t k" if "k \<notin> set (map fst (members_of ?t))" for k
  proof -
    have "child ?t k = None"
      using that by (auto simp: child_def members_of_def assoc_get_def map_of_eq_None_iff split: option.splits tree.splits)
    then show ?thesis
      by (simp add: no_errors_at_def child_def)
  qed
  then show ?thesis
    by (simp only: validate_before_execute_def Let_def list_all_iff) blast
qed

lemma set_errors:
  assumes "set_in [i, js ''errors''] (Leaf (SErrors es)) t = Some t'"
  shows "no_errors_at t' k = (if k = i then es = [] else no_errors_at t k)"
proof -
  have u: "update_in (\<lambda>_. Some (Leaf (SErrors es))) [i, js ''errors''] t = Some t'"
    using assms by (simp only: set_in_def)
  show ?thesis
  proof (cases "k = i")
    case True
    with update_in_at [OF u] show ?thesis
      by (simp add: no_errors_at_def get_in_child del: js_simps)
  next
    case False
    with update_in_frame [OF u, of "[k, js ''errors'']"] show ?thesis
      by (simp add: no_errors_at_def get_in_child del: js_simps)
  qed
qed

lemma record_errors_Cons:
  assumes "record_errors judge (q # ps) t = Some r"
  obtains es u where "judge q = Some es"
    and "\<forall>k. no_errors_at u k = (if k = param_to_identifier True q then es = [] else no_errors_at t k)"
    and "record_errors judge ps u = Some r"
proof -
  from assms obtain es u where u: "judge q = Some es"
    "set_in [param_to_identifier True q, js ''errors''] (Leaf (SErrors es)) t = Some u"
    "record_errors judge ps u = Some r"
    unfolding record_errors.simps bind_eq_Some_conv by blast
  show thesis
    by (rule that [OF u(1) _ u(3)]) (rule allI, rule set_errors [OF u(2)])
qed

lemma record_errors_other:
  "record_errors judge ps t = Some r \<Longrightarrow> k \<notin> param_to_identifier True ` set ps \<Longrightarrow>
   no_errors_at r k = no_errors_at t k"
proof (induction ps arbitrary: t)
  case (Cons q ps)
  from Cons.prems(1) obtain es u where "judge q = Some es" and
    u: "\<forall>k. no_errors_at u k = (if k = param_to_identifier True q then es = [] else no_errors_at t k)"
      "record_errors judge ps u = Some r"
    by (rule record_errors_Cons)
  show ?case
    using Cons.IH [OF u(2)] Cons.prems(2) u(1) by simp
qed simp

lemma record_errors_verdict:
  "record_errors judge ps t = Some r \<Longrightarrow> distinct (map (param_to_identifier True) ps) \<Longrightarrow> p \<in> set ps \<Longrightarrow>
   no_errors_at r (param_to_identifier True p) \<longleftrightarrow> judge p = Some []"
proof (induction ps arbitrary: t)
  case (Cons q ps)
  from Cons.prems(1) obtain es u where u: "judge q = Some es"
      "\<forall>k. no_errors_at u k = (if k = param_to_identifier True q then es = [] else no_errors_at t k)"
      "record_errors judge ps u = Some r"
    by (rule record_errors_Cons)
  show ?case
  proof (cases "p = q")
    case True
    with Cons.prems(2) have "param_to_identifier True p \<notin> param_to_identifier True ` set ps" by simp
    from record_errors_other [OF u(3) this] True u(1,2) show ?thesis by simp
  next
    case False
    with Cons.IH [OF u(3)] Cons.prems(2,3) show ?thesis by simp
  qed
qed simp

lemmas record_errors_verdicts = record_errors_other record_errors_verdict

lemma validate_params_verdicts:
  assumes "validate_params pf oas3 oper s = Some s'"
  shows "same_document s s'"
    and "k \<notin> param_to_identifier True ` set (operation_params s oper) \<Longrightarrow>
      no_errors_at (get_in s' (params_path oper)) k = no_errors_at (get_in s (params_path oper)) k"
    and "distinct (map (param_to_identifier True) (operation_params s oper)) \<Longrightarrow> p \<in> set (operation_params s oper) \<Longrightarrow>
      no_errors_at (get_in s' (params_path oper)) (param_to_identifier True p) \<longleftrightarrow> param_verdict pf oas3 s oper p = Some []"
proof -
  let ?ps = "operation_params s oper"
  let ?t = "case get_in s (params_path oper) of None \<Rightarrow> Some (Branch []) | Some x \<Rightarrow> Some x"
  obtain r where r: "record_errors (param_verdict pf oas3 s oper) ?ps ?t = Some r"
    and u: "update_in (\<lambda>t. if ?ps = [] then t else r) (params_path oper) s = Some s'"
    using assms by (auto simp: validate_params_def Let_def bind_eq_Some_conv split: if_splits)
  show "same_document s s'"
    using update_meta_same_document u by (simp add: params_path_def del: js_simps)
  have at: "get_in s' (params_path oper) = (if ?ps = [] then get_in s (params_path oper) else r)"
    using update_in_at [OF u] by simp
  note v = record_errors_verdicts [OF r, unfolded no_errors_at_default]
  show "no_errors_at (get_in s' (params_path oper)) k = no_errors_at (get_in s (params_path oper)) k"
    if "k \<notin> param_to_identifier True ` set ?ps"
    using v(1) [OF that] by (simp add: at)
  show "no_errors_at (get_in s' (params_path oper)) (param_to_identifier True p) \<longleftrightarrow> param_verdict pf oas3 s oper p = Some []"
    if "distinct (map (param_to_identifier True) ?ps)" "p \<in> set ?ps"
    using v(2) [OF that] that(2) by (auto simp: at)
qed

lemma clear_entry_get:
  "\<not> list_ex (\<lambda>(k, t). case t of Leaf _ \<Rightarrow> True | _ \<Rightarrow> False) m \<Longrightarrow>
   no_errors_at (Some (Branch (map clear_entry m))) k"
proof (induction m)
  case (Cons e m)
  obtain i x where e: "e = (i, x)" by (cases e)
  with Cons.prems obtain b where b: "x = Branch b" by (cases x) auto
  have "no_errors_at (Some (Branch (clear_entry e # map clear_entry m))) k =
      (if k = i then True else no_errors_at (Some (Branch (map clear_entry m))) k)"
    by (simp add: no_errors_at_def child_def e b clear_entry_def del: js_simps)
  with Cons show ?case by simp
qed simp

lemma clear_validate_verdicts:
  assumes "clear_validate_params oper s = Some s'"
  shows "same_document s s'" and "no_errors_at (get_in s' (params_path oper)) k"
proof -
  have "same_document s s' \<and> no_errors_at (get_in s' (params_path oper)) k"
  proof (cases "get_in s (params_path oper)")
    case None
    then have u: "update_in (\<lambda>t. t) (params_path oper) s = Some s'"
      using assms by (simp add: clear_validate_params_def del: js_simps)
    with update_in_at [OF u] update_meta_same_document None show ?thesis
      by (simp add: params_path_def del: js_simps)
  next
    case (Some n)
    with assms obtain m where m: "n = Branch m"
        "\<not> list_ex (\<lambda>(k, t). case t of Leaf _ \<Rightarrow> True | _ \<Rightarrow> False) m"
        and u: "update_in (\<lambda>_. Some (Branch (map clear_entry m))) (params_path oper) s = Some s'"
      by (auto simp: clear_validate_params_def set_in_def split: tree.splits if_splits)
    then show ?thesis
      using update_in_at [OF u] update_meta_same_document clear_entry_get [OF m(2)]
      by (simp add: params_path_def del: js_simps)
  qed
  then show "same_document s s'" and "no_errors_at (get_in s' (params_path oper)) k"
    by blast+
qed

section \<open>Errors belong to parameters\<close>

definition clean :: "spec_tree option \<Rightarrow> operation \<Rightarrow> bool" where
  "clean s oper \<longleftrightarrow>
     (\<forall>k. k \<notin> param_to_identifier True ` set (operation_params s oper) \<longrightarrow> no_errors_at (get_in s (params_path oper)) k)"

lemma clean_initial: "get_in s (params_path oper) = None \<Longrightarrow> clean s oper"
  by (simp add: clean_def)

lemma clean_transfer:
  assumes "clean s oper" and "same_document s s'"
    and "\<And>k. k \<notin> param_to_identifier True ` set (operation_params s oper) \<Longrightarrow>
      no_errors_at (get_in s (params_path oper)) k \<Longrightarrow> no_errors_at (get_in s' (params_path oper)) k"
  shows "clean s' oper"
  using assms by (simp add: clean_def same_document_reads [OF assms(2)])

lemma reduced_same [intro]: "(\<And>s'. r s = Some s' \<Longrightarrow> same_document s s') \<Longrightarrow> same_document s (reduced r s)"
  by (cases "r s") (simp_all add: reduced_def)

lemma reduced_clean [intro]: "clean s oper \<Longrightarrow> (\<And>s'. r s = Some s' \<Longrightarrow> clean s' oper) \<Longrightarrow> clean (reduced r s) oper"
  by (cases "r s") (simp_all add: reduced_def)

lemma clean_enter: "clean s oper \<Longrightarrow> update_param oper k v xml s = Some s' \<Longrightarrow> clean s' oper"
  by (erule clean_transfer) (simp_all add: update_param_errors)

lemma clean_include:
  "clean s oper \<Longrightarrow> update_empty_param_inclusion oper n i b s = Some s' \<Longrightarrow> clean s' oper"
  by (erule clean_transfer) (simp_all add: update_inclusion_errors)

lemma clean_validate: "clean s oper \<Longrightarrow> validate_params pf oas3 oper s = Some s' \<Longrightarrow> clean s' oper"
  by (erule clean_transfer) (simp_all add: validate_params_verdicts(1,2))

lemma clean_clear: "clean s oper \<Longrightarrow> clear_validate_params oper s = Some s' \<Longrightarrow> clean s' oper"
  by (erule clean_transfer) (simp_all add: clear_validate_verdicts)

lemma step_clean:
  assumes "clean s oper"
  shows "clean (form_step pf oas3 oper e s) oper" and "same_document s (form_step pf oas3 oper e s)"
proof -
  let ?v = "reduced (validate_params pf oas3 oper) s"
  have v: "clean ?v oper" "same_document s ?v"
    using assms clean_validate validate_params_verdicts(1) by blast+
  have c: "clean (reduced (clear_validate_params oper) ?v) oper" "same_document ?v (reduced (clear_validate_params oper) ?v)"
    using v(1) clean_clear clear_validate_verdicts(1) by blast+
  have p: "clean (reduced (update_param oper k w xml) s) oper" "same_document s (reduced (update_param oper k w xml) s)" for k w xml
    using assms clean_enter update_param_errors(2) by blast+
  have i: "clean (reduced (update_empty_param_inclusion oper n j b) s) oper"
      "same_document s (reduced (update_empty_param_inclusion oper n j b) s)" for n j b
    using assms clean_include update_inclusion_errors(2) by blast+
  have k: "clean (snd (on_click pf oas3 body oper s)) oper" "same_document s (snd (on_click pf oas3 body oper s))" for body
    using v c same_document_trans [OF v(2) c(2)]
    by (simp_all add: on_click_def handle_validate_parameters_def Let_def)
  show "clean (form_step pf oas3 oper e s) oper"
    using p(1) i(1) v(1) k(1)
    by (cases e) (simp_all add: form_step_def change_param_by_identity_def change_param_def)
  show "same_document s (form_step pf oas3 oper e s)"
    using p(2) i(2) v(2) k(2)
    by (cases e) (simp_all add: form_step_def change_param_by_identity_def change_param_def)
qed

lemma run_clean:
  "clean s oper \<Longrightarrow> clean (form_run pf oas3 oper es s) oper \<and> same_document s (form_run pf oas3 oper es s)"
proof (induction es arbitrary: s)
  case (Cons e es)
  from Cons.IH [OF step_clean(1) [OF Cons.prems], of pf oas3 e] step_clean(2) [OF Cons.prems, of pf oas3 e]
  show ?case
    by (simp add: form_run_def) (blast intro: same_document_trans)
qed (simp add: form_run_def)

lemma validated_iff:
  assumes "clean s oper" and "distinct (map (param_to_identifier True) (operation_params s oper))"
    and "validate_params pf oas3 oper s = Some s'"
  shows "validate_before_execute s' oper \<longleftrightarrow> (\<forall>p \<in> set (operation_params s oper). param_verdict pf oas3 s oper p = Some [])"
proof -
  let ?ids = "param_to_identifier True ` set (operation_params s oper)"
  have "validate_before_execute s' oper \<longleftrightarrow> (\<forall>k \<in> ?ids. no_errors_at (get_in s' (params_path oper)) k)"
    using validate_params_verdicts(2) [OF assms(3)] assms(1) by (simp only: validate_before_execute_iff clean_def) blast
  with validate_params_verdicts(3) [OF assms(3,2)] show ?thesis
    by simp
qed

text \<open>C9: Whatever was entered, clicked and waited for since nothing had been entered, a click then executes the
request exactly if the body is accepted and every parameter of the operation is, provided no validator throws:
errors of earlier clicks do not linger.\<close>

theorem click_decides:
  assumes "get_in s0 (params_path oper) = None" and "s = form_run pf oas3 oper es s0"
    and "distinct (map (param_to_identifier True) (operation_params s0 oper))"
    and "validate_params pf oas3 oper s \<noteq> None"
  shows "fst (on_click pf oas3 body oper s) = Executed \<longleftrightarrow>
    body \<and> (\<forall>p \<in> set (operation_params s0 oper). param_verdict pf oas3 s oper p = Some [])"
proof -
  have s: "clean s oper" "operation_params s oper = operation_params s0 oper"
    using run_clean [OF clean_initial [OF assms(1)]] same_document_reads(2) unfolding assms(2) by blast+
  obtain s' where "validate_params pf oas3 oper s = Some s'"
    using assms(4) by blast
  with validated_iff [OF s(1) _ this] assms(3) s(2) show ?thesis
    by (simp add: on_click_def handle_validate_parameters_def reduced_def)
qed

section \<open>What is entered is what is validated\<close>

definition proper_params :: "param list \<Rightarrow> bool" where
  "proper_params ps \<longleftrightarrow>
     list_all (\<lambda>p. set_text (pr_in p) \<and> set_text (pr_name p)) ps \<and> distinct (map plain_key ps) \<and>
     distinct (map hash_key ps) \<and> (\<forall>p \<in> set ps. hash_key p \<notin> plain_key ` set ps)"

definition entered :: "spec_tree option \<Rightarrow> operation \<Rightarrow> param \<Rightarrow> js_value" where
  "entered s oper p =
     or_undefined (overlaid (meta_value s oper (plain_key p) ''value'') (meta_value s oper (hash_key p) ''value''))"

lemma proper_identifiers:
  assumes "set_text (pr_in p)" and "set_text (pr_name p)"
  shows "param_to_identifier True p = hash_key p" and "param_to_identifier False p = plain_key p"
    and "param_identifiers True p = [Some (hash_key p), Some (plain_key p), pr_name p]"
  using assms by (simp_all add: param_to_identifier_def param_identifiers_def)

lemma find_identity:
  assumes "distinct (map plain_key ps)" and "p \<in> set ps"
  shows "find (\<lambda>e. pr_in e = pr_in p \<and> pr_name e = pr_name p) ps = Some p"
  using assms
proof (induction ps)
  case (Cons q ps)
  show ?case
  proof (cases "q = p")
    case False
    with Cons.prems have p: "p \<in> set ps" by simp
    with Cons.prems have "plain_key q \<noteq> plain_key p" by auto
    then have "\<not> (pr_in q = pr_in p \<and> pr_name q = pr_name p)"
      by (auto simp: plain_key_def)
    with Cons p show ?thesis by auto
  qed simp
qed simp

lemma assoc_put_fresh: "k \<notin> fst ` set m \<Longrightarrow> assoc_put k v m = m @ [(k, v)]"
  by (induction m) auto

lemma fold_assoc_put_fresh:
  assumes "distinct (map f xs)" and "\<forall>x \<in> set xs. f x \<notin> fst ` set m"
  shows "fold (\<lambda>x m. assoc_put (f x) (g x) m) xs m = m @ map (\<lambda>x. (f x, g x)) xs"
  using assms
proof (induction xs arbitrary: m)
  case (Cons x xs)
  have "assoc_put (f x) (g x) m = m @ [(f x, g x)]"
    using Cons.prems(2) by (intro assoc_put_fresh) simp
  moreover have "\<forall>y \<in> set xs. f y \<notin> fst ` set (m @ [(f x, g x)])"
    using Cons.prems by (auto simp: image_iff)
  ultimately show ?case
    using Cons.IH Cons.prems(1) by simp
qed simp

lemma parameter_values_eq:
  assumes "proper_params (operation_params s oper)"
  shows "parameter_values False s oper = map (\<lambda>p. (plain_key p, entered s oper p)) (operation_params s oper)"
proof -
  let ?ps = "operation_params s oper"
  let ?m = "\<lambda>p. \<lparr>pm_param = p,
      pm_value = overlaid (meta_value s oper (plain_key p) ''value'') (meta_value s oper (hash_key p) ''value''),
      pm_value_xml = overlaid (meta_value s oper (plain_key p) ''value_xml'') (meta_value s oper (hash_key p) ''value_xml'')\<rparr>"
  have d: "distinct (map plain_key ?ps)" and full: "\<forall>p \<in> set ?ps. param_to_identifier False p = plain_key p"
    using assms by (auto simp: proper_params_def list_all_iff proper_identifiers)
  have "parameter_with_meta_by_identity s oper p = Some (?m p)" if "p \<in> set ?ps" for p
    unfolding parameter_with_meta_by_identity_def find_identity [OF d that] by simp
  then have "List.map_filter (parameter_with_meta_by_identity s oper) ?ps = map ?m ?ps"
    by (simp add: List.map_filter_def)
  then have "parameter_values False s oper =
      fold (\<lambda>p values. assoc_put (param_to_identifier False p) (entered s oper p) values) ?ps []"
    by (simp add: parameter_values_def fold_map comp_def entered_def)
  also have "\<dots> = fold (\<lambda>p values. assoc_put (plain_key p) (entered s oper p) values) ?ps []"
    using full by (intro fold_cong) auto
  also have "\<dots> = map (\<lambda>p. (plain_key p, entered s oper p)) ?ps"
    using fold_assoc_put_fresh [OF d, of "[]" "entered s oper"] by simp
  finally show ?thesis .
qed

lemma assoc_get_values:
  "distinct (map f xs) \<Longrightarrow> x \<in> set xs \<Longrightarrow> assoc_get (map (\<lambda>x. (f x, g x)) xs) (f x) = Some (g x)"
  by (induction xs) (auto, metis image_eqI)

lemma assoc_get_values_None: "k \<notin> f ` set xs \<Longrightarrow> assoc_get (map (\<lambda>x. (f x, g x)) xs) k = None"
  by (induction xs) auto

definition plain_objects :: "platform \<Rightarrow> bool" where
  "plain_objects pf \<longleftrightarrow> (\<forall>m k. k \<notin> set object_members \<longrightarrow> pf_member pf (VObj m) k = VUndef)"

lemma no_dot_in_members: "k \<in> set object_members \<Longrightarrow> 46 \<notin> set k"
  by (auto simp: object_members_def)

lemma hash_key_no_member: "hash_key p \<notin> set object_members"
  using no_dot_in_members [of "hash_key p"] by (auto simp: hash_key_def plain_key_def)

lemma param_to_value_entered:
  assumes "proper_params (operation_params s oper)" and "p \<in> set (operation_params s oper)"
    and "plain_objects pf" and "entered s oper p \<noteq> VUndef"
  shows "param_to_value pf p (parameter_values False s oper) = entered s oper p"
proof -
  let ?ps = "operation_params s oper"
  have p: "set_text (pr_in p)" "set_text (pr_name p)" "hash_key p \<notin> plain_key ` set ?ps" "distinct (map plain_key ?ps)"
    using assms(1,2) by (auto simp: proper_params_def list_all_iff)
  have "property_of pf (VObj (parameter_values False s oper)) (hash_key p) = Some VUndef"
    using assms(3) hash_key_no_member [of p]
    by (simp add: property_of_def parameter_values_eq [OF assms(1)] assoc_get_values_None [OF p(3)] plain_objects_def)
  moreover have "property_of pf (VObj (parameter_values False s oper)) (plain_key p) = Some (entered s oper p)"
    by (simp add: property_of_def parameter_values_eq [OF assms(1)] assoc_get_values [OF p(4) assms(2)])
  ultimately show ?thesis
    using assms(4) by (simp add: param_to_value_def proper_identifiers(3) [OF p(1,2)] undefined_text_def)
qed

lemma entered_after_change:
  assumes "change_param_by_identity oper p v False s = Some s'"
    and "proper_params (operation_params s oper)" and "p \<in> set (operation_params s oper)"
    and "q \<in> set (operation_params s oper)"
  shows "entered s' oper q = (if q = p then v else entered s oper q)"
proof -
  let ?ps = "operation_params s oper"
  have p: "param_to_identifier True p = hash_key p"
    using assms(2,3) by (auto simp: proper_params_def list_all_iff proper_identifiers)
  have u: "update_param oper (hash_key p) v False s = Some s'"
    using assms(1) by (simp add: change_param_by_identity_def p)
  have "plain_key q \<noteq> hash_key p"
    using assms(2-4) unfolding proper_params_def by (metis image_eqI)
  moreover have "hash_key q = hash_key p \<longleftrightarrow> q = p"
    using assms(2-4) by (auto simp: proper_params_def distinct_map dest: inj_onD)
  ultimately show ?thesis
    by (simp add: entered_def update_param_meta_value [OF u] overlaid_def or_undefined_def)
qed


section \<open>An example\<close>

definition example_param :: "string \<Rightarrow> bool \<Rightarrow> schema \<Rightarrow> param" where
  "example_param name req u =
     \<lparr>pr_name = Some (js name), pr_in = Some (js ''query''), pr_hash = js ''7'', pr_required = req,
      pr_schema = (\<lambda>_. Some u), pr_media = (\<lambda>_. None)\<rparr>"

definition text_schema :: schema where
  "text_schema = Schema False (ReqBool False) None None (js ''string'') [] None None VUndef None None [] None []"

definition example_operation :: operation where
  "example_operation = (js ''/p'', js ''get'')"

definition example_document :: "param list \<Rightarrow> spec_tree option" where
  "example_document ps =
     Some (Branch [(js ''json'', Branch [(js ''paths'', Branch [(js ''/p'', Branch [(js ''get'',
       Branch [(js ''parameters'', Leaf (SParams ps))])])])])])"

lemma example_document_reads [simp]:
  "operation_params (example_document ps) example_operation = ps"
  "get_in (example_document ps) (params_path example_operation) = None"
  by (simp_all add: operation_params_def operation_node_def spec_json_with_resolved_subtrees_def example_document_def
      example_operation_def child_def members_of_def get_in_child params_path_eq)

abbreviation limit_param :: param where
  "limit_param \<equiv> example_param ''limit'' True (example_schema ''integer'' (Some 7) None)"

abbreviation member_param :: param where
  "member_param \<equiv> example_param ''toString'' False text_schema"

definition member_platform :: platform where
  "member_platform = example_platform\<lparr>pf_member := (\<lambda>v k. if k \<in> set object_members then VBuiltin k else VUndef)\<rparr>"

lemma member_name:
  "js ''toString'' \<in> set object_members"
  "pf_member member_platform v (js ''toString'') = VBuiltin (js ''toString'')"
  by (simp_all add: member_platform_def object_members_def del: js_simps)

lemma member_param_fields:
  "pr_name member_param = Some (js ''toString'')" "pr_schema member_param b = Some text_schema"
  "s_type text_schema = js ''string''" "s_format text_schema = []"
  by (simp_all add: example_param_def text_schema_def del: js_simps)

lemma example_proper [simp]: "proper_params [limit_param, example_param ''q'' False text_schema]"
  "proper_params [member_param]" "plain_objects member_platform" "plain_objects example_platform"
  by (simp_all add: proper_params_def example_param_def set_text_def plain_key_def hash_key_def undefined_text_def
      plain_objects_def member_platform_def example_platform_def)

section \<open>What is executed\<close>

lemma executed_verdicts:
  assumes "fst (on_click pf oas3 body oper s) = Executed" and "validate_params pf oas3 oper s = Some s'"
    and "distinct (map (param_to_identifier True) (operation_params s oper))" and "p \<in> set (operation_params s oper)"
  shows "param_verdict pf oas3 s oper p = Some []"
proof -
  have "validate_before_execute s' oper"
    using assms(1,2) by (simp add: on_click_def handle_validate_parameters_def reduced_def split: if_splits)
  with validate_params_verdicts(3) [OF assms(2-4)] show ?thesis
    by (simp add: validate_before_execute_iff)
qed




lemma record_errors_throws: "p \<in> set ps \<Longrightarrow> judge p = None \<Longrightarrow> record_errors judge ps t = None"
proof (induction ps arbitrary: t)
  case (Cons q ps)
  then show ?case
    by (cases "q = p") (auto simp: bind_eq_None_conv simp del: js_simps)
qed simp



lemma member_name_value:
  assumes "proper_params (operation_params s oper)" and "p \<in> set (operation_params s oper)" and "plain_objects pf"
    and "entered s oper p = VUndef" and "pr_name p = Some k" and "k \<in> set object_members"
    and "pf_member pf (VObj (parameter_values False s oper)) k = VBuiltin b"
  shows "param_to_value pf p (parameter_values False s oper) = VBuiltin b"
proof -
  let ?ps = "operation_params s oper"
  have p: "set_text (pr_in p)" "set_text (pr_name p)" "hash_key p \<notin> plain_key ` set ?ps" "distinct (map plain_key ?ps)"
    using assms(1,2) by (auto simp: proper_params_def list_all_iff)
  have "k \<notin> plain_key ` set ?ps"
    using no_dot_in_members [OF assms(6)] by (auto simp: plain_key_def)
  then have "property_of pf (VObj (parameter_values False s oper)) k = Some (VBuiltin b)"
    using assms(7) by (simp add: property_of_def parameter_values_eq [OF assms(1)] assoc_get_values_None)
  moreover have "property_of pf (VObj (parameter_values False s oper)) (hash_key p) = Some VUndef"
    using assms(3) hash_key_no_member [of p]
    by (simp add: property_of_def parameter_values_eq [OF assms(1)] assoc_get_values_None [OF p(3)] plain_objects_def)
  moreover have "property_of pf (VObj (parameter_values False s oper)) (plain_key p) = Some VUndef"
    using assms(4) by (simp add: property_of_def parameter_values_eq [OF assms(1)] assoc_get_values [OF p(4) assms(2)])
  ultimately show ?thesis
    by (simp add: param_to_value_def proper_identifiers(3) [OF p(1,2)] undefined_text_def assms(5))
qed

text \<open>C40: A text parameter whose name is that of a member every object inherits, such as toString, and for which
nothing was entered is not accepted, even if it is optional: the inherited member is taken for its value.\<close>

theorem inherited_name_rejected:
  assumes "proper_params (operation_params s oper)" and "p \<in> set (operation_params s oper)" and "plain_objects pf"
    and "entered s oper p = VUndef" and "pr_name p = Some k" and "k \<in> set object_members"
    and "pf_member pf (VObj (parameter_values False s oper)) k = VBuiltin b"
    and "pr_schema p oas3 = Some u" and "s_type u = js ''string''" and "s_format u = []"
  shows "param_verdict pf oas3 s oper p \<noteq> Some []"
proof
  assume "param_verdict pf oas3 s oper p = Some []"
  then have v: "validate pf (parameter_inclusion_setting_for s oper p) (pr_media p oas3) (pr_required p) u (VBuiltin b) = Some []"
    using member_name_value [OF assms(1-7)] by (simp add: param_verdict_def validate_value_def assms(8))
  have "type_check pf (VBuiltin b) u = Some []"
    by (rule validate_checked(2) [OF v]) (simp_all add: assms(9) missing_def)
  then show False
    using assms(9,10) by (simp add: type_check_def Let_def)
qed

theorem inherited_name_rejected_witness:
  "param_verdict member_platform False (example_document [member_param]) example_operation member_param \<noteq> Some []"
proof -
  have "entered (example_document [member_param]) example_operation member_param = VUndef"
    by code_simp
  then show ?thesis
    by (intro inherited_name_rejected [where k = "js ''toString''" and b = "js ''toString''" and u = text_schema])
       (simp_all add: member_name member_param_fields del: js_simps)
qed

theorem click_decides_witness:
  "let p = example_param ''q'' False text_schema
   in fst (on_click example_platform False True example_operation
        (form_run example_platform False example_operation [Click False, Timer] (example_document [p]))) = Executed"
proof -
  let ?p = "example_param ''q'' False text_schema"
  let ?s = "form_run example_platform False example_operation [Click False, Timer] (example_document [?p])"
  have "validate_params example_platform False example_operation ?s \<noteq> None"
    and "param_verdict example_platform False ?s example_operation ?p = Some []"
    by code_simp+
  then show ?thesis
    using click_decides [of "example_document [?p]" example_operation ?s example_platform False "[Click False, Timer]" True]
    by simp
qed


end
