(* ===== verification/Bit_Count.thy ===== *)
theory Bit_Count
  imports "HOL-Library.Word"
begin

unbundle bit_operations_syntax

text \<open>
  The number of bits of a word as \<^verbatim>\<open>swagger-ui-es-bundle.js\<close> computes it (its function
  \<^verbatim>\<open>gt\<close>, which numbers the children of a trie node): sums of neighbouring fields of one,
  two and four bits under masks, then of the bytes.  Each step is shown to add neighbouring digits of a
  larger base (\<open>fold_bits\<close> to \<open>fold_bytes\<close>); \<open>bit_count_popcount\<close> is the
  equivalence with the count of the bits that are set.
\<close>

text \<open>The steps of \<^verbatim>\<open>gt\<close>; the right shift of JavaScript keeps the sign.\<close>

definition bit_count :: "32 word \<Rightarrow> 32 word" where
  "bit_count e =
     (let e = e - (signed_drop_bit 1 e AND 1431655765);
          e = (858993459 AND e) + (signed_drop_bit 2 e AND 858993459);
          e = (e + signed_drop_bit 4 e) AND 252645135;
          e = e + signed_drop_bit 8 e
      in 127 AND (e + signed_drop_bit 16 e))"

lemma and_digit:
  fixes a b c d :: nat
  assumes "a < 2 ^ n" "c < 2 ^ n"
  shows "(a + 2 ^ n * b) AND (c + 2 ^ n * d) = (a AND c) + 2 ^ n * (b AND d)"
proof (rule bit_eqI)
  have split: "take_bit n (a + 2 ^ n * b) = a" "drop_bit n (a + 2 ^ n * b) = b" if "a < 2 ^ n" for a b :: nat
    using that by (simp_all add: take_bit_eq_mod drop_bit_eq_div)
  have "take_bit n (a AND c) = a AND c"
    using assms by (simp add: take_bit_nat_eq_self)
  then have lt: "(a AND c) < 2 ^ n"
    by (metis take_bit_nat_less_exp)
  fix m
  show "bit ((a + 2 ^ n * b) AND (c + 2 ^ n * d)) m = bit ((a AND c) + 2 ^ n * (b AND d)) m"
  proof (cases "m < n")
    case True
    then have "bit x m = bit (take_bit n x) m" for x :: nat
      by (simp add: bit_take_bit_iff)
    from this [of "a + 2 ^ n * b"] this [of "c + 2 ^ n * d"] this [of "(a AND c) + 2 ^ n * (b AND d)"]
    show ?thesis using assms lt by (simp add: split bit_and_iff)
  next
    case False
    then have "bit x m = bit (drop_bit n x) (m - n)" for x :: nat
      by (simp add: bit_drop_bit_eq)
    from this [of "a + 2 ^ n * b"] this [of "c + 2 ^ n * d"] this [of "(a AND c) + 2 ^ n * (b AND d)"]
    show ?thesis using assms lt by (simp add: split bit_and_iff)
  qed
qed

text \<open>Numbers as lists of digits in base \<open>2 ^ n\<close>, lowest first; \<open>lows n m\<close> is the mask
of every second digit and \<open>pair_sums\<close> adds neighbours.\<close>

definition digits :: "nat \<Rightarrow> nat list \<Rightarrow> nat" where
  "digits n = horner_sum id (2 ^ n)"

lemma digits_simps [simp]: "digits n [] = 0" "digits n (d # ds) = d + 2 ^ n * digits n ds"
  by (simp_all add: digits_def)

fun lows :: "nat \<Rightarrow> nat \<Rightarrow> nat" where
  "lows n 0 = 0"
| "lows n (Suc m) = (2 ^ n - 1) + 2 ^ (2 * n) * lows n m"

fun pair_sums :: "nat list \<Rightarrow> nat list" where
  "pair_sums (a # b # ds) = (a + b) # pair_sums ds"
| "pair_sums ds = ds"

lemma list_in_pairs:
  assumes "length ds = 2 * Suc m"
  obtains a b ds' where "ds = a # b # ds'" "length ds' = 2 * m"
  using assms by (cases ds; cases "tl ds") auto

lemma low_and: "x AND (2 ^ n - 1) = x mod (2 ^ n :: nat)"
  by (simp only: take_bit_eq_mod [symmetric] take_bit_eq_mask mask_eq_exp_minus_1)

lemma double_power: "2 ^ (2 * n) = 2 ^ n * (2 ^ n :: nat)"
  by (simp add: mult_2 power_add)

lemma two_digits: "a + 2 ^ n * (b + 2 ^ n * r) = (a + 2 ^ n * b) + 2 ^ (2 * n) * (r :: nat)"
  by (simp only: double_power) (simp add: algebra_simps)

lemma two_digits_less:
  assumes "a < 2 ^ n" "b < (2 ^ n :: nat)"
  shows "a + 2 ^ n * b < 2 ^ (2 * n)"
proof -
  have "a + 2 ^ n * b < 2 ^ n + 2 ^ n * b"
    using assms by simp
  also have "\<dots> = 2 ^ n * Suc b"
    by simp
  also have "\<dots> \<le> 2 ^ n * 2 ^ n"
    using assms by (intro mult_le_mono2) simp
  finally show ?thesis
    by (simp add: mult_2 power_add)
qed

lemma lows_and:
  assumes "a < 2 ^ n" "b < (2 ^ n :: nat)"
  shows "(a + 2 ^ n * (b + 2 ^ n * r)) AND lows n (Suc m) = a + 2 ^ (2 * n) * (r AND lows n m)"
proof -
  have "(2 ^ n - 1 :: nat) < 2 ^ (2 * n)"
    by (rule le_less_trans [of _ "2 ^ n - 1 + 2 ^ n * 0"]) (simp, rule two_digits_less, simp_all)
  then show ?thesis
    using assms two_digits_less [OF assms] by (simp only: two_digits lows.simps and_digit low_and) simp
qed

lemma lows_step:
  "A + p * B = R \<Longrightarrow> A + B = D \<Longrightarrow>
   a + p * p * A + p * (b + p * p * B) = a + p * (b + p * R) \<and>
   a + p * p * A + (b + p * p * B) = a + b + p * p * (D :: nat)"
  by (auto simp: algebra_simps)

lemma digits_lows:
  "length ds = 2 * m \<Longrightarrow> list_all (\<lambda>d. d < 2 ^ n) ds \<Longrightarrow>
   (digits n ds AND lows n m) + 2 ^ n * (digits n ds div 2 ^ n AND lows n m) = digits n ds \<and>
   (digits n ds AND lows n m) + (digits n ds div 2 ^ n AND lows n m) = digits (2 * n) (pair_sums ds)"
proof (induction m arbitrary: ds)
  case (Suc m)
  obtain a b r where ds: "ds = a # b # r" "length r = 2 * m"
    using Suc.prems(1) by (rule list_in_pairs)
  have l: "a < 2 ^ n" "b < 2 ^ n" "list_all (\<lambda>d. d < 2 ^ n) r"
    using Suc.prems(2) by (simp_all add: ds)
  let ?R = "digits n r"
  have "digits n ds div 2 ^ n = b + 2 ^ n * (?R mod 2 ^ n + 2 ^ n * (?R div 2 ^ n))"
    using l by (simp add: ds)
  then have "digits n ds div 2 ^ n AND lows n (Suc m) = b + 2 ^ (2 * n) * (?R div 2 ^ n AND lows n m)"
    using lows_and [of b n "?R mod 2 ^ n" "?R div 2 ^ n" m] l by (simp del: lows.simps)
  moreover have "digits n ds AND lows n (Suc m) = a + 2 ^ (2 * n) * (?R AND lows n m)"
    using lows_and [OF l(1,2)] by (simp add: ds del: lows.simps)
  moreover note lows_step [of "?R AND lows n m" "2 ^ n" "?R div 2 ^ n AND lows n m" ?R _ a b]
  ultimately show ?case
    using Suc.IH [OF ds(2) l(3)] by (simp only: ds digits_simps pair_sums.simps double_power)
qed simp


lemma digits_sum_lows:
  "length ds = 2 * m \<Longrightarrow> list_all (\<lambda>d. 2 * d < 2 ^ n) ds \<Longrightarrow>
   (digits n ds + digits n ds div 2 ^ n) AND lows n m = digits (2 * n) (pair_sums ds)"
proof (induction m arbitrary: ds)
  case (Suc m)
  obtain a b r where ds: "ds = a # b # r" "length r = 2 * m"
    using Suc.prems(1) by (rule list_in_pairs)
  have l: "2 * a < 2 ^ n" "2 * b < 2 ^ n" "list_all (\<lambda>d. 2 * d < 2 ^ n) r"
    using Suc.prems(2) by (simp_all add: ds)
  let ?R = "digits n r"
  have c: "2 * (?R mod 2 ^ n) < 2 ^ n"
    using l(3) by (cases r) auto
  have "digits n ds div 2 ^ n = b + 2 ^ n * ?R"
    using l by (simp add: ds)
  moreover have "?R = ?R mod 2 ^ n + 2 ^ n * (?R div 2 ^ n)"
    by simp
  ultimately have "digits n ds + digits n ds div 2 ^ n =
      (a + b) + 2 ^ n * ((b + ?R mod 2 ^ n) + 2 ^ n * (?R + ?R div 2 ^ n))"
    by (simp only: ds digits_simps) (simp add: algebra_simps)
  moreover have "((a + b) + 2 ^ n * ((b + ?R mod 2 ^ n) + 2 ^ n * (?R + ?R div 2 ^ n))) AND lows n (Suc m) =
      (a + b) + 2 ^ (2 * n) * ((?R + ?R div 2 ^ n) AND lows n m)"
    by (rule lows_and) (use l c in simp_all)
  ultimately show ?case
    using Suc.IH [OF ds(2) l(3)] by (simp only: ds pair_sums.simps digits_simps)
qed simp

lemma pair_sums_facts:
  "even (length ds) \<Longrightarrow> length (pair_sums ds) = length ds div 2"
  "list_all (\<lambda>d. d \<le> c) ds \<Longrightarrow> list_all (\<lambda>d. d \<le> 2 * c) (pair_sums ds)"
  "sum_list (pair_sums ds) = sum_list ds"
  by (induction ds rule: pair_sums.induct) auto

lemma digits_le: "list_all (\<lambda>d. d \<le> c) ds \<Longrightarrow> digits n ds \<le> c * digits n (replicate (length ds) 1)"
  by (induction ds) (auto simp: algebra_simps intro!: add_mono)

lemma digits_bound:
  "list_all (\<lambda>d. d \<le> c) ds \<Longrightarrow> c < 2 ^ n \<Longrightarrow> digits n ds < 2 ^ (n * length ds)"
proof (induction ds)
  case (Cons d ds)
  then have "d + 2 ^ n * digits n ds < 2 ^ n + 2 ^ n * digits n ds"
    by simp
  also have "\<dots> = 2 ^ n * Suc (digits n ds)"
    by simp
  also have "\<dots> \<le> 2 ^ n * 2 ^ (n * length ds)"
    using Cons by (intro mult_le_mono2) auto
  finally show ?case
    by (simp add: power_add)
qed simp

section \<open>Shifts and masks of words\<close>

lemma unat_less_32: "unat (e :: 32 word) < 2 ^ 32"
proof -
  have "unat e < 2 ^ LENGTH(32)"
    by (rule unsigned_less)
  then show ?thesis by simp
qed

lemma unat_self: "take_bit 32 (unat (e :: 32 word)) = unat e"
  using unat_less_32 by (simp only: take_bit_nat_eq_self)

lemma bit_below:
  fixes m :: "32 word"
  assumes "unat m < 2 ^ n" "bit m i"
  shows "i < n"
proof -
  have "bit (take_bit n (unat m)) i"
    using assms by (simp add: take_bit_nat_eq_self bit_unsigned_iff)
  then show ?thesis
    by (simp add: bit_take_bit_iff)
qed

lemma shift_masked:
  fixes e m :: "32 word"
  assumes "n < 32" "unat m < 2 ^ (32 - n)"
  shows "unat (signed_drop_bit n e AND m) = unat e div 2 ^ n AND unat m"
proof -
  have "signed_drop_bit n e AND m = drop_bit n e AND m"
  proof (rule bit_word_eqI)
    fix i assume i: "i < LENGTH(32)"
    have "i < 32 - n" if "bit m i"
      using bit_below [OF assms(2) that] .
    with i assms show "bit (signed_drop_bit n e AND m) i = bit (drop_bit n e AND m) i"
      by (auto simp: bit_and_iff bit_signed_drop_bit_iff bit_drop_bit_eq)
  qed
  then show ?thesis
    by (simp only: unsigned_and_eq unsigned_drop_bit_eq) (simp add: drop_bit_eq_div unat_self)
qed

lemma shift_nonneg:
  fixes e :: "32 word"
  assumes "unat e < 2 ^ 31" "n < 32"
  shows "unat (signed_drop_bit n e) = unat e div 2 ^ n"
proof -
  have "\<not> bit e 31"
    using bit_below [OF assms(1)] by blast
  then have "signed_drop_bit n e = drop_bit n e"
    using assms(2)
    by (intro bit_word_eqI)
      (auto simp: bit_signed_drop_bit_iff bit_drop_bit_eq not_le dest: bit_imp_le_length split: if_splits)
  then show ?thesis
    by (simp only: unsigned_drop_bit_eq) (simp add: drop_bit_eq_div unat_self)
qed

lemma unat_digits: "unat (e :: 32 word) = digits 1 (map (\<lambda>i. of_bool (bit e i)) [0..<32])"
proof -
  have d: "digits 1 (map (\<lambda>i. of_bool (P i)) is) = horner_sum of_bool 2 (map P is)"
    for P :: "nat \<Rightarrow> bool" and "is"
    by (induction "is") (simp_all add: digits_def)
  have "unat e = horner_sum of_bool 2 (map (bit (unat e)) [0..<32])"
    by (simp only: horner_sum_bit_eq_take_bit unat_self)
  also have "map (bit (unat e)) [0..<32] = map (bit e) [0..<32]"
    by (simp add: bit_unsigned_iff)
  finally show ?thesis
    by (simp only: d)
qed

lemma lows_numeral: "lows n (numeral k) = (2 ^ n - 1) + 2 ^ (2 * n) * lows n (pred_numeral k)"
  by (simp add: numeral_eq_Suc)

lemma masks:
  "unat (1431655765 :: 32 word) = lows 1 16"
  "unat (858993459 :: 32 word) = lows 2 8"
  "unat (252645135 :: 32 word) = lows 4 4"
  by (simp_all add: lows_numeral)

lemma fold_bits:
  fixes e :: "32 word"
  assumes e: "unat e = digits 1 ds" and len: "length ds = 2 * 16" and le: "list_all (\<lambda>d. d \<le> 1) ds"
  shows "unat (e - (signed_drop_bit 1 e AND 1431655765)) = digits 2 (pair_sums ds)"
proof -
  have m: "unat (signed_drop_bit 1 e AND 1431655765) = (unat e div 2 ^ 1) AND lows 1 16"
    by (subst masks(1) [symmetric], rule shift_masked) simp_all
  have "list_all (\<lambda>d. d < 2 ^ 1) ds"
    using le by (auto simp: list_all_iff)
  from digits_lows [OF len this] m
  have s: "(unat e AND lows 1 16) + 2 * unat (signed_drop_bit 1 e AND 1431655765) = unat e"
    "(unat e AND lows 1 16) + unat (signed_drop_bit 1 e AND 1431655765) = digits 2 (pair_sums ds)"
    by (simp_all only: e power_one_right mult_1_right)
  then have "unat (e - (signed_drop_bit 1 e AND 1431655765)) =
      unat e - unat (signed_drop_bit 1 e AND 1431655765)"
    by (intro unat_sub) (simp add: word_le_nat_alt)
  with s show ?thesis
    by linarith
qed

lemma fold_pairs:
  fixes e :: "32 word"
  assumes e: "unat e = digits 2 ds" and len: "length ds = 2 * 8" and le: "list_all (\<lambda>d. d \<le> 2) ds"
  shows "unat ((858993459 AND e) + (signed_drop_bit 2 e AND 858993459)) = digits 4 (pair_sums ds)"
proof -
  have m: "unat (signed_drop_bit 2 e AND 858993459) = (unat e div 2 ^ 2) AND lows 2 8"
    by (subst masks(2) [symmetric], rule shift_masked) simp_all
  have n: "unat (858993459 AND e) = unat e AND lows 2 8"
    by (simp only: unsigned_and_eq masks and.commute)
  have "list_all (\<lambda>d. d < 2 ^ 2) ds"
    using le by (auto simp: list_all_iff)
  from digits_lows [OF len this]
  have "unat (858993459 AND e) + unat (signed_drop_bit 2 e AND 858993459) = digits (2 * 2) (pair_sums ds)"
    by (simp only: m n e)
  moreover have "digits (2 * 2) (pair_sums ds) < 2 ^ 32"
    using digits_bound [OF pair_sums_facts(2) [OF le], of 4] len by (simp add: pair_sums_facts(1))
  ultimately show ?thesis
    by (simp add: unat_word_ariths)
qed

lemma fold_nibbles:
  fixes e :: "32 word"
  assumes e: "unat e = digits 4 ds" and len: "length ds = 2 * 4" and le: "list_all (\<lambda>d. d \<le> 4) ds"
  shows "unat ((e + signed_drop_bit 4 e) AND 252645135) = digits 8 (pair_sums ds)"
proof -
  have "unat e \<le> 4 * digits 4 (replicate (length ds) 1)"
    unfolding e by (rule digits_le [OF le])
  moreover have "replicate (length ds) 1 = [1, 1, 1, 1, 1, 1, 1, 1 :: nat]"
    by (simp only: len) (code_simp)
  ultimately have "unat e < 2 ^ 31"
    by simp
  then have u: "unat (e + signed_drop_bit 4 e) = unat e + unat e div 2 ^ 4"
    by (simp add: unat_word_ariths shift_nonneg)
  have "list_all (\<lambda>d. 2 * d < 2 ^ 4) ds"
    using le by (auto simp: list_all_iff)
  from digits_sum_lows [OF len this]
  have "(unat e + unat e div 2 ^ 4) AND lows 4 4 = digits 8 (pair_sums ds)"
    by (simp add: e)
  then show ?thesis
    by (simp only: unsigned_and_eq masks u)
qed

lemma fold_bytes:
  fixes e :: "32 word"
  assumes e: "unat e = digits 8 ds" and len: "length ds = 4" and le: "list_all (\<lambda>d. d \<le> 8) ds"
  defines "h \<equiv> e + signed_drop_bit 8 e"
  shows "unat (127 AND (h + signed_drop_bit 16 h)) = sum_list ds"
proof -
  obtain a b c d where abcd: "ds = [a, b, c, d]"
    using len by (auto simp: numeral_eq_Suc length_Suc_conv)
  have l: "a \<le> 8" "b \<le> 8" "c \<le> 8" "d \<le> 8"
    using le by (simp_all add: abcd)
  define q where "q = (c + d) + 256 * d"
  have h: "unat h = (a + b) + 256 * (b + c) + 65536 * q"
    using l by (simp add: h_def q_def unat_word_ariths shift_nonneg e abcd)
  have "unat (signed_drop_bit 16 h) = q"
    using l by (subst shift_nonneg) (simp_all add: h div_mult_self4 q_def)
  then have "unat (h + signed_drop_bit 16 h) = unat h + q"
    using l by (simp add: unat_word_ariths h q_def)
  also have "\<dots> = (a + b + c + d) + 2 ^ 7 * (2 * (b + c) + 512 * q + 2 * d)"
    by (simp add: h q_def)
  finally have "unat (h + signed_drop_bit 16 h) mod 2 ^ 7 = (a + b + c + d) mod 2 ^ 7"
    by (simp only: mod_mult_self2)
  moreover have "unat (127 AND (h + signed_drop_bit 16 h)) = unat (h + signed_drop_bit 16 h) mod 2 ^ 7"
    by (simp only: unsigned_and_eq and.commute [of "unat 127"] flip: low_and) simp
  ultimately show ?thesis
    using l by (simp add: abcd)
qed

lemma bit_count_sum:
  "unat (bit_count e) = sum_list (map (\<lambda>i. of_bool (bit e i)) [0..<32])"
proof -
  let ?ds = "map (\<lambda>i. of_bool (bit e i) :: nat) [0..<32]"
  have 1: "list_all (\<lambda>d. d \<le> 1) ?ds"
    by (simp only: list_all_iff) auto
  note 2 = pair_sums_facts(2) [OF 1]
  note 4 = pair_sums_facts(2) [OF 2]
  note 8 = pair_sums_facts(2) [OF 4]
  have len: "length ?ds = 2 * 16" "length (pair_sums ?ds) = 2 * 8"
    "length (pair_sums (pair_sums ?ds)) = 2 * 4" "length (pair_sums (pair_sums (pair_sums ?ds))) = 4"
    by (simp_all add: pair_sums_facts(1))
  note f = fold_bytes [OF fold_nibbles [OF fold_pairs [OF fold_bits [OF unat_digits]]]]
  have "unat (bit_count e) = sum_list (pair_sums (pair_sums (pair_sums ?ds)))"
    unfolding bit_count_def Let_def
    by (rule f) (use 1 2 4 8 len in simp_all)
  then show ?thesis
    by (simp only: pair_sums_facts(3))
qed

text \<open>The reference: the number of bits that are set.\<close>

definition popcount :: "32 word \<Rightarrow> nat" where
  "popcount w = length (filter (bit w) [0..<32])"

theorem bit_count_popcount: "unat (bit_count w) = popcount w"
proof -
  have "sum_list (map (\<lambda>i. of_bool (bit w i)) is) = length (filter (bit w) is)" for "is"
    by (induction "is") simp_all
  then show ?thesis
    by (simp only: bit_count_sum popcount_def)
qed

end
