(* ===== verification/Hash_Trie.thy ===== *)
theory Hash_Trie
  imports Bit_Count
begin

unbundle bit_operations_syntax

text \<open>
  The unordered \<^verbatim>\<open>Map\<close> of the immutable collections in \<^verbatim>\<open>swagger-ui-es-bundle.js\<close>,
  in which the console keeps its state: a hash array mapped trie with 32-way branching.  The nodes are
  \<open>Bitmap\<close> (\<^verbatim>\<open>Ge\<close>, the children of the set bits), \<open>Hash_Array\<close>
  (\<^verbatim>\<open>Qe\<close>, 32 slots), \<open>Collision\<close> (\<^verbatim>\<open>Ze\<close>, entries of one hash) and
  \<open>Value_Node\<close> (\<^verbatim>\<open>Xe\<close>).  The hash function \<open>H\<close> is an argument; hashes are
  32-bit words.  The model is the one of a map without owner: the owner of a mutation only decides
  whether a copied node is written in place.  Keys are compared by equality (\<^verbatim>\<open>Immutable.is\<close>).  This
  theory holds the data and operations; \<open>Trie_Slots\<close>, \<open>Trie_Update\<close> and \<open>Hash_Map\<close>
  prove them correct.
\<close>

section \<open>The nodes\<close>

datatype ('k, 'v) node =
    Bitmap "32 word" "('k, 'v) node list"
  | Hash_Array nat "('k, 'v) node option list"
  | Collision "32 word" "('k \<times> 'v) list"
  | Value_Node "32 word" 'k 'v

text \<open>The entries of a map of at most eight entries are an array (\<^verbatim>\<open>Ye\<close>), which is a root
only; everything else is below a trie node.\<close>

datatype ('k, 'v) root = Entry_Array "('k \<times> 'v) list" | Trie "('k, 'v) node"

text \<open>What an update returns: the node itself, or another node or none with the flag that the size
changes.  The second flag of the code, that something was altered, is set exactly when the node itself is
not returned.\<close>

datatype 'n step = This | Altered bool "'n option"

text \<open>The five bits of a hash that select the child of a node at a shift; \<^verbatim>\<open>>>>\<close> takes the shift
modulo 32.\<close>

definition chunk :: "nat \<Rightarrow> 32 word \<Rightarrow> nat" where
  "chunk s h = unat (drop_bit (s mod 32) h AND 31)"

definition child_index :: "32 word \<Rightarrow> nat \<Rightarrow> nat" where
  "child_index bm u = unat (bit_count (bm AND (push_bit u 1 - 1)))"

definition bit_set :: "32 word \<Rightarrow> nat \<Rightarrow> bool" where
  "bit_set bm u \<longleftrightarrow> bm AND push_bit u 1 \<noteq> 0"

fun is_leaf :: "('k, 'v) node \<Rightarrow> bool" where
  "is_leaf (Value_Node _ _ _) = True"
| "is_leaf (Collision _ _) = True"
| "is_leaf _ = False"

section \<open>Arrays\<close>

text \<open>The array functions \<^verbatim>\<open>yt\<close>, \<^verbatim>\<open>bt\<close> and \<^verbatim>\<open>wt\<close> without an owner: a copy with an element
replaced, inserted, left out.\<close>

definition array_set :: "'a list \<Rightarrow> nat \<Rightarrow> 'a \<Rightarrow> 'a list" where
  "array_set e t n = e[t := n]"

definition splice_in :: "'a list \<Rightarrow> nat \<Rightarrow> 'a \<Rightarrow> 'a list" where
  "splice_in e t n =
     map (\<lambda>u. if u = t then n else if u < t then e ! u else e ! (u - 1)) [0..<length e + 1]"

definition splice_out :: "'a list \<Rightarrow> nat \<Rightarrow> 'a list" where
  "splice_out e t = map (\<lambda>i. if i < t then e ! i else e ! (i + 1)) [0..<length e - 1]"

text \<open>The loops over the entries of an array or collision node; \<open>put_entry\<close> stores, appends, or
removes by moving the last entry into the hole.\<close>

definition find_key :: "'k \<Rightarrow> ('k \<times> 'v) list \<Rightarrow> nat" where
  "find_key k es = length (takeWhile (\<lambda>e. k \<noteq> fst e) es)"

definition entries_get :: "('k \<times> 'v) list \<Rightarrow> 'k \<Rightarrow> 'v \<Rightarrow> 'v" where
  "entries_get es k d = (case find (\<lambda>e. k = fst e) es of None \<Rightarrow> d | Some e \<Rightarrow> snd e)"

definition put_entry :: "'k \<Rightarrow> 'v option \<Rightarrow> nat \<Rightarrow> ('k \<times> 'v) list \<Rightarrow> ('k \<times> 'v) list" where
  "put_entry k ov c es =
     (case ov of
        None \<Rightarrow> if c = length es - 1 then butlast es else (butlast es)[c := last es]
      | Some v \<Rightarrow> if c < length es then es[c := (k, v)] else es @ [(k, v)])"

definition entry_unchanged :: "'v option \<Rightarrow> nat \<Rightarrow> ('k \<times> 'v) list \<Rightarrow> bool" where
  "entry_unchanged ov c es \<longleftrightarrow> (if c < length es then Some (snd (es ! c)) = ov else ov = None)"

section \<open>Operations\<close>

fun leaf_hash :: "('k, 'v) node \<Rightarrow> 32 word" where
  "leaf_hash (Value_Node h _ _) = h"
| "leaf_hash (Collision h _) = h"
| "leaf_hash _ = 0"

fun leaf_entry :: "('k, 'v) node \<Rightarrow> ('k \<times> 'v) list" where
  "leaf_entry (Value_Node _ k v) = [(k, v)]"
| "leaf_entry _ = []"

lemma some_chunk_differs:
  assumes "h \<noteq> (h' :: 32 word)"
  shows "\<exists>j. chunk (s + 5 * j) h \<noteq> chunk (s + 5 * j) h'"
proof -
  obtain b where b: "b < 32" "bit h b \<noteq> bit h' b"
    using assms bit_word_eqI [of h h'] by auto
  define j where "j = 13 * (b + 31 * s)"
  have "s + 5 * j = b + 32 * (63 * s + 2 * b)"
    by (simp add: j_def)
  then have "(s + 5 * j) mod 32 = b"
    using b(1) by (simp only: mod_mult_self2) simp
  then have "bit (drop_bit ((s + 5 * j) mod 32) h AND 31) 0 \<noteq> bit (drop_bit ((s + 5 * j) mod 32) h' AND 31) 0"
    using b(2) by (simp add: bit_and_iff bit_drop_bit_eq)
  then have "chunk (s + 5 * j) h \<noteq> chunk (s + 5 * j) h'"
    unfolding chunk_def by (metis word_unat_eq_iff)
  then show ?thesis ..
qed

text \<open>\<^verbatim>\<open>st\<close>: a leaf and a new entry below a node that branches where their hashes differ.  The code
calls it with a value node, or with a collision node of another hash, so that \<^verbatim>\<open>entry\<close> is read of
value nodes only.  It ends because two different hashes differ in some chunk.\<close>

function merge_into :: "nat \<Rightarrow> 32 word \<Rightarrow> 'k \<Rightarrow> 'v \<Rightarrow> ('k, 'v) node \<Rightarrow> ('k, 'v) node" where
  "merge_into s h k v e =
     (if leaf_hash e = h then Collision h (leaf_entry e @ [(k, v)])
      else
        (let i = chunk s (leaf_hash e); u = chunk s h; bm = push_bit i 1 OR push_bit u 1 in
         Bitmap bm
           (if i = u then [merge_into (s + 5) h k v e]
            else if i < u then [e, Value_Node h k v] else [Value_Node h k v, e])))"
  by auto
termination
proof (relation "measure (\<lambda>(s, h, k, v, e). LEAST j. chunk (s + 5 * j) (leaf_hash e) \<noteq> chunk (s + 5 * j) h)")
  fix s h k v and e :: "('a, 'b) node" and i u bm
  assume ne: "leaf_hash e \<noteq> h" and i: "i = chunk s (leaf_hash e)" "u = chunk s h" "i = u"
  let ?P = "\<lambda>j. chunk (s + 5 * j) (leaf_hash e) \<noteq> chunk (s + 5 * j) h"
  have "\<exists>j. ?P j"
    using some_chunk_differs [OF ne] .
  then have P: "?P (Least ?P)"
    by (rule LeastI_ex)
  then obtain n where n: "Least ?P = Suc n"
    using i by (cases "Least ?P") auto
  with P have "chunk (s + 5 + 5 * n) (leaf_hash e) \<noteq> chunk (s + 5 + 5 * n) h"
    by (simp add: add.assoc add.commute)
  then have "(LEAST j. chunk (s + 5 + 5 * j) (leaf_hash e) \<noteq> chunk (s + 5 + 5 * j) h) \<le> n"
    by (rule Least_le)
  with n show "((s + 5, h, k, v, e), s, h, k, v, e) \<in>
      measure (\<lambda>(s, h, k, v, e). LEAST j. chunk (s + 5 * j) (leaf_hash e) \<noteq> chunk (s + 5 * j) h)"
    by simp
qed simp

declare merge_into.simps [simp del]

text \<open>\<^verbatim>\<open>ft\<close>: a bitmap node becomes an array of 32 slots; the loop ends when no bit is left.\<close>

definition node_at :: "'a list \<Rightarrow> nat \<Rightarrow> 'a option" where
  "node_at t a = (if a < length t then Some (t ! a) else None)"

lemma shift_decreases [termination_simp]:
  "(n :: 32 word) \<noteq> 0 \<Longrightarrow> unat (drop_bit (Suc 0) n) < unat n"
  by (simp only: unsigned_drop_bit_eq) (simp add: drop_bit_eq_div unat_self unat_gt_0)

function expand_loop :: "'a list \<Rightarrow> nat \<Rightarrow> nat \<Rightarrow> 32 word \<Rightarrow> 'a option list \<Rightarrow> nat \<times> 'a option list" where
  "expand_loop t a u n i =
     (if n = 0 then (a, i)
      else if 1 AND n \<noteq> 0
      then expand_loop t (a + 1) (u + 1) (drop_bit 1 n) (i[u := node_at t a])
      else expand_loop t a (u + 1) (drop_bit 1 n) (i[u := None]))"
  by auto
termination
  by (relation "measure (\<lambda>(t, a, u, n, i). unat n)") (simp_all add: shift_decreases)

declare expand_loop.simps [simp del]

definition expand_nodes :: "('k, 'v) node list \<Rightarrow> 32 word \<Rightarrow> nat \<Rightarrow> ('k, 'v) node \<Rightarrow> ('k, 'v) node" where
  "expand_nodes t bm r n =
     (let (a, i) = expand_loop t 0 0 bm (replicate 32 None) in Hash_Array (a + 1) (i[r := Some n]))"

text \<open>\<^verbatim>\<open>lt\<close>: an array of slots becomes a bitmap node without slot \<open>r\<close>.  The code allocates the
list with the count of the node, which is the number of nodes it writes.\<close>

fun pack_loop :: "nat \<Rightarrow> nat \<Rightarrow> 32 word \<Rightarrow> 'a option list \<Rightarrow> 32 word \<Rightarrow> 'a list \<Rightarrow> 32 word \<times> 'a list" where
  "pack_loop r u s [] bm i = (bm, i)"
| "pack_loop r u s (l # t) bm i =
     (case l of
        Some n \<Rightarrow>
          if u \<noteq> r then pack_loop r (u + 1) (push_bit 1 s) t (bm OR s) (i @ [n])
          else pack_loop r (u + 1) (push_bit 1 s) t bm i
      | None \<Rightarrow> pack_loop r (u + 1) (push_bit 1 s) t bm i)"

definition pack_nodes :: "('k, 'v) node option list \<Rightarrow> nat \<Rightarrow> ('k, 'v) node" where
  "pack_nodes t r = (let (bm, i) = pack_loop r 0 1 t 0 [] in Bitmap bm i)"

text \<open>The ends of the three updates of a bitmap node and a slot array: a new child, another child or
none at a slot that has one, any change of a slot array.  A bitmap node that would hold one leaf is
replaced by it, one of sixteen children is expanded, a slot array of fewer than eight is packed.\<close>

definition bitmap_insert ::
  "32 word \<Rightarrow> ('k, 'v) node list \<Rightarrow> nat \<Rightarrow> nat \<Rightarrow> ('k, 'v) node \<Rightarrow> ('k, 'v) node" where
  "bitmap_insert bm ns u f n =
     (if 16 \<le> length ns then expand_nodes ns bm u n
      else Bitmap (bm OR push_bit u 1) (splice_in ns f n))"

definition bitmap_replace ::
  "32 word \<Rightarrow> ('k, 'v) node list \<Rightarrow> nat \<Rightarrow> nat \<Rightarrow> ('k, 'v) node option \<Rightarrow> ('k, 'v) node" where
  "bitmap_replace bm ns u f d =
     (case d of
        None \<Rightarrow>
          if length ns = 2 \<and> is_leaf (ns ! (1 XOR f)) then ns ! (1 XOR f)
          else Bitmap (bm XOR push_bit u 1) (splice_out ns f)
      | Some n \<Rightarrow>
          if length ns = 1 \<and> is_leaf n then n
          else Bitmap bm (array_set ns f n))"

definition hash_array_put ::
  "nat \<Rightarrow> ('k, 'v) node option list \<Rightarrow> nat \<Rightarrow> ('k, 'v) node option \<Rightarrow> ('k, 'v) node option \<Rightarrow> ('k, 'v) node" where
  "hash_array_put c ns u l d =
     (if l \<noteq> None
      then if d = None
           then if c - 1 < 8 then pack_nodes ns u else Hash_Array (c - 1) (array_set ns u d)
           else Hash_Array c (array_set ns u d)
      else Hash_Array (c + 1) (array_set ns u d))"

definition no_child :: "32 word \<Rightarrow> 'k \<Rightarrow> 'v option \<Rightarrow> ('k, 'v) node step" where
  "no_child h k ov =
     (case ov of None \<Rightarrow> This | Some v \<Rightarrow> Altered True (Some (Value_Node h k v)))"

definition slot_at :: "'a option list \<Rightarrow> nat \<Rightarrow> 'a option" where
  "slot_at ns u = (if u < length ns then ns ! u else None)"

lemma size_slot [termination_simp]:
  "slot_at ns u = Some n \<Longrightarrow> size n < Suc (size_list (size_option size) ns)"
  by (auto simp: slot_at_def split: if_splits dest!: nth_mem intro!: le_imp_less_Suc size_list_estimation')

lemma size_child [termination_simp]:
  "f < length ns \<Longrightarrow> size (ns ! f) < Suc (size_list size ns)"
  by (auto dest!: nth_mem intro!: le_imp_less_Suc size_list_estimation')

text \<open>The method \<^verbatim>\<open>update\<close> of the four classes of nodes (\<^verbatim>\<open>Ge\<close>, \<^verbatim>\<open>Qe\<close>, \<^verbatim>\<open>Ze\<close>, \<^verbatim>\<open>Xe\<close>);
\<open>None\<close> as the new value is the marker of a removal, \<open>h\<close> the hash of \<open>k\<close>, \<open>no_child\<close> the
branch of \<^verbatim>\<open>it\<close> for a missing node.\<close>

fun node_update :: "nat \<Rightarrow> 32 word \<Rightarrow> 'k \<Rightarrow> 'v option \<Rightarrow> ('k, 'v) node \<Rightarrow> ('k, 'v) node step" where
  "node_update s h k ov (Bitmap bm ns) =
     (let u = chunk s h; f = child_index bm u in
      if bit_set bm u
      then (case if f < length ns then node_update (s + 5) h k ov (ns ! f) else no_child h k ov of
              This \<Rightarrow> This
            | Altered g d \<Rightarrow> Altered g (Some (bitmap_replace bm ns u f d)))
      else (case ov of
              None \<Rightarrow> This
            | Some v \<Rightarrow> Altered True (Some (bitmap_insert bm ns u f (Value_Node h k v)))))"
| "node_update s h k ov (Hash_Array c ns) =
     (let u = chunk s h in
      case (case slot_at ns u of
              Some n \<Rightarrow> node_update (s + 5) h k ov n
            | None \<Rightarrow> no_child h k ov) of
        This \<Rightarrow> This
      | Altered g d \<Rightarrow> Altered g (Some (hash_array_put c ns u (slot_at ns u) d)))"
| "node_update s h k ov (Collision ch es) =
     (if h \<noteq> ch
      then (case ov of
              None \<Rightarrow> This
            | Some v \<Rightarrow> Altered True (Some (merge_into s h k v (Collision ch es))))
      else
        (let c = find_key k es in
         if entry_unchanged ov c es then This
         else Altered (ov = None \<or> length es \<le> c)
           (Some (if ov = None \<and> length es = 2
                  then Value_Node ch (fst (es ! (1 XOR c))) (snd (es ! (1 XOR c)))
                  else Collision ch (put_entry k ov c es)))))"
| "node_update s h k ov (Value_Node vh k' v') =
     (if (if k = k' then ov = Some v' else ov = None) then This
      else (case ov of
              None \<Rightarrow> Altered True None
            | Some v \<Rightarrow>
                if k = k' then Altered False (Some (Value_Node vh k v))
                else Altered True (Some (merge_into s h k v (Value_Node vh k' v')))))"

declare node_update.simps(1,2) [simp del]

text \<open>The method \<^verbatim>\<open>get\<close> with its default; the outer \<open>None\<close> is the \<^verbatim>\<open>TypeError\<close> of a read of
a missing child.\<close>

fun node_get :: "nat \<Rightarrow> 32 word \<Rightarrow> 'k \<Rightarrow> 'v \<Rightarrow> ('k, 'v) node \<Rightarrow> 'v option" where
  "node_get s h k d (Bitmap bm ns) =
     (let u = chunk s h; f = child_index bm u in
      if \<not> bit_set bm u then Some d
      else if f < length ns then node_get (s + 5) h k d (ns ! f) else None)"
| "node_get s h k d (Hash_Array c ns) =
     (case slot_at ns (chunk s h) of
        None \<Rightarrow> Some d
      | Some n \<Rightarrow> node_get (s + 5) h k d n)"
| "node_get s h k d (Collision ch es) = Some (entries_get es k d)"
| "node_get s h k d (Value_Node vh k' v') = Some (if k = k' then v' else d)"

definition in_order :: "bool \<Rightarrow> 'a list \<Rightarrow> 'a list" where
  "in_order reverse xs = (if reverse then rev xs else xs)"

lemma set_in_order [simp]: "set (in_order r xs) = set xs"
  by (simp add: in_order_def)

lemma size_in_order [termination_simp]:
  "n \<in> set ns \<Longrightarrow> size n < Suc (size_list size ns)"
  "Some n \<in> set ms \<Longrightarrow> size n < Suc (size_list (size_option size) ms)"
  by (auto intro!: le_imp_less_Suc size_list_estimation')

text \<open>The entries a full run of \<^verbatim>\<open>iterate\<close> visits, forwards or in reverse.\<close>

fun node_iterate :: "bool \<Rightarrow> ('k, 'v) node \<Rightarrow> ('k \<times> 'v) list" where
  "node_iterate r (Bitmap bm ns) = concat (map (node_iterate r) (in_order r ns))"
| "node_iterate r (Hash_Array c ns) =
     concat (map (\<lambda>a. case a of None \<Rightarrow> [] | Some n \<Rightarrow> node_iterate r n) (in_order r ns))"
| "node_iterate r (Collision ch es) = in_order r es"
| "node_iterate r (Value_Node vh k v) = [(k, v)]"

section \<open>Maps\<close>

text \<open>\<^verbatim>\<open>ct\<close>: the ninth entry of an array turns it into a trie of all entries; \<open>None\<close> is the node
that is missing.\<close>

definition create_step ::
  "('k \<Rightarrow> 32 word) \<Rightarrow> 'k \<times> 'v \<Rightarrow> ('k, 'v) node option \<Rightarrow> ('k, 'v) node option" where
  "create_step H i o' =
     (case o' of
        None \<Rightarrow> None
      | Some n \<Rightarrow>
          (case node_update 0 (H (fst i)) (fst i) (Some (snd i)) n of
             This \<Rightarrow> Some n
           | Altered g d \<Rightarrow> d))"

definition create_nodes ::
  "('k \<Rightarrow> 32 word) \<Rightarrow> ('k \<times> 'v) list \<Rightarrow> 'k \<Rightarrow> 'v \<Rightarrow> ('k, 'v) node option" where
  "create_nodes H es k v = fold (create_step H) es (Some (Value_Node (H k) k v))"

definition array_update ::
  "('k \<Rightarrow> 32 word) \<Rightarrow> 'k \<Rightarrow> 'v option \<Rightarrow> ('k \<times> 'v) list \<Rightarrow> ('k, 'v) root step" where
  "array_update H k ov es =
     (let c = find_key k es; found = c < length es in
      if entry_unchanged ov c es then This
      else Altered (ov = None \<or> \<not> found)
        (if ov = None \<and> length es = 1 then None
         else (case ov of
                 Some v \<Rightarrow>
                   if \<not> found \<and> 8 \<le> length es then map_option Trie (create_nodes H es k v)
                   else Some (Entry_Array (put_entry k ov c es))
               | None \<Rightarrow> Some (Entry_Array (put_entry k ov c es)))))"

fun root_update ::
  "('k \<Rightarrow> 32 word) \<Rightarrow> 'k \<Rightarrow> 'v option \<Rightarrow> ('k, 'v) root \<Rightarrow> ('k, 'v) root step" where
  "root_update H k ov (Entry_Array es) = array_update H k ov es"
| "root_update H k ov (Trie n) =
     (case node_update 0 (H k) k ov n of
        This \<Rightarrow> This
      | Altered g d \<Rightarrow> Altered g (map_option Trie d))"

record ('k, 'v) hmap =
  hm_size :: int
  hm_root :: "('k, 'v) root option"

definition hm_empty :: "('k, 'v) hmap" where
  "hm_empty = \<lparr>hm_size = 0, hm_root = None\<rparr>"

text \<open>\<^verbatim>\<open>at\<close>, the update behind \<^verbatim>\<open>set\<close> and \<^verbatim>\<open>remove\<close>.\<close>

definition hm_update :: "('k \<Rightarrow> 32 word) \<Rightarrow> 'k \<Rightarrow> 'v option \<Rightarrow> ('k, 'v) hmap \<Rightarrow> ('k, 'v) hmap" where
  "hm_update H k ov m =
     (case hm_root m of
        Some r \<Rightarrow>
          (case root_update H k ov r of
             This \<Rightarrow> m
           | Altered resized d \<Rightarrow>
               (let size = hm_size m + (if resized then if ov = None then -1 else 1 else 0) in
                case d of
                  None \<Rightarrow> hm_empty
                | Some r' \<Rightarrow> \<lparr>hm_size = size, hm_root = Some r'\<rparr>))
      | None \<Rightarrow>
          (case ov of
             None \<Rightarrow> m
           | Some v \<Rightarrow> \<lparr>hm_size = 1, hm_root = Some (Entry_Array [(k, v)])\<rparr>))"

definition hm_set :: "('k \<Rightarrow> 32 word) \<Rightarrow> 'k \<Rightarrow> 'v \<Rightarrow> ('k, 'v) hmap \<Rightarrow> ('k, 'v) hmap" where
  "hm_set H k v = hm_update H k (Some v)"

definition hm_remove :: "('k \<Rightarrow> 32 word) \<Rightarrow> 'k \<Rightarrow> ('k, 'v) hmap \<Rightarrow> ('k, 'v) hmap" where
  "hm_remove H k = hm_update H k None"

definition hm_get :: "('k \<Rightarrow> 32 word) \<Rightarrow> ('k, 'v) hmap \<Rightarrow> 'k \<Rightarrow> 'v \<Rightarrow> 'v option" where
  "hm_get H m k d =
     (case hm_root m of
        None \<Rightarrow> Some d
      | Some (Entry_Array es) \<Rightarrow> Some (entries_get es k d)
      | Some (Trie n) \<Rightarrow> node_get 0 (H k) k d n)"

definition hm_iterate :: "bool \<Rightarrow> ('k, 'v) hmap \<Rightarrow> ('k \<times> 'v) list" where
  "hm_iterate r m =
     (case hm_root m of
        None \<Rightarrow> []
      | Some (Entry_Array es) \<Rightarrow> in_order r es
      | Some (Trie n) \<Rightarrow> node_iterate r n)"

definition hm_clear :: "('k, 'v) hmap \<Rightarrow> ('k, 'v) hmap" where
  "hm_clear m = (if hm_size m = 0 then m else hm_empty)"

end
