(* ===== verification/Trie_Slots.thy ===== *)
theory Trie_Slots
  imports Hash_Trie
begin

unbundle bit_operations_syntax

text \<open>
  Both inner nodes of the trie seen as 32 slots.  The operations on the compressed arrays are updates
  of the slots (\<open>spread_insert\<close>, \<open>spread_delete\<close>, \<open>expand_nodes_slots\<close>,
  \<open>pack_nodes_slots\<close>), the invariant \<open>node_ok\<close>, and the meaning of a node as a
  map: \<open>slots_lookup\<close> and \<open>slots_update\<close>.
\<close>

section \<open>Slots of a bitmap\<close>

text \<open>The 32 slots of a bitmap node: the children spread over the set bits.  \<open>filled\<close> collects the
children of a slot list again.\<close>

fun spread :: "bool list \<Rightarrow> 'a list \<Rightarrow> 'a option list" where
  "spread [] ns = []"
| "spread (False # bs) ns = None # spread bs ns"
| "spread (True # bs) [] = None # spread bs []"
| "spread (True # bs) (n # ns) = Some n # spread bs ns"

definition filled :: "'a option list \<Rightarrow> 'a list" where
  "filled sl = map the (filter (\<lambda>a. a \<noteq> None) sl)"

lemma filled_simps [simp]:
  "filled [] = []" "filled (None # sl) = filled sl" "filled (Some n # sl) = n # filled sl"
  "filled (sl @ sl') = filled sl @ filled sl'"
  by (simp_all add: filled_def)

definition trues :: "bool list \<Rightarrow> nat" where
  "trues bs = length (filter id bs)"

lemma trues_simps [simp]:
  "trues [] = 0" "trues (b # bs) = of_bool b + trues bs" "trues (bs @ bs') = trues bs + trues bs'"
  by (simp_all add: trues_def)

lemma length_spread [simp]: "length (spread bs ns) = length bs"
  by (induction bs ns rule: spread.induct) simp_all

lemma filled_spread: "length ns = trues bs \<Longrightarrow> filled (spread bs ns) = ns"
  by (induction bs ns rule: spread.induct) simp_all

lemma spread_filled: "spread (map (\<lambda>a. a \<noteq> None) sl) (filled sl) = sl"
  by (induction sl) (auto simp: filled_def)

lemma trues_filled: "trues (map (\<lambda>a. a \<noteq> None) sl) = length (filled sl)"
  by (simp add: trues_def filled_def filter_map comp_def)

lemma trues_take_less:
  "i < length bs \<Longrightarrow> bs ! i \<Longrightarrow> trues (take i bs) < trues bs"
proof (induction bs arbitrary: i)
  case (Cons b bs)
  then show ?case by (cases i) auto
qed simp

lemma trues_take_le: "trues (take i bs) \<le> trues bs"
  by (induction bs arbitrary: i) (auto simp: take_Cons split: nat.splits)

lemma spread_nth:
  "i < length bs \<Longrightarrow> length ns = trues bs \<Longrightarrow>
   spread bs ns ! i = (if bs ! i then Some (ns ! trues (take i bs)) else None)"
  by (induction bs ns arbitrary: i rule: spread.induct) (auto simp: nth_Cons split: nat.splits)

lemma spread_replace:
  "i < length bs \<Longrightarrow> bs ! i \<Longrightarrow> length ns = trues bs \<Longrightarrow>
   spread bs (ns[trues (take i bs) := n]) = (spread bs ns)[i := Some n]"
  by (induction bs ns arbitrary: i rule: spread.induct) (auto simp: nth_Cons split: nat.splits)

lemma spread_insert:
  "i < length bs \<Longrightarrow> \<not> bs ! i \<Longrightarrow> length ns = trues bs \<Longrightarrow>
   spread (bs[i := True]) (take (trues (take i bs)) ns @ n # drop (trues (take i bs)) ns) =
   (spread bs ns)[i := Some n]"
  by (induction bs ns arbitrary: i rule: spread.induct) (auto simp: nth_Cons split: nat.splits)

lemma spread_delete:
  "i < length bs \<Longrightarrow> bs ! i \<Longrightarrow> length ns = trues bs \<Longrightarrow>
   spread (bs[i := False]) (take (trues (take i bs)) ns @ drop (Suc (trues (take i bs))) ns) =
   (spread bs ns)[i := None]"
  by (induction bs ns arbitrary: i rule: spread.induct) (auto simp: nth_Cons split: nat.splits)

lemma trues_update:
  "i < length bs \<Longrightarrow> \<not> bs ! i \<Longrightarrow> trues (bs[i := True]) = Suc (trues bs)"
  "i < length bs \<Longrightarrow> bs ! i \<Longrightarrow> Suc (trues (bs[i := False])) = trues bs"
  by (induction bs arbitrary: i) (auto simp: nth_Cons split: nat.splits)

definition bits :: "32 word \<Rightarrow> bool list" where
  "bits bm = map (bit bm) [0..<32]"

lemma length_bits [simp]: "length (bits bm) = 32"
  by (simp add: bits_def)

lemma nth_bits [simp]: "i < 32 \<Longrightarrow> bits bm ! i = bit bm i"
  by (simp add: bits_def)

lemma popcount_bits: "popcount bm = trues (bits bm)"
  by (simp add: popcount_def trues_def bits_def filter_map comp_def)

lemma chunk_less [simp]: "chunk s h < 32"
proof -
  have "unat (drop_bit (s mod 32) h AND 31) = unat (drop_bit (s mod 32) h) AND (2 ^ 5 - 1)"
    by (simp only: unsigned_and_eq) simp
  then show ?thesis
    by (simp only: chunk_def low_and) simp
qed

lemma bit_flag [simp]: "u < 32 \<Longrightarrow> bit (2 ^ u :: 32 word) i \<longleftrightarrow> i = u"
  by (auto simp: bit_exp_iff)

lemma bit_set_bit [simp]: "u < 32 \<Longrightarrow> bit_set bm u = bit bm u"
  using bit_eq_iff [of "bm AND 2 ^ u" 0] by (simp add: bit_set_def bit_and_iff)

lemma bits_below:
  assumes "u < 32"
  shows "bit (push_bit u 1 - 1 :: 32 word) i \<longleftrightarrow> i < u"
proof -
  have "(push_bit u 1 - 1 :: 32 word) = mask u"
    by (simp add: mask_eq_exp_minus_1)
  then show ?thesis
    using assms by (auto simp: bit_mask_iff)
qed

lemma child_index_trues:
  assumes "u < 32"
  shows "child_index bm u = trues (take u (bits bm))"
proof -
  have "child_index bm u = length (filter (\<lambda>i. bit bm i \<and> i < u) [0..<32])"
    by (simp only: child_index_def bit_count_popcount popcount_def)
      (intro arg_cong [where f = length] filter_cong, simp_all only: bit_and_iff bits_below [OF assms])
  also have "filter (\<lambda>i. bit bm i \<and> i < u) [0..<32] = filter (bit bm) [0..<u]"
  proof -
    have "[0..<32] = [0..<u] @ [u..<32]"
      using assms by (metis le_add_diff_inverse less_imp_le upt_add_eq_append zero_le)
    then show ?thesis
      by (auto intro!: filter_cong simp: filter_False)
  qed
  also have "length \<dots> = trues (take u (bits bm))"
    using assms by (simp add: trues_def bits_def take_map filter_map comp_def)
  finally show ?thesis .
qed

lemma bits_or: "u < 32 \<Longrightarrow> bits (bm OR push_bit u 1) = (bits bm)[u := True]"
  by (auto simp: list_eq_iff_nth_eq nth_list_update bit_or_iff)

lemma bits_xor: "u < 32 \<Longrightarrow> bit bm u \<Longrightarrow> bits (bm XOR push_bit u 1) = (bits bm)[u := False]"
  by (auto simp: list_eq_iff_nth_eq nth_list_update bit_xor_iff)

lemma bits_zero: "bits 0 = replicate 32 False"
  by (auto simp: list_eq_iff_nth_eq)

lemma splice_in_take: "f \<le> length ns \<Longrightarrow> splice_in ns f n = take f ns @ n # drop f ns"
  by (rule nth_equalityI)
    (auto simp: splice_in_def nth_append nth_Cons min_def simp del: upt_Suc
      intro!: arg_cong [where f = "(!) ns"] split: nat.splits)

lemma splice_out_take: "f < length ns \<Longrightarrow> splice_out ns f = take f ns @ drop (Suc f) ns"
  by (rule nth_equalityI) (auto simp: splice_out_def nth_append min_def)

section \<open>Expanding and packing\<close>

lemma bits_shifted:
  "map (bit n) [0..<Suc k] = bit n 0 # map (bit (drop_bit 1 (n :: 32 word))) [0..<k]"
  by (simp add: upt_conv_Cons bit_drop_bit_eq comp_def flip: map_Suc_upt del: upt_Suc)

lemma spread_False: "spread (replicate k False) ns = replicate k None"
  by (induction k) simp_all

lemma expand_loop_spread:
  assumes "\<And>i. bit n i \<Longrightarrow> i < k" "length p = u" "a + trues (map (bit n) [0..<k]) \<le> length t"
  shows "expand_loop t a u n (p @ replicate k None) =
    (a + trues (map (bit n) [0..<k]), p @ spread (map (bit n) [0..<k]) (drop a t))"
  using assms
proof (induction k arbitrary: n p u a)
  case 0
  then have "n = 0"
    by (intro bit_word_eqI) auto
  with 0 show ?case
    by (simp add: expand_loop.simps)
next
  case (Suc k)
  show ?case
  proof (cases "n = 0")
    case True
    then show ?thesis
      by (simp add: expand_loop.simps trues_def spread_False flip: replicate_Suc del: upt_Suc replicate_Suc)
        (simp add: map_replicate_const spread_False del: upt_Suc replicate_Suc)
  next
    case False
    let ?n = "drop_bit 1 n"
    have one: "1 AND n \<noteq> 0 \<longleftrightarrow> bit n 0"
      using bit_set_bit [of 0 n] by (simp add: bit_set_def and.commute)
    have n': "i < k" if "bit ?n i" for i
      using Suc.prems(1) [of "Suc i"] that by (simp add: bit_drop_bit_eq)
    have 1: "trues (map (bit n) [0..<Suc k]) = of_bool (bit n 0) + trues (map (bit ?n) [0..<k])"
      by (simp only: bits_shifted trues_simps)
    have upd: "(p @ replicate (Suc k) None)[u := x] = (p @ [x]) @ replicate k None" for x
      using Suc.prems(2) by (simp add: list_update_append)
    show ?thesis
    proof (cases "bit n 0")
      case True
      with 1 Suc.prems(3) have "a < length t" by simp
      with True Suc.IH [of ?n "p @ [Some (t ! a)]" "Suc u" "Suc a"] Suc.prems(2,3) n' 1 False show ?thesis
        by (subst expand_loop.simps)
          (simp add: one upd node_at_def bits_shifted del: upt_Suc replicate_Suc flip: Cons_nth_drop_Suc)
    next
      case zero: False
      with Suc.IH [of ?n "p @ [None]" "Suc u" a] Suc.prems(2,3) n' 1 False show ?thesis
        by (subst expand_loop.simps) (simp add: one upd bits_shifted del: upt_Suc replicate_Suc)
    qed
  qed
qed

lemma expand_nodes_slots:
  assumes "length ns = popcount bm" "r < 32" "\<not> bit bm r"
  shows "expand_nodes ns bm r n = Hash_Array (Suc (length ns)) ((spread (bits bm) ns)[r := Some n])"
proof -
  have "expand_loop ns 0 0 bm ([] @ replicate 32 None) =
      (0 + trues (map (bit bm) [0..<32]), [] @ spread (map (bit bm) [0..<32]) (drop 0 ns))"
    by (rule expand_loop_spread) (use assms in \<open>auto simp: popcount_bits bits_def dest: bit_imp_le_length\<close>)
  then show ?thesis
    using assms(1) by (simp add: expand_nodes_def popcount_bits flip: bits_def)
qed

lemma Cons_diff:
  "(x # xs) ! (j - u) = (if j \<le> u then x else xs ! (j - Suc u))"
  "(x # xs)[j - u := y] = (if j \<le> u then y # xs else x # xs[j - Suc u := y])"
proof -
  have "j - u = Suc (j - Suc u)" if "\<not> j \<le> u"
    using that by simp
  then show "(x # xs) ! (j - u) = (if j \<le> u then x else xs ! (j - Suc u))"
    "(x # xs)[j - u := y] = (if j \<le> u then y # xs else x # xs[j - Suc u := y])"
    by auto
qed

definition without_slot :: "nat \<Rightarrow> nat \<Rightarrow> 'a option list \<Rightarrow> 'a option list" where
  "without_slot r u t = (if u \<le> r then t[r - u := None] else t)"

lemma without_slot_Cons:
  "without_slot r u (l # t) = (if u = r then None else l) # without_slot r (Suc u) t"
  by (auto simp: without_slot_def Cons_diff simp del: list_update.simps)

lemma pack_loop_filled:
  "u + length t = 32 \<Longrightarrow> s = push_bit u 1 \<Longrightarrow>
   \<exists>bm'. pack_loop r u s t bm i = (bm', i @ filled (without_slot r u t)) \<and>
     (\<forall>j<32. bit bm' j \<longleftrightarrow> bit bm j \<or> u \<le> j \<and> without_slot r u t ! (j - u) \<noteq> None)"
proof (induction t arbitrary: u s bm i)
  case Nil
  then show ?case by (simp add: without_slot_def filled_def)
next
  case (Cons l t)
  have s: "push_bit 1 s = push_bit (Suc u) 1" "u < 32" "Suc u + length t = 32"
    using Cons.prems by (simp_all add: push_bit_eq_mult)
  show ?case
  proof (cases "l \<noteq> None \<and> u \<noteq> r")
    case True
    then obtain n where n: "l = Some n" "u \<noteq> r" by auto
    obtain bm' where b: "pack_loop r (Suc u) (push_bit (Suc u) 1) t (bm OR s) (i @ [n]) =
        (bm', (i @ [n]) @ filled (without_slot r (Suc u) t))"
      "\<forall>j<32. bit bm' j \<longleftrightarrow> bit (bm OR s) j \<or> Suc u \<le> j \<and> without_slot r (Suc u) t ! (j - Suc u) \<noteq> None"
      using Cons.IH [OF s(3) refl] by blast
    have "bit (bm OR s) j \<longleftrightarrow> bit bm j \<or> j = u" if "j < 32" for j
      using Cons.prems(2) s(2) by (simp add: bit_or_iff)
    with b n s show ?thesis
      by (auto simp: without_slot_Cons Cons_diff Suc_le_eq)
  next
    case False
    obtain bm' where b: "pack_loop r (Suc u) (push_bit (Suc u) 1) t bm i =
        (bm', i @ filled (without_slot r (Suc u) t))"
      "\<forall>j<32. bit bm' j \<longleftrightarrow> bit bm j \<or> Suc u \<le> j \<and> without_slot r (Suc u) t ! (j - Suc u) \<noteq> None"
      using Cons.IH [OF s(3) refl] by blast
    with False s show ?thesis
      by (auto simp: without_slot_Cons Cons_diff Suc_le_eq split: option.splits)
  qed
qed

lemma pack_nodes_slots:
  assumes "length t = 32" "r < 32"
  obtains bm where "pack_nodes t r = Bitmap bm (filled (t[r := None]))"
    and "bits bm = map (\<lambda>a. a \<noteq> None) (t[r := None])"
proof -
  obtain bm where b: "pack_loop r 0 1 t 0 [] = (bm, [] @ filled (without_slot r 0 t))"
    "\<forall>j<32. bit bm j \<longleftrightarrow> bit (0 :: 32 word) j \<or> 0 \<le> j \<and> without_slot r 0 t ! (j - 0) \<noteq> None"
    using pack_loop_filled [of 0 t 1 r 0 "[]"] assms by auto
  have "bits bm = map (\<lambda>a. a \<noteq> None) (t[r := None])"
    by (rule nth_equalityI) (use assms b(2) in \<open>simp_all add: without_slot_def\<close>)
  with b(1) show thesis
    by (intro that) (simp_all add: pack_nodes_def without_slot_def)
qed

section \<open>The invariant\<close>

text \<open>A node of shift \<open>s\<close> is well-formed if its leaves carry the hashes of their keys, a child stands in
the slot its keys select, a bitmap has one to sixteen children and no single leaf, a slot array at least
eight.\<close>

definition node_keys :: "('k, 'v) node \<Rightarrow> 'k set" where
  "node_keys n = fst ` set (node_iterate False n)"

definition placed :: "('k \<Rightarrow> 32 word) \<Rightarrow> nat \<Rightarrow> ('k, 'v) node option list \<Rightarrow> bool" where
  "placed H s sl \<longleftrightarrow>
     (\<forall>i<length sl. case sl ! i of None \<Rightarrow> True | Some n \<Rightarrow> \<forall>e\<in>set (node_iterate False n). chunk s (H (fst e)) = i)"

fun node_ok :: "('k \<Rightarrow> 32 word) \<Rightarrow> nat \<Rightarrow> ('k, 'v) node \<Rightarrow> bool" where
  "node_ok H s (Bitmap bm ns) \<longleftrightarrow>
     s < 32 \<and> length ns = popcount bm \<and> 1 \<le> length ns \<and> length ns \<le> 16 \<and>
     (length ns = 1 \<longrightarrow> \<not> is_leaf (hd ns)) \<and> placed H s (spread (bits bm) ns) \<and>
     list_all (node_ok H (s + 5)) ns"
| "node_ok H s (Hash_Array c ns) \<longleftrightarrow>
     s < 32 \<and> length ns = 32 \<and> c = length (filled ns) \<and> 8 \<le> c \<and> placed H s ns \<and>
     list_all (\<lambda>a. case a of None \<Rightarrow> True | Some n \<Rightarrow> node_ok H (s + 5) n) ns"
| "node_ok H s (Collision h es) \<longleftrightarrow>
     2 \<le> length es \<and> distinct (map fst es) \<and> list_all (\<lambda>e. H (fst e) = h) es"
| "node_ok H s (Value_Node h k v) \<longleftrightarrow> h = H k"

definition slot_entries :: "('k, 'v) node option list \<Rightarrow> ('k \<times> 'v) list" where
  "slot_entries sl = concat (map (node_iterate False) (filled sl))"

definition slots_ok :: "('k \<Rightarrow> 32 word) \<Rightarrow> nat \<Rightarrow> ('k, 'v) node option list \<Rightarrow> bool" where
  "slots_ok H s sl \<longleftrightarrow> length sl = 32 \<and> placed H s sl \<and> list_all (node_ok H (s + 5)) (filled sl)"

definition node_map :: "('k, 'v) node \<Rightarrow> 'k \<Rightarrow> 'v option" where
  "node_map n = map_of (node_iterate False n)"

lemma list_all_filled: "list_all P (filled sl) \<longleftrightarrow> list_all (\<lambda>a. case a of None \<Rightarrow> True | Some n \<Rightarrow> P n) sl"
  by (induction sl) (auto split: option.splits)

lemma hash_array_ok:
  "node_ok H s (Hash_Array c ns) \<longleftrightarrow> s < 32 \<and> slots_ok H s ns \<and> c = length (filled ns) \<and> 8 \<le> c"
  by (auto simp: slots_ok_def list_all_filled)

lemma bitmap_ok:
  "node_ok H s (Bitmap bm ns) \<longleftrightarrow>
     s < 32 \<and> slots_ok H s (spread (bits bm) ns) \<and> length ns = popcount bm \<and>
     1 \<le> length ns \<and> length ns \<le> 16 \<and> (length ns = 1 \<longrightarrow> \<not> is_leaf (hd ns))"
  by (auto simp: slots_ok_def filled_spread popcount_bits)

declare node_ok.simps(1,2) [simp del]

lemma slot_entries_simps [simp]:
  "slot_entries [] = []" "slot_entries (None # sl) = slot_entries sl"
  "slot_entries (Some n # sl) = node_iterate False n @ slot_entries sl"
  "slot_entries (sl @ sl') = slot_entries sl @ slot_entries sl'"
  by (simp_all add: slot_entries_def)

lemma hash_array_entries: "node_iterate False (Hash_Array c ns) = slot_entries ns"
proof -
  have "concat (map (\<lambda>a. case a of None \<Rightarrow> [] | Some n \<Rightarrow> node_iterate False n) ns) = slot_entries ns"
    by (induction ns) (auto split: option.splits)
  then show ?thesis
    by (simp add: in_order_def)
qed

lemma bitmap_entries:
  "length ns = popcount bm \<Longrightarrow> node_iterate False (Bitmap bm ns) = slot_entries (spread (bits bm) ns)"
  by (simp add: slot_entries_def filled_spread popcount_bits in_order_def)

declare node_iterate.simps(1,2) [simp del]

lemma placed_key:
  assumes "placed H s sl" "i < length sl" "sl ! i = Some n" "k \<in> node_keys n"
  shows "chunk s (H k) = i"
proof -
  obtain e where "e \<in> set (node_iterate False n)" "k = fst e"
    using assms(4) by (auto simp: node_keys_def)
  with assms(1-3) show ?thesis
    by (fastforce simp: placed_def)
qed

lemma placedI:
  "(\<And>i n k. i < length sl \<Longrightarrow> sl ! i = Some n \<Longrightarrow> k \<in> node_keys n \<Longrightarrow> chunk s (H k) = i) \<Longrightarrow> placed H s sl"
  by (force simp: placed_def node_keys_def split: option.splits)

lemma placed_snoc:
  "placed H s (sl @ [a]) \<longleftrightarrow>
   placed H s sl \<and> (case a of None \<Rightarrow> True | Some n \<Rightarrow> \<forall>e\<in>set (node_iterate False n). chunk s (H (fst e)) = length sl)"
  by (auto simp: placed_def All_less_Suc nth_append)

lemma slot_entries_index:
  "placed H s sl \<Longrightarrow> e \<in> set (slot_entries sl) \<Longrightarrow> chunk s (H (fst e)) < length sl"
proof (induction sl rule: rev_induct)
  case (snoc a sl)
  then show ?case
    by (cases a) (auto simp: placed_snoc less_Suc_eq)
qed simp

lemma map_of_slot_entries:
  "placed H s sl \<Longrightarrow>
   map_of (slot_entries sl) k =
     (if chunk s (H k) < length sl
      then case sl ! chunk s (H k) of None \<Rightarrow> None | Some n \<Rightarrow> node_map n k else None)"
proof (induction sl rule: rev_induct)
  case (snoc a sl)
  have p: "placed H s sl"
    using snoc.prems by (simp add: placed_snoc)
  have out: "map_of (slot_entries sl) k = None" if "\<not> chunk s (H k) < length sl"
    using slot_entries_index [OF p] that by (force simp: map_of_eq_None_iff)
  show ?case
  proof (cases a)
    case None
    then show ?thesis
      using snoc.IH [OF p] by (auto simp: less_Suc_eq nth_append)
  next
    case (Some n)
    then have "node_map n k = None" if "chunk s (H k) \<noteq> length sl"
      using snoc.prems that by (force simp: placed_snoc node_map_def map_of_eq_None_iff)
    then show ?thesis
      using snoc.IH [OF p] out by (auto simp: Some less_Suc_eq nth_append map_add_def node_map_def split: option.splits)
  qed
qed simp

lemma distinct_slot_entries:
  "placed H s sl \<Longrightarrow> list_all (\<lambda>n. distinct (map fst (node_iterate False n))) (filled sl) \<Longrightarrow>
   distinct (map fst (slot_entries sl))"
proof (induction sl rule: rev_induct)
  case (snoc a sl)
  show ?case
  proof (cases a)
    case (Some n)
    have "fst ` set (slot_entries sl) \<inter> fst ` set (node_iterate False n) = {}"
      using snoc.prems(1) slot_entries_index [of H s sl] by (force simp: placed_snoc Some)
    with snoc show ?thesis
      by (simp add: Some placed_snoc)
  qed (use snoc in \<open>simp add: placed_snoc\<close>)
qed simp

lemma filled_mem: "n \<in> set (filled sl) \<longleftrightarrow> Some n \<in> set sl"
  by (force simp: filled_def)

theorem node_keys_distinct: "node_ok H s n \<Longrightarrow> distinct (map fst (node_iterate False n))"
proof (induction n arbitrary: s)
  case (Bitmap bm ns)
  then have b: "slots_ok H s (spread (bits bm) ns)" "length ns = popcount bm"
    by (simp_all add: bitmap_ok)
  then have "distinct (map fst (slot_entries (spread (bits bm) ns)))"
    by (intro distinct_slot_entries [of H s])
      (auto simp: slots_ok_def list_all_iff filled_spread popcount_bits intro!: Bitmap.IH)
  then show ?case
    by (simp only: bitmap_entries [OF b(2)])
next
  case (Hash_Array c ns)
  then have "slots_ok H s ns"
    by (simp add: hash_array_ok)
  then have "distinct (map fst (slot_entries ns))"
    by (intro distinct_slot_entries [of H s])
      (auto simp: slots_ok_def list_all_iff filled_mem intro!: Hash_Array.IH)
  then show ?case
    by (simp only: hash_array_entries)
qed (auto simp: in_order_def)

definition opt_map :: "('k, 'v) node option \<Rightarrow> 'k \<Rightarrow> 'v option" where
  "opt_map d = (case d of None \<Rightarrow> (\<lambda>_. None) | Some n \<Rightarrow> node_map n)"

lemma opt_map_simps [simp]: "opt_map None = (\<lambda>_. None)" "opt_map (Some n) = node_map n"
  by (simp_all add: opt_map_def)

lemma slots_lookup:
  "slots_ok H s sl \<Longrightarrow> map_of (slot_entries sl) k = opt_map (sl ! chunk s (H k)) k"
  by (auto simp: slots_ok_def map_of_slot_entries opt_map_def split: option.splits)

lemma node_keys_map: "k \<in> node_keys n \<longleftrightarrow> node_map n k \<noteq> None"
  by (force simp: node_keys_def node_map_def map_of_eq_None_iff)

lemma slots_update:
  assumes ok: "slots_ok H s sl" and u: "u = chunk s (H k)"
    and d: "opt_map d = (opt_map (sl ! u))(k := ov)" "\<And>n. d = Some n \<Longrightarrow> node_ok H (s + 5) n"
  shows "slots_ok H s (sl[u := d])"
    and "map_of (slot_entries (sl[u := d])) = (map_of (slot_entries sl))(k := ov)"
proof -
  have len: "length sl = 32"
    using ok by (simp add: slots_ok_def)
  have ul: "u < 32"
    using u by simp
  have node_keys: "chunk s (H k') = u" if "d = Some n" "k' \<in> node_keys n" for n k'
  proof (cases "k' = k")
    case False
    with that d(1) have "opt_map (sl ! u) k' \<noteq> None"
      by (metis fun_upd_other node_keys_map opt_map_simps(2))
    then obtain m where "sl ! u = Some m" "k' \<in> node_keys m"
      by (auto simp: opt_map_def node_keys_map split: option.splits)
    with ok show ?thesis
      using placed_key [of H s sl u m k'] by (simp add: slots_ok_def u)
  qed (simp add: u)
  have "placed H s (sl[u := d])"
  proof (rule placedI)
    fix i n k' assume i: "i < length (sl[u := d])" "sl[u := d] ! i = Some n" "k' \<in> node_keys n"
    show "chunk s (H k') = i"
    proof (cases "i = u")
      case True
      with i node_keys show ?thesis by simp
    next
      case False
      with i ok placed_key [of H s sl i n k'] show ?thesis by (simp add: slots_ok_def)
    qed
  qed
  moreover have "list_all (node_ok H (s + 5)) (filled (sl[u := d]))"
    using ok d(2) set_update_subset_insert [of sl u d]
    by (auto simp: slots_ok_def list_all_iff filled_mem)
  ultimately show ok': "slots_ok H s (sl[u := d])"
    by (simp add: slots_ok_def len)
  show "map_of (slot_entries (sl[u := d])) = (map_of (slot_entries sl))(k := ov)"
  proof
    fix k'
    show "map_of (slot_entries (sl[u := d])) k' = ((map_of (slot_entries sl))(k := ov)) k'"
    proof (cases "chunk s (H k') = u")
      case True
      with fun_cong [OF d(1), of k'] show ?thesis
        by (simp add: slots_lookup [OF ok'] slots_lookup [OF ok] len ul flip: u)
    next
      case False
      then have "k' \<noteq> k"
        using u by blast
      with False show ?thesis
        by (simp add: slots_lookup [OF ok'] slots_lookup [OF ok])
    qed
  qed
qed

end
