(* ===== verification/Trie_Update.thy ===== *)
theory Trie_Update
  imports Trie_Slots "HOL-Library.Multiset"
begin

unbundle bit_operations_syntax

text \<open>
  Every update of a trie node keeps the invariant and updates the map it stands for
  (\<open>node_update_ok\<close>), and every lookup reads that map (\<open>node_get_ok\<close>).  One lemma per
  class of nodes and per way a node is rebuilt.
\<close>

section \<open>Correctness of the update\<close>

text \<open>What an update promises: it returns the node itself iff nothing changes, reports a change of the size,
returns a well-formed node for the updated map, and none only when the last entry of a leaf goes.\<close>

definition update_spec ::
  "('k \<Rightarrow> 32 word) \<Rightarrow> nat \<Rightarrow> 'k \<Rightarrow> 'v option \<Rightarrow> ('k, 'v) node \<Rightarrow> ('k, 'v) node step \<Rightarrow> bool" where
  "update_spec H s k ov n st \<longleftrightarrow>
     (case st of
        This \<Rightarrow> node_map n k = ov
      | Altered g d \<Rightarrow>
          node_map n k \<noteq> ov \<and> (g \<longleftrightarrow> ov = None \<or> node_map n k = None) \<and>
          opt_map d = (node_map n)(k := ov) \<and>
          (case d of None \<Rightarrow> is_leaf n | Some n' \<Rightarrow> node_ok H s n'))"

lemma take_bit_chunk:
  assumes "s < 32" "take_bit s h = take_bit s h'" "chunk s h = chunk s h'"
  shows "take_bit (s + 5) h = take_bit (s + 5) (h' :: 32 word)"
proof (rule bit_word_eqI)
  fix i :: nat
  have "drop_bit s h AND 31 = drop_bit s h' AND 31"
    using assms(1,3) by (simp only: chunk_def mod_less word_unat_eq_iff)
  moreover have "(31 :: 32 word) = mask 5"
    by (simp add: mask_eq_exp_minus_1)
  ultimately have d: "take_bit 5 (drop_bit s h) = take_bit 5 (drop_bit s h')"
    by (simp add: take_bit_eq_mask)
  show "bit (take_bit (s + 5) h) i = bit (take_bit (s + 5) h') i"
  proof (cases "i < s")
    case True
    then show ?thesis
      using arg_cong [OF assms(2), of "\<lambda>w. bit w i"] by (simp add: bit_take_bit_iff)
  next
    case False
    then show ?thesis
      using arg_cong [OF d, of "\<lambda>w. bit w (i - s)"] by (auto simp: bit_take_bit_iff bit_drop_bit_eq)
  qed
qed

lemma take_bit_differs:
  assumes "h \<noteq> h'" "take_bit s h = take_bit s (h' :: 32 word)"
  shows "s < 32"
proof (rule ccontr)
  assume "\<not> s < 32"
  then have "take_bit s w = w" for w :: "32 word"
    by (intro bit_word_eqI) (simp add: bit_take_bit_iff)
  with assms show False by simp
qed

subsection \<open>Entry lists\<close>

lemma find_key_map:
  "distinct (map fst es) \<Longrightarrow>
   map_of es k = (if find_key k es < length es then Some (snd (es ! find_key k es)) else None)"
  by (induction es) (auto simp: find_key_def)

lemma find_key_fst: "find_key k es < length es \<Longrightarrow> fst (es ! find_key k es) = k"
  unfolding find_key_def using nth_length_takeWhile [of "\<lambda>e. k \<noteq> fst e" es] by simp

lemma entries_get_map: "entries_get es k d = (case map_of es k of None \<Rightarrow> d | Some v \<Rightarrow> v)"
  by (induction es) (auto simp: entries_get_def)

lemma find_key_absent: "\<not> find_key k es < length es \<longleftrightarrow> k \<notin> fst ` set es"
  by (induction es) (auto simp: find_key_def)

lemma entry_unchanged_map:
  "distinct (map fst es) \<Longrightarrow> entry_unchanged ov (find_key k es) es \<longleftrightarrow> map_of es k = ov"
  by (auto simp: entry_unchanged_def find_key_map)

lemma swap_remove_mset:
  assumes "c < length es" "c \<noteq> length es - 1"
  shows "mset ((butlast es)[c := last es]) = mset es - {#es ! c#}"
proof -
  obtain xs x where es: "es = xs @ [x]"
    using assms by (cases es rule: rev_cases) auto
  with assms have "c < length xs" by simp
  then show ?thesis
    by (simp add: es mset_update nth_append)
qed


lemma map_of_mset:
  assumes "distinct (map fst xs)" "mset xs = mset ys"
  shows "distinct (map fst ys)" and "map_of ys = map_of xs"
proof -
  have "mset (map fst xs) = mset (map fst ys)"
    using assms(2) by simp
  then show d: "distinct (map fst ys)"
    using assms(1) mset_eq_imp_distinct_iff by blast
  have "set xs = set ys"
    using assms(2) by (rule mset_eq_setD)
  then show "map_of ys = map_of xs"
    using assms(1) d map_of_inject_set by blast
qed

lemma map_of_found:
  "find_key k es < length es \<Longrightarrow> map_of (es[find_key k es := (k, v)]) = (map_of es)(k \<mapsto> v)"
proof (induction es)
  case (Cons e es)
  then show ?case
    by (cases e) (auto simp: find_key_def fun_upd_twist)
qed (simp add: find_key_def)

lemma put_entry_found:
  assumes "distinct (map fst es)" "find_key k es < length es"
  shows "distinct (map fst (put_entry k (Some v) (find_key k es) es))"
    and "map_of (put_entry k (Some v) (find_key k es) es) = (map_of es)(k \<mapsto> v)"
    and "set (put_entry k (Some v) (find_key k es) es) \<subseteq> insert (k, v) (set es)"
    and "length (put_entry k (Some v) (find_key k es) es) = length es"
proof -
  have "map fst (es[find_key k es := (k, v)]) = map fst es"
    using find_key_fst [OF assms(2)] assms(2)
    by (metis fst_conv list_update_id map_update nth_map)
  with assms show "distinct (map fst (put_entry k (Some v) (find_key k es) es))"
    "map_of (put_entry k (Some v) (find_key k es) es) = (map_of es)(k \<mapsto> v)"
    "set (put_entry k (Some v) (find_key k es) es) \<subseteq> insert (k, v) (set es)"
    "length (put_entry k (Some v) (find_key k es) es) = length es"
    by (simp_all add: put_entry_def map_of_found set_update_subset_insert)
qed

lemma put_entry_new:
  assumes "distinct (map fst es)" "\<not> find_key k es < length es"
  shows "distinct (map fst (put_entry k (Some v) (find_key k es) es))"
    and "map_of (put_entry k (Some v) (find_key k es) es) = (map_of es)(k \<mapsto> v)"
    and "set (put_entry k (Some v) (find_key k es) es) \<subseteq> insert (k, v) (set es)"
    and "length (put_entry k (Some v) (find_key k es) es) = Suc (length es)"
proof -
  have "map_of es k = None"
    using assms(2) find_key_absent [of k es] by (simp add: map_of_eq_None_iff)
  then have "map_of (es @ [(k, v)]) = (map_of es)(k \<mapsto> v)"
    by (auto simp: map_add_def split: option.splits)
  with assms show "distinct (map fst (put_entry k (Some v) (find_key k es) es))"
    "map_of (put_entry k (Some v) (find_key k es) es) = (map_of es)(k \<mapsto> v)"
    "set (put_entry k (Some v) (find_key k es) es) \<subseteq> insert (k, v) (set es)"
    "length (put_entry k (Some v) (find_key k es) es) = Suc (length es)"
    using find_key_absent [of k es] by (simp_all add: put_entry_def)
qed

lemma put_entry_removed:
  assumes "distinct (map fst es)" "find_key k es < length es"
  shows "distinct (map fst (put_entry k None (find_key k es) es))"
    and "map_of (put_entry k None (find_key k es) es) = (map_of es)(k := None)"
    and "set (put_entry k None (find_key k es) es) \<subseteq> set es"
    and "Suc (length (put_entry k None (find_key k es) es)) = length es"
proof -
  let ?c = "find_key k es" and ?r = "put_entry k None (find_key k es) es"
  let ?q = "take ?c es @ drop (Suc ?c) es"
  have es: "es = take ?c es @ es ! ?c # drop (Suc ?c) es"
    using assms(2) by (rule id_take_nth_drop)
  obtain x where x: "es ! ?c = (k, x)"
    using find_key_fst [OF assms(2)] by (cases "es ! ?c") simp
  have d: "distinct (map fst (take ?c es @ (k, x) # drop (Suc ?c) es))"
    using assms(1) es x by simp
  then have q: "distinct (map fst ?q)" "k \<notin> fst ` set ?q"
    by auto
  have e: "mset es = add_mset (es ! ?c) (mset ?q)"
    by (subst es) simp
  then have "mset es = mset ((k, x) # ?q)"
    by (simp add: x)
  then have "map_of es = (map_of ?q)(k \<mapsto> x)"
    using map_of_mset(2) [OF assms(1), of "(k, x) # ?q"] by (simp del: map_of_append)
  moreover have "map_of ?q k = None"
    using q(2) by (simp only: map_of_eq_None_iff not_False_eq_True)
  ultimately have m: "map_of ?q = (map_of es)(k := None)"
    by (simp only: fun_upd_upd) (metis fun_upd_triv)
  have "mset ?r = mset ?q"
  proof (cases "?c = length es - 1")
    case True
    then have "?q = butlast es"
      using assms(2) by (simp add: butlast_conv_take)
    with True show ?thesis
      by (simp add: put_entry_def)
  next
    case False
    with e assms(2) show ?thesis
      by (simp add: put_entry_def swap_remove_mset)
  qed
  then have r: "mset ?q = mset ?r" by simp
  show "distinct (map fst ?r)" "map_of ?r = (map_of es)(k := None)"
    using map_of_mset [OF q(1) r] m by simp_all
  show "set ?r \<subseteq> set es"
    using mset_eq_setD [OF r] set_take_subset [of ?c es] set_drop_subset [of "Suc ?c" es] by auto
  show "Suc (length ?r) = length es"
    using mset_eq_length [OF r] assms(2) by simp
qed

subsection \<open>Leaves\<close>

lemma leaf_facts:
  assumes "is_leaf e" "node_ok H s e"
  shows "node_ok H s' e" "\<And>k. k \<in> node_keys e \<Longrightarrow> H k = leaf_hash e"
  using assms by (cases e; auto simp: node_keys_def list_all_iff in_order_def)+

lemma merge_not_leaf: "leaf_hash e \<noteq> h \<Longrightarrow> \<not> is_leaf (merge_into s h k v e)"
  by (simp add: merge_into.simps Let_def)

lemma filled_single:
  "i < n \<Longrightarrow> filled ((replicate n None)[i := Some e]) = [e]"
proof (induction n arbitrary: i)
  case (Suc n)
  have "filled (replicate n None) = []"
    by (simp add: filled_def)
  with Suc show ?case
    by (cases i) simp_all
qed simp

lemma slots_single:
  assumes "i < 32" "node_ok H (s + 5) e" "\<And>k. k \<in> node_keys e \<Longrightarrow> chunk s (H k) = i"
  shows "slots_ok H s ((replicate 32 None)[i := Some e])"
    and "map_of (slot_entries ((replicate 32 None)[i := Some e])) = node_map e"
  using assms
  by (auto simp: slots_ok_def slot_entries_def node_map_def filled_single nth_list_update
      intro!: placedI split: if_splits)

lemma trues_replicate: "trues (replicate n False) = 0"
  by (induction n) simp_all

lemma one_slot:
  assumes "i < 32"
  shows "spread (bits (push_bit i 1)) [a] = (replicate 32 None)[i := Some a]"
    and "popcount (push_bit i 1) = 1"
proof -
  have b: "bits (push_bit i 1) = (bits 0)[i := True]"
    using bits_or [OF assms, of 0] by simp
  show "spread (bits (push_bit i 1)) [a] = (replicate 32 None)[i := Some a]"
    using spread_insert [of i "bits 0" "[]" a] assms by (simp only: b bits_zero) (simp add: trues_replicate spread_False)
  show "popcount (push_bit i 1) = 1"
    using trues_update(1) [of i "bits 0"] assms by (simp only: popcount_bits b bits_zero) (simp add: trues_replicate)
qed

lemma two_slots:
  assumes "i < 32" "u < 32" "i \<noteq> u"
  shows "spread (bits (push_bit i 1 OR push_bit u 1)) (if i < u then [a, b] else [b, a]) =
         (replicate 32 None)[i := Some a, u := Some b]"
    and "popcount (push_bit i 1 OR push_bit u 1) = 2"
proof -
  let ?bs = "bits (push_bit i 1)"
  have n: "\<not> ?bs ! u"
    using assms by simp
  have t: "trues ?bs = 1"
    using one_slot(2) [OF assms(1)] by (simp only: popcount_bits)
  have r: "trues (take u ?bs) = of_bool (i < u)"
  proof -
    have "?bs = (replicate 32 False)[i := True]"
      using bits_or [OF assms(1), of 0] by (simp add: bits_zero)
    then show ?thesis
      using assms by (cases "i < u")
        (simp_all add: take_update_swap trues_update(1) trues_replicate list_update_beyond)
  qed
  show "spread (bits (push_bit i 1 OR push_bit u 1)) (if i < u then [a, b] else [b, a]) =
         (replicate 32 None)[i := Some a, u := Some b]"
    using spread_insert [of u ?bs "[a]" b] assms n
    by (simp only: bits_or [OF assms(2)] r t one_slot(1) [OF assms(1)]) (cases "i < u"; simp)
  show "popcount (push_bit i 1 OR push_bit u 1) = 2"
    using trues_update(1) [of u ?bs] assms n t by (simp only: popcount_bits bits_or [OF assms(2)]) simp
qed

lemma merge_into_ok:
  assumes "is_leaf e" "node_ok H s0 e" "leaf_hash e \<noteq> H k" "take_bit s (leaf_hash e) = take_bit s (H k)"
  shows "node_ok H s (merge_into s (H k) k v e) \<and>
    node_map (merge_into s (H k) k v e) = (node_map e)(k \<mapsto> v)"
  using assms
proof (induction s "H k" k v e rule: merge_into.induct)
  case (1 s k v e)
  note e = leaf_facts [OF "1.prems"(1,2)]
  define i u sl where "i = chunk s (leaf_hash e)" and "u = chunk s (H k)"
    and "sl = (replicate 32 None)[i := Some e]"
  have iu: "i < 32" "u < 32"
    by (simp_all add: i_def u_def)
  have s: "s < 32"
    using "1.prems"(3,4) by (rule take_bit_differs)
  have sl: "slots_ok H s sl" "map_of (slot_entries sl) = node_map e"
    unfolding sl_def using e by (auto intro!: slots_single simp: iu i_def)
  show ?case
  proof (cases "i = u")
    case True
    have "take_bit (s + 5) (leaf_hash e) = take_bit (s + 5) (H k)"
      using "1.prems"(4) True by (intro take_bit_chunk) (simp_all add: s i_def u_def)
    with "1.hyps" "1.prems" True
    have sub: "node_ok H (s + 5) (merge_into (s + 5) (H k) k v e)"
      "node_map (merge_into (s + 5) (H k) k v e) = (node_map e)(k \<mapsto> v)"
      by (simp_all add: i_def u_def)
    let ?m = "merge_into (s + 5) (H k) k v e"
    have u: "opt_map (Some ?m) = (opt_map (sl ! u))(k := Some v)"
      using sub(2) iu by (simp add: sl_def True)
    have sl': "sl[u := Some ?m] = (replicate 32 None)[i := Some ?m]"
      by (simp add: sl_def True)
    note upd = slots_update [OF sl(1) u_def u, unfolded sl' sl(2)]
    have r: "merge_into s (H k) k v e = Bitmap (push_bit i 1) [?m]"
      using True "1.prems"(3) by (subst merge_into.simps) (simp add: i_def u_def Let_def)
    show ?thesis
      using upd sub(1) s one_slot(1) [OF iu(1), of ?m] one_slot(2) [OF iu(1)] merge_not_leaf [OF "1.prems"(3)]
      by (simp add: r bitmap_ok node_map_def bitmap_entries)
  next
    case False
    let ?m = "Value_Node (H k) k v"
    have u: "opt_map (Some ?m) = (opt_map (sl ! u))(k := Some v)"
      using iu False by (simp add: sl_def node_map_def fun_eq_iff)
    note upd = slots_update [OF sl(1) u_def u, unfolded sl(2)]
    have r: "merge_into s (H k) k v e =
        Bitmap (push_bit i 1 OR push_bit u 1) (if i < u then [e, ?m] else [?m, e])"
      using False "1.prems"(3) by (subst merge_into.simps) (simp add: i_def u_def Let_def)
    show ?thesis
      using upd s two_slots(1) [OF iu False, of e ?m] two_slots(2) [OF iu False]
      by (simp add: r bitmap_ok node_map_def bitmap_entries sl_def)
  qed
qed

lemma update_spec_This [simp]: "update_spec H s k ov n This \<longleftrightarrow> node_map n k = ov"
  by (simp add: update_spec_def)

lemma value_map [simp]: "node_map (Value_Node h k v) = [k \<mapsto> v]"
  by (simp add: node_map_def)

lemma collision_map [simp]: "node_map (Collision h es) = map_of es"
  by (simp add: node_map_def in_order_def)

lemma merge_into_collides:
  "leaf_hash e = h \<Longrightarrow> merge_into s h k v e = Collision h (leaf_entry e @ [(k, v)])"
  by (simp add: merge_into.simps)

lemma value_update_ok:
  assumes ok: "node_ok H s (Value_Node vh k' v')"
    and path: "take_bit s (H k') = take_bit s (H k)"
  shows "update_spec H s k ov (Value_Node vh k' v') (node_update s (H k) k ov (Value_Node vh k' v'))"
proof (cases ov)
  case None
  then show ?thesis
    by (auto simp: update_spec_def)
next
  case (Some v)
  show ?thesis
  proof (cases "k = k'")
    case True
    with ok Some show ?thesis
      by (auto simp: update_spec_def)
  next
    case ne: False
    let ?n = "Value_Node vh k' v'" and ?m = "merge_into s (H k) k v (Value_Node vh k' v')"
    have "node_ok H s ?m \<and> node_map ?m = (node_map ?n)(k \<mapsto> v)"
    proof (cases "vh = H k")
      case True
      with ok ne show ?thesis
        by (auto simp: merge_into_collides fun_eq_iff)
    next
      case False
      then show ?thesis
        using ok path by (intro merge_into_ok) simp_all
    qed
    with ne Some show ?thesis
      by (simp add: update_spec_def)
  qed
qed

lemma pair_removed:
  assumes es: "length es = 2" "distinct (map fst es)" and c: "find_key k es < length es"
  shows "es ! (1 XOR find_key k es) \<in> set es"
    and "[fst (es ! (1 XOR find_key k es)) \<mapsto> snd (es ! (1 XOR find_key k es))] = (map_of es)(k := None)"
proof -
  obtain a b where ab: "es = [a, b]"
    using es(1) by (auto simp: numeral_2_eq_2 length_Suc_conv)
  have "find_key k es = (if k = fst a then 0 else 1)"
    using c by (auto simp: ab find_key_def split: if_splits)
  moreover have "k = fst a \<or> k = fst b"
    using c by (auto simp: ab find_key_def split: if_splits)
  ultimately show "es ! (1 XOR find_key k es) \<in> set es"
    "[fst (es ! (1 XOR find_key k es)) \<mapsto> snd (es ! (1 XOR find_key k es))] = (map_of es)(k := None)"
    using es(2) by (cases a; cases b; auto simp: ab fun_eq_iff)+
qed

lemma collision_remove_ok:
  assumes ok: "node_ok H s (Collision (H k) es)" and c: "find_key k es < length es"
  shows "update_spec H s k None (Collision (H k) es) (node_update s (H k) k None (Collision (H k) es))"
proof -
  have es: "2 \<le> length es" "distinct (map fst es)" "\<And>e. e \<in> set es \<Longrightarrow> H (fst e) = H k"
    using ok by (auto simp: list_all_iff)
  have look: "map_of es k \<noteq> None"
    using find_key_map [OF es(2), of k] c by simp
  then have unch: "\<not> entry_unchanged None (find_key k es) es"
    by (simp add: entry_unchanged_map [OF es(2)])
  show ?thesis
  proof (cases "length es = 2")
    case True
    with pair_removed [OF True es(2) c] es(3) look unch show ?thesis
      by (auto simp: update_spec_def Let_def)
  next
    case False
    with put_entry_removed [OF es(2) c] es look unch show ?thesis
      by (auto simp: update_spec_def Let_def list_all_iff)
  qed
qed

lemma collision_put_ok:
  assumes ok: "node_ok H s (Collision (H k) es)"
    and new: "\<not> entry_unchanged (Some v) (find_key k es) es"
  shows "update_spec H s k (Some v) (Collision (H k) es) (node_update s (H k) k (Some v) (Collision (H k) es))"
proof -
  have es: "2 \<le> length es" "distinct (map fst es)" "\<And>e. e \<in> set es \<Longrightarrow> H (fst e) = H k"
    using ok by (auto simp: list_all_iff)
  have look: "map_of es k = None \<longleftrightarrow> length es \<le> find_key k es"
    using find_key_map [OF es(2), of k] by auto
  have alt: "map_of es k \<noteq> Some v"
    using new by (simp add: entry_unchanged_map [OF es(2)])
  define q where "q = put_entry k (Some v) (find_key k es) es"
  have q: "distinct (map fst q)" "map_of q = (map_of es)(k \<mapsto> v)" "set q \<subseteq> insert (k, v) (set es)"
    "2 \<le> length q"
    using put_entry_found [OF es(2), of k v] put_entry_new [OF es(2), of k v] es(1)
    unfolding q_def by (cases "find_key k es < length es"; simp)+
  have st: "node_update s (H k) k (Some v) (Collision (H k) es) =
      Altered (length es \<le> find_key k es) (Some (Collision (H k) q))"
    using new by (simp add: Let_def q_def)
  have "\<forall>e\<in>set q. H (fst e) = H k"
    using q(3) es(3) by fastforce
  with q look alt show ?thesis
    unfolding st by (simp add: update_spec_def list_all_iff)
qed

lemma collision_update_ok:
  assumes ok: "node_ok H s (Collision ch es)"
    and path: "\<And>k'. k' \<in> node_keys (Collision ch es) \<Longrightarrow> take_bit s (H k') = take_bit s (H k)"
  shows "update_spec H s k ov (Collision ch es) (node_update s (H k) k ov (Collision ch es))"
proof -
  have es: "2 \<le> length es" "distinct (map fst es)" "\<And>e. e \<in> set es \<Longrightarrow> H (fst e) = ch"
    using ok by (auto simp: list_all_iff)
  show ?thesis
  proof (cases "H k = ch")
    case False
    have "k \<notin> fst ` set es"
      using es(3) False by auto
    then have none: "map_of es k = None"
      by (simp add: map_of_eq_None_iff)
    obtain e where e: "e \<in> set es"
      using es(1) by (cases es) auto
    then have "take_bit s ch = take_bit s (H k)"
      using path [of "fst e"] es(3) by (auto simp: node_keys_def in_order_def)
    then have "node_ok H s (merge_into s (H k) k v (Collision ch es)) \<and>
        node_map (merge_into s (H k) k v (Collision ch es)) = (node_map (Collision ch es))(k \<mapsto> v)" for v
      using ok False by (intro merge_into_ok [of _ H s]) auto
    then show ?thesis
      using False none by (auto simp: update_spec_def split: option.splits)
  next
    case True
    show ?thesis
    proof (cases "entry_unchanged ov (find_key k es) es")
      case same: True
      with True entry_unchanged_map [OF es(2)] show ?thesis
        by (simp add: Let_def)
    next
      case False
      with find_key_map [OF es(2), of k] have "ov = None \<Longrightarrow> find_key k es < length es"
        using entry_unchanged_map [OF es(2), of ov k] by (auto split: if_splits)
      with collision_remove_ok [of H s k es] collision_put_ok [of H s k es] ok True False show ?thesis
        by (cases ov) auto
    qed
  qed
qed

lemma bitmap_map: "length ns = popcount bm \<Longrightarrow> node_map (Bitmap bm ns) = map_of (slot_entries (spread (bits bm) ns))"
  by (simp add: node_map_def bitmap_entries)

lemma hash_array_map: "node_map (Hash_Array c ns) = map_of (slot_entries ns)"
  by (simp add: node_map_def hash_array_entries)

lemma lone_slot: "filled sl = [n] \<Longrightarrow> map_of (slot_entries sl) = node_map n"
  by (simp add: slot_entries_def node_map_def)

lemma slot_of_child:
  assumes "u < 32" "length ns = popcount bm"
  shows "spread (bits bm) ns ! u = (if bit bm u then Some (ns ! child_index bm u) else None)"
    and "bit bm u \<Longrightarrow> child_index bm u < length ns" and "child_index bm u \<le> length ns"
  using assms trues_take_less [of u "bits bm"] trues_take_le [of u "bits bm"]
  by (simp_all add: spread_nth popcount_bits child_index_trues)

lemma other_of_two:
  assumes "length ns = 2" "f < length ns"
  shows "take f ns @ drop (Suc f) ns = [ns ! (1 XOR f)]"
proof -
  obtain a b where "ns = [a, b]"
    using assms(1) by (auto simp: numeral_2_eq_2 length_Suc_conv)
  moreover have "f = 0 \<or> f = 1"
    using assms by auto
  ultimately show ?thesis
    by auto
qed

lemma bitmap_slots:
  assumes "node_ok H s (Bitmap bm ns)"
  shows "s < 32" "slots_ok H s (spread (bits bm) ns)" "length ns = popcount bm" "1 \<le> length ns" "length ns \<le> 16"
    "length ns = 1 \<Longrightarrow> \<not> is_leaf (hd ns)" "length ns = trues (bits bm)"
  using assms by (auto simp: bitmap_ok popcount_bits)

lemma bitmap_put_ok:
  assumes ok: "node_ok H s (Bitmap bm ns)" and u: "u = chunk s (H k)" "bit bm u"
    and f: "f = child_index bm u"
    and d: "node_map n = (node_map (ns ! f))(k := ov)" "node_ok H (s + 5) n"
  shows "node_ok H s (bitmap_replace bm ns u f (Some n)) \<and>
    node_map (bitmap_replace bm ns u f (Some n)) = (node_map (Bitmap bm ns))(k := ov)"
proof -
  let ?sl = "spread (bits bm) ns"
  note b = bitmap_slots [OF ok]
  have u32: "u < 32" by (simp add: u)
  note c = slot_of_child [OF u32 b(3), folded f]
  have "opt_map (Some n) = (opt_map (?sl ! u))(k := ov)"
    using d(1) c(1) u(2) by simp
  note upd = slots_update [OF b(2) u(1) this, simplified, OF d(2)]
  have sp: "spread (bits bm) (ns[f := n]) = ?sl[u := Some n]"
    using spread_replace [of u "bits bm" ns n] u u32 b(7) by (simp add: f child_index_trues)
  then have pr: "filled (?sl[u := Some n]) = ns[f := n]"
    using filled_spread [of "ns[f := n]" "bits bm"] b(7) by simp
  show ?thesis
  proof (cases "length ns = 1 \<and> is_leaf n")
    case True
    with c(2) u(2) pr have "filled (?sl[u := Some n]) = [n]"
      by (cases ns) auto
    with upd True d(2) leaf_facts(1) [of n H] b(3) show ?thesis
      by (auto simp: bitmap_replace_def bitmap_map lone_slot)
  next
    case False
    then have "length ns = 1 \<longrightarrow> \<not> is_leaf (hd (ns[f := n]))"
      using c(2) u(2) by (cases ns) auto
    with False upd b show ?thesis
      by (auto simp: bitmap_replace_def array_set_def bitmap_ok bitmap_map sp)
  qed
qed

lemma bitmap_remove_ok:
  assumes ok: "node_ok H s (Bitmap bm ns)" and u: "u = chunk s (H k)" "bit bm u"
    and f: "f = child_index bm u"
    and d: "(\<lambda>_. None) = (node_map (ns ! f))(k := ov)" "is_leaf (ns ! f)"
  shows "node_ok H s (bitmap_replace bm ns u f None) \<and>
    node_map (bitmap_replace bm ns u f None) = (node_map (Bitmap bm ns))(k := ov)"
proof -
  let ?sl = "spread (bits bm) ns" and ?q = "take f ns @ drop (Suc f) ns" and ?o = "ns ! (1 XOR f)"
  note b = bitmap_slots [OF ok]
  have u32: "u < 32" by (simp add: u)
  note c = slot_of_child [OF u32 b(3), folded f]
  have fl: "f < length ns" using c(2) u(2) .
  have "opt_map None = (opt_map (?sl ! u))(k := ov)"
    using d(1) c(1) u(2) by simp
  note upd = slots_update [OF b(2) u(1) this, simplified]
  have sp: "spread ((bits bm)[u := False]) ?q = ?sl[u := None]"
    using spread_delete [of u "bits bm" ns] u u32 b(7) by (simp add: f child_index_trues)
  have tr: "Suc (trues ((bits bm)[u := False])) = length ns"
    using trues_update(2) [of u "bits bm"] u u32 b(7) by simp
  then have pr: "filled (?sl[u := None]) = ?q"
    using filled_spread [of ?q "(bits bm)[u := False]"] fl by (simp add: sp)
  show ?thesis
  proof (cases "length ns = 2 \<and> is_leaf ?o")
    case True
    then have q: "?q = [?o]"
      using other_of_two [of ns f] fl by simp
    then have "node_ok H (s + 5) ?o"
      using upd(1) pr by (simp add: slots_ok_def)
    with q upd(2) True leaf_facts(1) [of ?o H] b(3) pr show ?thesis
      by (auto simp: bitmap_replace_def bitmap_map lone_slot)
  next
    case False
    have "length ns \<noteq> 1"
      using b(6) d(2) fl by (cases ns) auto
    moreover have "\<not> is_leaf (hd ?q)" if "length ns = 2"
      using other_of_two [of ns f] that False fl by simp
    moreover have bx: "bits (bm XOR push_bit u 1) = (bits bm)[u := False]"
      using u32 u(2) by (rule bits_xor)
    moreover have "length ?q = length ns - 1"
      using fl by simp
    ultimately have "node_ok H s (Bitmap (bm XOR push_bit u 1) ?q) \<and>
        node_map (Bitmap (bm XOR push_bit u 1) ?q) = (node_map (Bitmap bm ns))(k := ov)"
      using upd b(1,3-5) tr sp by (auto simp: bitmap_ok popcount_bits bitmap_map)
    with False fl show ?thesis
      by (auto simp: bitmap_replace_def splice_out_take)
  qed
qed

lemma bitmap_insert_ok:
  assumes ok: "node_ok H s (Bitmap bm ns)" and u: "u = chunk s (H k)" "\<not> bit bm u"
  shows "node_ok H s (bitmap_insert bm ns u (child_index bm u) (Value_Node (H k) k v)) \<and>
    node_map (bitmap_insert bm ns u (child_index bm u) (Value_Node (H k) k v)) =
      (node_map (Bitmap bm ns))(k \<mapsto> v)"
proof -
  let ?sl = "spread (bits bm) ns" and ?f = "child_index bm u" and ?n = "Value_Node (H k) k v"
  let ?q = "take ?f ns @ ?n # drop ?f ns"
  note b = bitmap_slots [OF ok]
  have u32: "u < 32" by (simp add: u)
  note c = slot_of_child [OF u32 b(3)]
  have "opt_map (Some ?n) = (opt_map (?sl ! u))(k := Some v)"
    using c(1) u(2) by (simp add: fun_eq_iff)
  note upd = slots_update [OF b(2) u(1) this, simplified]
  have sp: "spread ((bits bm)[u := True]) ?q = ?sl[u := Some ?n]"
    using spread_insert [of u "bits bm" ns ?n] u u32 b(7) by (simp add: child_index_trues)
  have tr: "trues ((bits bm)[u := True]) = Suc (length ns)"
    using trues_update(1) [of u "bits bm"] u u32 b(7) by simp
  have pr: "filled (?sl[u := Some ?n]) = ?q"
    using filled_spread [of ?q "(bits bm)[u := True]"] tr c(3) by (simp add: sp)
  show ?thesis
  proof (cases "16 \<le> length ns")
    case True
    then have "bitmap_insert bm ns u ?f ?n = Hash_Array (Suc (length ns)) (?sl[u := Some ?n])"
      using expand_nodes_slots [OF b(3) u32 u(2)] by (simp add: bitmap_insert_def)
    then show ?thesis
      using upd b(1,3) True c(3) by (simp add: hash_array_ok hash_array_map bitmap_map pr)
  next
    case False
    have "node_ok H s (Bitmap (bm OR push_bit u 1) ?q) \<and>
        node_map (Bitmap (bm OR push_bit u 1) ?q) = (node_map (Bitmap bm ns))(k \<mapsto> v)"
      using upd b(1,3,4) False tr sp c(3) bits_or [OF u32, of bm]
      by (auto simp: bitmap_ok popcount_bits bitmap_map)
    with False c(3) show ?thesis
      by (simp add: bitmap_insert_def splice_in_take)
  qed
qed


lemma filled_update:
  assumes "u < length sl"
  shows "sl ! u = None \<Longrightarrow> length (filled (sl[u := Some n])) = Suc (length (filled sl))"
    and "sl ! u \<noteq> None \<Longrightarrow> length (filled (sl[u := Some n])) = length (filled sl)"
    and "sl ! u \<noteq> None \<Longrightarrow> Suc (length (filled (sl[u := None]))) = length (filled sl)"
proof -
  have "(map (\<lambda>a. a \<noteq> None) sl)[u := True] = map (\<lambda>a. a \<noteq> None) sl" if "sl ! u \<noteq> None"
    using that assms by (metis (mono_tags, lifting) list_update_id nth_map)
  then show "sl ! u = None \<Longrightarrow> length (filled (sl[u := Some n])) = Suc (length (filled sl))"
    "sl ! u \<noteq> None \<Longrightarrow> length (filled (sl[u := Some n])) = length (filled sl)"
    "sl ! u \<noteq> None \<Longrightarrow> Suc (length (filled (sl[u := None]))) = length (filled sl)"
    using assms trues_update [of u "map (\<lambda>a. a \<noteq> None) sl"]
    by (simp_all add: map_update flip: trues_filled)
qed

lemma hash_array_put_ok:
  assumes ok: "node_ok H s (Hash_Array c ns)" and u: "u = chunk s (H k)"
    and d: "opt_map d = (opt_map (ns ! u))(k := ov)" "\<And>n. d = Some n \<Longrightarrow> node_ok H (s + 5) n"
      "ns ! u = None \<Longrightarrow> d \<noteq> None"
  shows "node_ok H s (hash_array_put c ns u (ns ! u) d) \<and>
    node_map (hash_array_put c ns u (ns ! u) d) = (node_map (Hash_Array c ns))(k := ov)"
proof -
  have h: "s < 32" "slots_ok H s ns" "c = length (filled ns)" "8 \<le> c" "length ns = 32"
    using ok by (auto simp: hash_array_ok slots_ok_def)
  have u32: "u < length ns" by (simp add: u h)
  note upd = slots_update [OF h(2) u d(1,2)]
  note len = filled_update [OF u32]
  show ?thesis
  proof (cases "ns ! u \<noteq> None \<and> d = None \<and> c - 1 < 8")
    case True
    then obtain bm where bm: "pack_nodes ns u = Bitmap bm (filled (ns[u := d]))"
      "bits bm = map (\<lambda>a. a \<noteq> None) (ns[u := d])"
      using pack_nodes_slots [OF h(5), of u] u32 h(5) by auto
    have "length (filled (ns[u := d])) = popcount bm"
      by (simp only: popcount_bits bm trues_filled)
    moreover have "spread (bits bm) (filled (ns[u := d])) = ns[u := d]"
      by (simp only: bm spread_filled)
    moreover have "length (filled (ns[u := d])) = 7"
    proof -
      have "Suc (length (filled (ns[u := d]))) = c"
        using True len(3) h(3) by auto
      with True h(4) show ?thesis by linarith
    qed
    ultimately show ?thesis
      using True upd h(1) by (simp add: hash_array_put_def bm(1) bitmap_ok bitmap_map hash_array_map)
  next
    case False
    show ?thesis
    proof (cases "ns ! u = None")
      case True
      with d(3) obtain n where "d = Some n" by auto
      with True len(1) upd h show ?thesis
        by (simp add: hash_array_put_def hash_array_ok hash_array_map array_set_def)
    next
      case sm: False
      show ?thesis
      proof (cases d)
        case None
        with sm False len(3) upd h show ?thesis
          by (auto simp: hash_array_put_def hash_array_ok hash_array_map array_set_def)
      next
        case (Some n)
        with sm len(2) [of n] upd h show ?thesis
          by (auto simp: hash_array_put_def hash_array_ok hash_array_map array_set_def)
      qed
    qed
  qed
qed

section \<open>All nodes\<close>

lemma slot_child:
  assumes ok: "slots_ok H s sl" and n: "sl ! u = Some n" and u: "u = chunk s (H k)" and s: "s < 32"
    and path: "\<And>k'. k' \<in> fst ` set (slot_entries sl) \<Longrightarrow> take_bit s (H k') = take_bit s (H k)"
  shows "node_ok H (s + 5) n" and "k' \<in> node_keys n \<Longrightarrow> take_bit (s + 5) (H k') = take_bit (s + 5) (H k)"
proof -
  have sl: "u < length sl" "placed H s sl"
    using ok by (simp_all add: u slots_ok_def)
  have mem: "n \<in> set (filled sl)"
    using n sl(1) by (metis nth_mem filled_mem)
  then show "node_ok H (s + 5) n"
    using ok by (simp add: slots_ok_def list_all_iff)
  assume k': "k' \<in> node_keys n"
  then have "k' \<in> fst ` set (slot_entries sl)"
    using mem by (force simp: slot_entries_def node_keys_def)
  then show "take_bit (s + 5) (H k') = take_bit (s + 5) (H k)"
    using placed_key [OF sl(2,1) n k'] by (intro take_bit_chunk s path) (simp_all add: u)
qed

lemma bitmap_update_ok:
  assumes ok: "node_ok H s (Bitmap bm ns)"
    and IH: "\<And>c. c \<in> set ns \<Longrightarrow> node_ok H (s + 5) c \<Longrightarrow>
      (\<And>k'. k' \<in> node_keys c \<Longrightarrow> take_bit (s + 5) (H k') = take_bit (s + 5) (H k)) \<Longrightarrow>
      update_spec H (s + 5) k ov c (node_update (s + 5) (H k) k ov c)"
    and path: "\<And>k'. k' \<in> node_keys (Bitmap bm ns) \<Longrightarrow> take_bit s (H k') = take_bit s (H k)"
  shows "update_spec H s k ov (Bitmap bm ns) (node_update s (H k) k ov (Bitmap bm ns))"
proof -
  define u f where "u = chunk s (H k)" and "f = child_index bm u"
  let ?sl = "spread (bits bm) ns"
  note b = bitmap_slots [OF ok]
  have u32: "u < 32" by (simp add: u_def)
  note c = slot_of_child [OF u32 b(3), folded f_def]
  have look: "node_map (Bitmap bm ns) k = opt_map (?sl ! u) k"
    using slots_lookup [OF b(2), of k] by (simp add: bitmap_map [OF b(3)] u_def)
  show ?thesis
  proof (cases "bit bm u")
    case False
    have "ov = Some v \<Longrightarrow> ?thesis" for v
      using bitmap_insert_ok [OF ok u_def False, of v] look c(1) False u32
      by (simp add: node_update.simps update_spec_def Let_def flip: u_def f_def)
    moreover have "ov = None \<Longrightarrow> ?thesis"
      using look c(1) False u32 by (simp add: node_update.simps Let_def flip: u_def)
    ultimately show ?thesis
      by (cases ov) auto
  next
    case True
    let ?c = "ns ! f"
    have f: "f < length ns" "?sl ! u = Some ?c"
      using c(1,2) True by simp_all
    have "take_bit s (H k') = take_bit s (H k)" if "k' \<in> fst ` set (slot_entries ?sl)" for k'
      using path that by (simp add: node_keys_def bitmap_entries [OF b(3)])
    note c' = slot_child [OF b(2) f(2) u_def b(1) this]
    have sp: "update_spec H (s + 5) k ov ?c (node_update (s + 5) (H k) k ov ?c)"
      using f(1) by (intro IH c') simp_all
    show ?thesis
    proof (cases "node_update (s + 5) (H k) k ov ?c")
      case This
      with sp look f show ?thesis
        using True u32 by (simp add: node_update.simps Let_def flip: u_def f_def)
    next
      case (Altered g d)
      with sp have d: "node_map ?c k \<noteq> ov" "g \<longleftrightarrow> ov = None \<or> node_map ?c k = None"
        "opt_map d = (node_map ?c)(k := ov)" "case d of None \<Rightarrow> is_leaf ?c | Some n' \<Rightarrow> node_ok H (s + 5) n'"
        by (auto simp: update_spec_def)
      have "node_ok H s (bitmap_replace bm ns u f d) \<and>
          node_map (bitmap_replace bm ns u f d) = (node_map (Bitmap bm ns))(k := ov)"
        using d(3,4) bitmap_put_ok [OF ok u_def True f_def] bitmap_remove_ok [OF ok u_def True f_def]
        by (cases d) simp_all
      with d(1,2) look f Altered True u32 show ?thesis
        by (simp add: node_update.simps update_spec_def Let_def flip: u_def f_def)
    qed
  qed
qed

lemma hash_array_put_spec:
  assumes ok: "node_ok H s (Hash_Array c ns)" and u: "u = chunk s (H k)"
    and "opt_map d = (opt_map (ns ! u))(k := ov)" "\<And>n. d = Some n \<Longrightarrow> node_ok H (s + 5) n"
    and "ns ! u = None \<Longrightarrow> d \<noteq> None"
    and "opt_map (ns ! u) k \<noteq> ov" "g \<longleftrightarrow> ov = None \<or> opt_map (ns ! u) k = None"
  shows "update_spec H s k ov (Hash_Array c ns) (Altered g (Some (hash_array_put c ns u (ns ! u) d)))"
proof -
  have "node_map (Hash_Array c ns) k = opt_map (ns ! u) k"
    using ok slots_lookup [of H s ns k] by (simp add: hash_array_ok hash_array_map u)
  with hash_array_put_ok [OF ok u assms(3-5)] assms(6,7) show ?thesis
    by (simp add: update_spec_def)
qed

lemma hash_array_update_ok:
  assumes ok: "node_ok H s (Hash_Array c ns)"
    and IH: "\<And>n. Some n \<in> set ns \<Longrightarrow> node_ok H (s + 5) n \<Longrightarrow>
      (\<And>k'. k' \<in> node_keys n \<Longrightarrow> take_bit (s + 5) (H k') = take_bit (s + 5) (H k)) \<Longrightarrow>
      update_spec H (s + 5) k ov n (node_update (s + 5) (H k) k ov n)"
    and path: "\<And>k'. k' \<in> node_keys (Hash_Array c ns) \<Longrightarrow> take_bit s (H k') = take_bit s (H k)"
  shows "update_spec H s k ov (Hash_Array c ns) (node_update s (H k) k ov (Hash_Array c ns))"
proof -
  define u where "u = chunk s (H k)"
  have h: "s < 32" "slots_ok H s ns" "length ns = 32"
    using ok by (auto simp: hash_array_ok slots_ok_def)
  have at: "u < length ns" "slot_at ns u = ns ! u"
    by (simp_all add: u_def slot_at_def h)
  have look: "node_map (Hash_Array c ns) k = opt_map (ns ! u) k"
    using slots_lookup [OF h(2), of k] by (simp add: hash_array_map u_def)
  note put = hash_array_put_spec [OF ok u_def]
  show ?thesis
  proof (cases "ns ! u")
    case None
    have "ov = Some v \<Longrightarrow> ?thesis" for v
      using put [where d = "Some (Value_Node (H k) k v)" and g = True] None
      by (simp add: node_update.simps Let_def no_child_def at flip: u_def)
    moreover have "ov = None \<Longrightarrow> ?thesis"
      using look None by (simp add: node_update.simps Let_def no_child_def at flip: u_def)
    ultimately show ?thesis
      by (cases ov) auto
  next
    case (Some n)
    have "take_bit s (H k') = take_bit s (H k)" if "k' \<in> fst ` set (slot_entries ns)" for k'
      using path that by (simp add: node_keys_def hash_array_entries)
    note n = slot_child [OF h(2) Some u_def h(1) this]
    have "Some n \<in> set ns"
      using at(1) Some by (metis nth_mem)
    then have sp: "update_spec H (s + 5) k ov n (node_update (s + 5) (H k) k ov n)"
      by (intro IH n)
    show ?thesis
    proof (cases "node_update (s + 5) (H k) k ov n")
      case This
      with sp look Some show ?thesis
        by (simp add: node_update.simps Let_def at flip: u_def)
    next
      case (Altered g d)
      with sp have "update_spec H s k ov (Hash_Array c ns)
          (Altered g (Some (hash_array_put c ns u (ns ! u) d)))"
        by (intro put) (auto simp: update_spec_def Some)
      with Altered Some show ?thesis
        by (simp add: node_update.simps Let_def at flip: u_def)
    qed
  qed
qed

theorem node_update_ok:
  assumes "node_ok H s n" "\<And>k'. k' \<in> node_keys n \<Longrightarrow> take_bit s (H k') = take_bit s (H k)"
  shows "update_spec H s k ov n (node_update s (H k) k ov n)"
  using assms
proof (induction n arbitrary: s)
  case (Bitmap bm ns)
  then show ?case
    by (intro bitmap_update_ok) auto
next
  case (Hash_Array c ns)
  show ?case
  proof (rule hash_array_update_ok [OF Hash_Array.prems(1)])
    fix n assume "Some n \<in> set ns"
    then have "n \<in> set_option (Some n)" "Some n \<in> set ns" by simp_all
    then show "node_ok H (s + 5) n \<Longrightarrow>
      (\<And>k'. k' \<in> node_keys n \<Longrightarrow> take_bit (s + 5) (H k') = take_bit (s + 5) (H k)) \<Longrightarrow>
      update_spec H (s + 5) k ov n (node_update (s + 5) (H k) k ov n)"
      using Hash_Array.IH by blast
  qed (use Hash_Array.prems in blast)
next
  case (Collision h es)
  then show ?case
    by (intro collision_update_ok) auto
next
  case (Value_Node h k' v')
  have "k' \<in> node_keys (Value_Node h k' v')"
    by (simp add: node_keys_def)
  then show ?case
    using Value_Node.prems by (intro value_update_ok) auto
qed

theorem node_get_ok:
  "node_ok H s n \<Longrightarrow> node_get s (H k) k d n = Some (case node_map n k of None \<Rightarrow> d | Some v \<Rightarrow> v)"
proof (induction n arbitrary: s)
  case (Bitmap bm ns)
  note b = bitmap_slots [OF Bitmap.prems]
  let ?u = "chunk s (H k)"
  note c = slot_of_child [OF chunk_less [of s "H k"] b(3)]
  have look: "node_map (Bitmap bm ns) k = opt_map (spread (bits bm) ns ! ?u) k"
    using slots_lookup [OF b(2), of k] by (simp add: bitmap_map [OF b(3)])
  show ?case
  proof (cases "bit bm ?u")
    case True
    then have "node_ok H (s + 5) (ns ! child_index bm ?u)"
      using b(2,7) c(2) by (simp add: slots_ok_def filled_spread list_all_length)
    with True c show ?thesis
      by (simp add: Let_def look Bitmap.IH)
  qed (use c(1) look in \<open>simp add: Let_def\<close>)
next
  case (Hash_Array c ns)
  let ?u = "chunk s (H k)"
  have h: "slots_ok H s ns" "length ns = 32"
    using Hash_Array.prems by (auto simp: hash_array_ok slots_ok_def)
  have look: "node_map (Hash_Array c ns) k = opt_map (ns ! ?u) k"
    using slots_lookup [OF h(1), of k] by (simp add: hash_array_map)
  show ?case
  proof (cases "ns ! ?u")
    case (Some n)
    then have mem: "Some n \<in> set ns"
      using h(2) by (metis chunk_less nth_mem)
    then have "node_ok H (s + 5) n"
      using h(1) by (auto simp: slots_ok_def list_all_iff filled_mem)
    with Hash_Array.IH [OF mem] show ?thesis
      by (simp add: look slot_at_def h Some)
  qed (use h look in \<open>simp add: slot_at_def\<close>)
qed (simp_all add: entries_get_map)

end
