(* ===== verification/Hash_Map.thy ===== *)
theory Hash_Map
  imports Trie_Update String_Hash
begin

unbundle bit_operations_syntax

text \<open>
  The map on top of the trie: its operations refine a mathematical map for every hash function
  (\<open>hash_map_refines\<close>), the iterator delivers what the recursive iteration visits
  (\<open>iterator_agrees\<close>), and the hash of one string that is no number makes the creation of nodes
  loop (\<open>empty_key_never_merged\<close>).  The locale \<open>keyed_store\<close> is the contract of
  the map; it is interpreted on these definitions as \<open>hm\<close>.
\<close>

section \<open>Maps\<close>

fun root_ok :: "('k \<Rightarrow> 32 word) \<Rightarrow> ('k, 'v) root \<Rightarrow> bool" where
  "root_ok H (Entry_Array es) \<longleftrightarrow> 1 \<le> length es \<and> length es \<le> 8 \<and> distinct (map fst es)"
| "root_ok H (Trie n) \<longleftrightarrow> node_ok H 0 n"

fun root_entries :: "('k, 'v) root \<Rightarrow> ('k \<times> 'v) list" where
  "root_entries (Entry_Array es) = es"
| "root_entries (Trie n) = node_iterate False n"

definition hm_inv :: "('k \<Rightarrow> 32 word) \<Rightarrow> ('k, 'v) hmap \<Rightarrow> bool" where
  "hm_inv H m \<longleftrightarrow>
     (case hm_root m of None \<Rightarrow> hm_size m = 0 | Some r \<Rightarrow> root_ok H r \<and> hm_size m = int (length (root_entries r)))"

definition hm_map :: "('k, 'v) hmap \<Rightarrow> 'k \<Rightarrow> 'v option" where
  "hm_map m = map_of (hm_iterate False m)"

lemma root_distinct: "root_ok H r \<Longrightarrow> distinct (map fst (root_entries r))"
  by (cases r) (auto intro: node_keys_distinct)

lemma create_step_ok:
  assumes ok: "node_ok H 0 n"
  obtains n' where "create_step H e (Some n) = Some n'" "node_ok H 0 n'"
    "node_map n' = (node_map n)(fst e \<mapsto> snd e)"
proof -
  let ?st = "node_update 0 (H (fst e)) (fst e) (Some (snd e)) n"
  have sp: "update_spec H 0 (fst e) (Some (snd e)) n ?st"
    using ok by (intro node_update_ok) simp_all
  show thesis
  proof (cases ?st)
    case This
    with sp have "node_map n = (node_map n)(fst e \<mapsto> snd e)"
      by (auto simp: fun_eq_iff)
    with This ok show thesis
      by (intro that) (simp_all add: create_step_def)
  next
    case (Altered g d)
    with sp have d: "opt_map d = (node_map n)(fst e \<mapsto> snd e)" "\<And>n'. d = Some n' \<Longrightarrow> node_ok H 0 n'"
      by (auto simp: update_spec_def)
    have "d \<noteq> None"
      using fun_cong [OF d(1), of "fst e"] by (cases d) simp_all
    with Altered d show thesis
      by (auto simp: create_step_def intro: that)
  qed
qed

lemma create_nodes_ok:
  assumes "distinct (map fst es)" "k \<notin> fst ` set es"
  obtains n where "create_nodes H es k v = Some n" "node_ok H 0 n" "node_map n = (map_of es)(k \<mapsto> v)"
proof -
  have "\<exists>n'. fold (create_step H) es (Some n) = Some n' \<and> node_ok H 0 n' \<and> node_map n' = node_map n ++ map_of es"
    if "node_ok H 0 n" "distinct (map fst es)" for n
    using that
  proof (induction es arbitrary: n)
    case (Cons e es)
    obtain n1 where n1: "create_step H e (Some n) = Some n1" "node_ok H 0 n1"
      "node_map n1 = (node_map n)(fst e \<mapsto> snd e)"
      using create_step_ok [OF Cons.prems(1)] .
    have "map_of es (fst e) = None"
      using Cons.prems(2) by (simp add: map_of_eq_None_iff)
    then have "node_map n1 ++ map_of es = node_map n ++ map_of (e # es)"
      by (auto simp: n1(3) map_add_def fun_eq_iff split: option.splits)
    moreover have "distinct (map fst es)"
      using Cons.prems(2) by simp
    note Cons.IH [OF n1(2) this]
    ultimately show ?case
      by (simp only: fold_simps n1(1))
  qed simp
  from this [of "Value_Node (H k) k v"] assms(1) obtain n where
    n: "create_nodes H es k v = Some n" "node_ok H 0 n" "node_map n = [k \<mapsto> v] ++ map_of es"
    by (auto simp: create_nodes_def)
  have "[k \<mapsto> v] ++ map_of es = (map_of es)(k \<mapsto> v)"
  proof -
    have "map_of es k = None"
      using assms(2) by (simp add: map_of_eq_None_iff)
    then show ?thesis
      by (auto simp: map_add_def fun_eq_iff split: option.splits)
  qed
  with n that show thesis
    by simp
qed

definition root_map :: "('k, 'v) root option \<Rightarrow> 'k \<Rightarrow> 'v option" where
  "root_map d = (case d of None \<Rightarrow> (\<lambda>_. None) | Some r \<Rightarrow> map_of (root_entries r))"

definition root_spec ::
  "('k \<Rightarrow> 32 word) \<Rightarrow> 'k \<Rightarrow> 'v option \<Rightarrow> ('k, 'v) root \<Rightarrow> ('k, 'v) root step \<Rightarrow> bool" where
  "root_spec H k ov r st \<longleftrightarrow>
     (case st of
        This \<Rightarrow> root_map (Some r) k = ov
      | Altered g d \<Rightarrow>
          root_map (Some r) k \<noteq> ov \<and> (g \<longleftrightarrow> ov = None \<or> root_map (Some r) k = None) \<and>
          root_map d = (root_map (Some r))(k := ov) \<and> (\<forall>r'. d = Some r' \<longrightarrow> root_ok H r'))"

lemma array_update_ok:
  assumes ok: "root_ok H (Entry_Array es)"
  shows "root_spec H k ov (Entry_Array es) (array_update H k ov es)"
proof (cases "entry_unchanged ov (find_key k es) es")
  case True
  with ok show ?thesis
    by (simp add: array_update_def root_spec_def root_map_def entry_unchanged_map)
next
  case False
  define c where "c = find_key k es"
  have es: "1 \<le> length es" "length es \<le> 8" "distinct (map fst es)"
    using ok by simp_all
  have look: "map_of es k = (if c < length es then Some (snd (es ! c)) else None)"
    using find_key_map [OF es(3), of k] by (simp add: c_def)
  have alt: "map_of es k \<noteq> ov"
    using False by (simp add: entry_unchanged_map [OF es(3)])
  note defs = array_update_def root_spec_def root_map_def Let_def
  show ?thesis
  proof (cases "c < length es")
    case found: True
    show ?thesis
    proof (cases ov)
      case None
      note rm = put_entry_removed [OF es(3) found [unfolded c_def], folded c_def]
      have "length es = 1 \<Longrightarrow> (\<lambda>_. None) = (map_of es)(k := None)"
        using rm(2,4) by simp
      with None rm es alt False found look show ?thesis
        by (auto simp: defs simp flip: c_def)
    next
      case (Some v)
      with put_entry_found [OF es(3) found [unfolded c_def], of v, folded c_def] es alt False found look
      show ?thesis
        by (simp add: defs flip: c_def)
    qed
  next
    case new: False
    with alt look obtain v where v: "ov = Some v"
      by (cases ov) auto
    show ?thesis
    proof (cases "8 \<le> length es")
      case True
      have "k \<notin> fst ` set es"
        using new find_key_absent [of k es] by (simp add: c_def)
      then obtain n where "create_nodes H es k v = Some n" "node_ok H 0 n" "node_map n = (map_of es)(k \<mapsto> v)"
        using create_nodes_ok [OF es(3)] by blast
      with True new v alt False look show ?thesis
        by (simp add: defs flip: c_def node_map_def)
    next
      case small: False
      with put_entry_new [OF es(3) new [unfolded c_def], of v, folded c_def] es v alt False new look
      show ?thesis
        by (simp add: defs flip: c_def)
    qed
  qed
qed

lemma root_update_ok:
  assumes ok: "root_ok H r"
  shows "root_spec H k ov r (root_update H k ov r)"
proof (cases r)
  case (Trie n)
  with ok have "update_spec H 0 k ov n (node_update 0 (H k) k ov n)"
    by (intro node_update_ok) simp_all
  then show ?thesis
    by (auto simp: Trie root_spec_def update_spec_def root_map_def node_map_def opt_map_def
        split: step.splits option.splits)
next
  case (Entry_Array es)
  with ok array_update_ok [of H es k ov] show ?thesis
    by (simp only: root_update.simps)
qed

lemma hm_map_root: "hm_map m = root_map (hm_root m)"
  by (auto simp: hm_map_def hm_iterate_def root_map_def in_order_def split: option.splits root.splits)

lemma hm_entries_root:
  "hm_iterate False m = (case hm_root m of None \<Rightarrow> [] | Some r \<Rightarrow> root_entries r)"
  by (auto simp: hm_iterate_def in_order_def split: option.splits root.splits)

lemma card_dom_entries: "distinct (map fst es) \<Longrightarrow> card (dom (map_of es)) = length es"
  by (metis distinct_card dom_map_of_conv_image_fst length_map set_map)

lemma hm_inv_size: "hm_inv H m \<Longrightarrow> hm_size m = int (card (dom (hm_map m)))"
  by (auto simp: hm_inv_def hm_map_root root_map_def card_dom_entries root_distinct split: option.splits)

lemma root_entries_card: "root_ok H r \<Longrightarrow> length (root_entries r) = card (dom (root_map (Some r)))"
  by (simp add: root_map_def card_dom_entries root_distinct)

lemma root_map_finite [simp]: "finite (dom (root_map d))"
  by (simp add: root_map_def finite_dom_map_of split: option.splits)

lemma root_nonempty: "root_ok H r \<Longrightarrow> root_entries r \<noteq> []"
proof -
  have "node_iterate False n \<noteq> []" if "node_ok H s n" for s n
    using that
  proof (induction n arbitrary: s)
    case (Bitmap bm ns)
    then obtain n ns' where "ns = n # ns'"
      by (cases ns) (auto simp: bitmap_ok)
    with Bitmap show ?case
      by (auto simp: node_iterate.simps in_order_def node_ok.simps)
  next
    case (Hash_Array c ns)
    then have "filled ns \<noteq> []" "slots_ok H s ns"
      by (auto simp: hash_array_ok)
    then obtain n where "n \<in> set (filled ns)" "Some n \<in> set ns" "node_ok H (s + 5) n"
      by (cases "filled ns") (auto simp: slots_ok_def list_all_iff simp flip: filled_mem)
    with Hash_Array.IH [of "Some n" n] show ?case
      unfolding hash_array_entries by (auto simp: slot_entries_def)
  qed (auto simp: in_order_def)
  then show "root_ok H r \<Longrightarrow> root_entries r \<noteq> []"
    by (cases r) auto
qed

lemma hm_update_ok:
  assumes inv: "hm_inv H m"
  shows "hm_inv H (hm_update H k ov m) \<and> hm_map (hm_update H k ov m) = (hm_map m)(k := ov)"
proof (cases "hm_root m")
  case None
  with inv show ?thesis
    by (auto simp: hm_update_def hm_inv_def hm_map_root root_map_def fun_eq_iff split: option.splits)
next
  case (Some r)
  have r: "root_ok H r" "hm_size m = int (card (dom (root_map (Some r))))"
    using inv Some root_entries_card [of H r] by (simp_all add: hm_inv_def)
  have sp: "root_spec H k ov r (root_update H k ov r)"
    using r(1) by (rule root_update_ok)
  show ?thesis
  proof (cases "root_update H k ov r")
    case This
    with sp inv Some show ?thesis
      by (auto simp: hm_update_def root_spec_def hm_map_root fun_eq_iff)
  next
    case (Altered g d)
    let ?m = "root_map (Some r)"
    have d: "?m k \<noteq> ov" "g \<longleftrightarrow> ov = None \<or> ?m k = None" "root_map d = ?m(k := ov)"
      "\<And>r'. d = Some r' \<Longrightarrow> root_ok H r'"
      using sp by (auto simp: Altered root_spec_def)
    have "int (card (dom (?m(k := ov)))) = int (card (dom ?m)) + (if g then if ov = None then -1 else 1 else 0)"
    proof (cases ov)
      case None
      with d(1) have "k \<in> dom ?m" by auto
      then have "Suc (card (dom ?m - {k})) = card (dom ?m)"
        by (intro card_Suc_Diff1) simp_all
      with None d(2) show ?thesis by simp
    next
      case (Some v)
      with d(2) show ?thesis
        by (auto simp: card_insert_if)
    qed
    with d(3,4) r(2) Some show ?thesis
      by (auto simp: hm_update_def Altered hm_inv_def hm_map_root root_entries_card hm_empty_def
          root_map_def [of None] split: option.splits)
  qed
qed

lemma hm_get_ok:
  assumes "hm_inv H m"
  shows "hm_get H m k d = Some (case hm_map m k of None \<Rightarrow> d | Some v \<Rightarrow> v)"
  using assms
  by (auto simp: hm_get_def hm_inv_def hm_map_root root_map_def entries_get_map node_get_ok node_map_def
      split: option.splits root.splits)

lemma hm_iterate_ok:
  assumes "hm_inv H m"
  shows "distinct (map fst (hm_iterate False m))"
  using assms by (auto simp: hm_inv_def hm_entries_root root_distinct split: option.splits)

section \<open>Iteration\<close>

text \<open>The iterator \<^verbatim>\<open>et\<close> holds a stack of nodes with the next index; it looks at which of the fields
\<^verbatim>\<open>entry\<close>, \<^verbatim>\<open>entries\<close> and \<^verbatim>\<open>nodes\<close> a node has.\<close>

datatype ('k, 'v) node_view =
    Entry "'k \<times> 'v"
  | Entries "('k \<times> 'v) list"
  | Nodes "('k, 'v) node option list"

fun view_of :: "('k, 'v) root \<Rightarrow> ('k, 'v) node_view" where
  "view_of (Trie (Value_Node h k v)) = Entry (k, v)"
| "view_of (Trie (Collision h es)) = Entries es"
| "view_of (Entry_Array es) = Entries es"
| "view_of (Trie (Bitmap bm ns)) = Nodes (map Some ns)"
| "view_of (Trie (Hash_Array c ns)) = Nodes ns"

type_synonym ('k, 'v) stack = "(('k, 'v) root \<times> nat) list"

definition pick :: "bool \<Rightarrow> 'a list \<Rightarrow> nat \<Rightarrow> 'a" where
  "pick r xs i = xs ! (if r then length xs - 1 - i else i)"

text \<open>The steps left for a frame, the measure of the loop of \<^verbatim>\<open>next\<close>.\<close>

fun node_steps :: "('k, 'v) node \<Rightarrow> nat" where
  "node_steps (Bitmap bm ns) = Suc (sum_list (map (\<lambda>n. Suc (node_steps n)) ns))"
| "node_steps (Hash_Array c ns) =
     Suc (sum_list (map (\<lambda>a. case a of None \<Rightarrow> 1 | Some n \<Rightarrow> Suc (node_steps n)) ns))"
| "node_steps (Collision h es) = 1"
| "node_steps (Value_Node h k v) = 1"

definition slot_steps :: "('k, 'v) node option \<Rightarrow> nat" where
  "slot_steps a = (case a of None \<Rightarrow> 1 | Some n \<Rightarrow> Suc (node_steps n))"

fun frame_steps :: "bool \<Rightarrow> ('k, 'v) root \<times> nat \<Rightarrow> nat" where
  "frame_steps r (n, i) =
     (case view_of n of Nodes ns \<Rightarrow> Suc (sum_list (map slot_steps (drop i (in_order r ns)))) | _ \<Rightarrow> 1)"

lemma pick_in_order: "i < length xs \<Longrightarrow> pick r xs i = in_order r xs ! i"
  by (simp add: pick_def in_order_def rev_nth)

lemma length_in_order [simp]: "length (in_order r xs) = length xs"
  by (simp add: in_order_def)

lemma drop_in_order: "i < length xs \<Longrightarrow> drop i (in_order r xs) = pick r xs i # drop (Suc i) (in_order r xs)"
  by (simp add: pick_in_order Cons_nth_drop_Suc)

lemma node_steps_frame: "frame_steps r (Trie n, 0) = node_steps n"
proof (cases n)
  case (Bitmap bm ns)
  then show ?thesis
    by (simp add: in_order_def slot_steps_def comp_def sum_list_rev flip: rev_map)
next
  case (Hash_Array c ns)
  then show ?thesis
    by (simp add: in_order_def sum_list_rev slot_steps_def [abs_def] flip: rev_map)
qed simp_all

lemma frame_steps_pos: "0 < frame_steps r f"
  by (cases f) (simp split: node_view.splits)

lemma frame_steps_next:
  "view_of n = Nodes ns \<Longrightarrow> i < length ns \<Longrightarrow>
   frame_steps r (n, i) = slot_steps (pick r ns i) + frame_steps r (n, Suc i)"
  by (simp add: drop_in_order)

lemma slot_steps_simps: "slot_steps None = 1" "slot_steps (Some n) = Suc (node_steps n)"
  by (simp_all add: slot_steps_def)

function iter_next :: "bool \<Rightarrow> ('k, 'v) stack \<Rightarrow> ('k \<times> 'v) option \<times> ('k, 'v) stack" where
  "iter_next r [] = (None, [])"
| "iter_next r ((n, i) # st) =
     (case view_of n of
        Entry e \<Rightarrow> if i = 0 then (Some e, (n, i + 1) # st) else iter_next r st
      | Entries es \<Rightarrow> if i < length es then (Some (pick r es i), (n, i + 1) # st) else iter_next r st
      | Nodes ns \<Rightarrow>
          if i < length ns
          then (case pick r ns i of
                  None \<Rightarrow> iter_next r ((n, i + 1) # st)
                | Some (Value_Node h k v) \<Rightarrow> (Some (k, v), (n, i + 1) # st)
                | Some a \<Rightarrow> iter_next r ((Trie a, 0) # (n, i + 1) # st))
          else iter_next r st)"
  by pat_completeness auto
termination
  by (relation "measure (\<lambda>(r, st). sum_list (map (frame_steps r) st))")
    (auto simp: frame_steps_next slot_steps_simps node_steps_frame frame_steps_pos
      simp del: frame_steps.simps node_steps.simps)

declare iter_next.simps(2) [simp del]

definition iterator :: "('k, 'v) hmap \<Rightarrow> ('k, 'v) stack" where
  "iterator m = (case hm_root m of None \<Rightarrow> [] | Some n \<Rightarrow> [(n, 0)])"

fun iter_take :: "nat \<Rightarrow> bool \<Rightarrow> ('k, 'v) stack \<Rightarrow> ('k \<times> 'v) list" where
  "iter_take 0 r st = []"
| "iter_take (Suc n) r st =
     (case iter_next r st of
        (None, st') \<Rightarrow> []
      | (Some e, st') \<Rightarrow> e # iter_take n r st')"

definition slot_rest :: "bool \<Rightarrow> ('k, 'v) node option \<Rightarrow> ('k \<times> 'v) list" where
  "slot_rest r a = (case a of None \<Rightarrow> [] | Some n \<Rightarrow> node_iterate r n)"

fun frame_rest :: "bool \<Rightarrow> ('k, 'v) root \<times> nat \<Rightarrow> ('k \<times> 'v) list" where
  "frame_rest r (n, i) =
     (case view_of n of
        Entry e \<Rightarrow> if i = 0 then [e] else []
      | Entries es \<Rightarrow> drop i (in_order r es)
      | Nodes ns \<Rightarrow> concat (map (slot_rest r) (drop i (in_order r ns))))"

text \<open>What the stack has still to deliver.\<close>

definition stack_rest :: "bool \<Rightarrow> ('k, 'v) stack \<Rightarrow> ('k \<times> 'v) list" where
  "stack_rest r st = concat (map (frame_rest r) st)"

lemma stack_rest_simps [simp]:
  "stack_rest r [] = []" "stack_rest r (f # st) = frame_rest r f @ stack_rest r st"
  by (simp_all add: stack_rest_def)

lemma node_rest: "frame_rest r (Trie n, 0) = node_iterate r n"
proof (cases n)
  case (Bitmap bm ns)
  then show ?thesis
    by (simp add: node_iterate.simps in_order_def slot_rest_def comp_def flip: rev_map)
next
  case (Hash_Array c ns)
  then show ?thesis
    by (simp add: node_iterate.simps slot_rest_def [abs_def])
qed simp_all

lemma frame_rest_next:
  "view_of n = Nodes ns \<Longrightarrow> i < length ns \<Longrightarrow>
   frame_rest r (n, i) = slot_rest r (pick r ns i) @ frame_rest r (n, Suc i)"
  "view_of n = Nodes ns \<Longrightarrow> \<not> i < length ns \<Longrightarrow> frame_rest r (n, i) = []"
  "view_of n = Entries es \<Longrightarrow> i < length es \<Longrightarrow>
   frame_rest r (n, i) = pick r es i # frame_rest r (n, Suc i)"
  "view_of n = Entries es \<Longrightarrow> \<not> i < length es \<Longrightarrow> frame_rest r (n, i) = []"
  by (simp_all add: drop_in_order)

lemma iter_next_rest:
  "fst (iter_next r st) = (if stack_rest r st = [] then None else Some (hd (stack_rest r st))) \<and>
   stack_rest r (snd (iter_next r st)) = tl (stack_rest r st)"
proof (induction r st rule: iter_next.induct)
  case (2 r n i st)
  have s: "slot_rest r None = []" "slot_rest r (Some m) = frame_rest r (Trie m, 0)" for m :: "('a, 'b) node"
    by (simp_all only: slot_rest_def node_rest option.case)
  show ?case
  proof (cases "view_of n")
    case (Entry e)
    with 2(1) [OF Entry] show ?thesis
      by (cases "i = 0") (simp_all add: iter_next.simps)
  next
    case (Entries es)
    with 2(2) [OF Entries] show ?thesis
      by (cases "i < length es") (auto simp: iter_next.simps frame_rest_next(3,4) simp del: frame_rest.simps)
  next
    case (Nodes ns)
    show ?thesis
    proof (cases "i < length ns")
      case True
      note next_simps = iter_next.simps(2) [of r n i st] Nodes True frame_rest_next(1) [OF Nodes True, of r]
      show ?thesis
      proof (cases "pick r ns i")
        case None
        with 2(3) [OF Nodes True None] show ?thesis
          by (simp add: next_simps s del: frame_rest.simps)
      next
        case (Some a)
        show ?thesis
        proof (cases a)
          case (Value_Node h k v)
          then show ?thesis
            by (simp add: next_simps Some s del: frame_rest.simps) simp
        next
          case (Bitmap bm ms)
          with 2(4) [OF Nodes True Some Bitmap] show ?thesis
            by (simp add: next_simps Some s del: frame_rest.simps)
        next
          case (Hash_Array c ms)
          with 2(5) [OF Nodes True Some Hash_Array] show ?thesis
            by (simp add: next_simps Some s del: frame_rest.simps)
        next
          case (Collision h es)
          with 2(6) [OF Nodes True Some Collision] show ?thesis
            by (simp add: next_simps Some s del: frame_rest.simps)
        qed
      qed
    next
      case False
      with 2(7) [OF Nodes False] Nodes show ?thesis
        by (simp add: iter_next.simps frame_rest_next(2) del: frame_rest.simps)
    qed
  qed
qed simp

lemma iterator_rest: "stack_rest r (iterator m) = hm_iterate r m"
proof (cases "hm_root m")
  case (Some n)
  then show ?thesis
    by (cases n) (simp_all add: iterator_def hm_iterate_def node_rest del: frame_rest.simps,
      simp add: frame_rest.simps)
qed (simp add: iterator_def hm_iterate_def)

lemma iter_take_rest: "iter_take n r st = take n (stack_rest r st)"
proof (induction n arbitrary: st)
  case (Suc n)
  show ?case
    using iter_next_rest [of r st]
    by (cases "iter_next r st"; cases "stack_rest r st") (auto simp: Suc)
qed simp

lemma iterate_reversed: "node_iterate r n = in_order r (node_iterate False n)"
proof (induction n)
  case (Bitmap bm ns)
  show ?case
  proof (cases r)
    case True
    have "map (node_iterate True) (rev ns) = map (\<lambda>n. rev (node_iterate False n)) (rev ns)"
      by (rule map_cong) (use True Bitmap in \<open>simp_all add: in_order_def\<close>)
    then have "concat (map (node_iterate True) (rev ns)) = rev (concat (map (node_iterate False) ns))"
      by (simp only: rev_concat rev_map map_map comp_def)
    with True show ?thesis
      by (simp add: node_iterate.simps in_order_def)
  qed (simp add: in_order_def)
next
  case (Hash_Array c ns)
  show ?case
  proof (cases r)
    case True
    let ?f = "\<lambda>r a. case a of None \<Rightarrow> [] | Some n \<Rightarrow> node_iterate r n"
    have "map (?f True) (rev ns) = map (\<lambda>a. rev (?f False a)) (rev ns)"
      by (rule map_cong) (use True Hash_Array in \<open>auto simp: in_order_def split: option.splits\<close>)
    then have "concat (map (?f True) (rev ns)) = rev (concat (map (?f False) ns))"
      by (simp only: rev_concat rev_map map_map comp_def)
    with True show ?thesis
      by (simp add: node_iterate.simps in_order_def)
  qed (simp add: in_order_def)
qed (auto simp: in_order_def)

section \<open>Depth\<close>

fun node_depth :: "('k, 'v) node \<Rightarrow> nat" where
  "node_depth (Bitmap bm ns) = Suc (fold max (map node_depth ns) 0)"
| "node_depth (Hash_Array c ns) =
     Suc (fold max (map (\<lambda>a. case a of None \<Rightarrow> 0 | Some n \<Rightarrow> node_depth n) ns) 0)"
| "node_depth (Collision h es) = 1"
| "node_depth (Value_Node h k v) = 1"

lemma fold_max_le: "fold max xs (m :: nat) \<le> b \<longleftrightarrow> m \<le> b \<and> (\<forall>x\<in>set xs. x \<le> b)"
  by (induction xs arbitrary: m) auto

lemma node_depth_le: "node_ok H s n \<Longrightarrow> node_depth n \<le> Suc ((36 - s) div 5)"
proof (induction n arbitrary: s)
  case (Bitmap bm ns)
  then have "node_depth n \<le> (36 - s) div 5" if "n \<in> set ns" for n
    using Bitmap.IH [OF that, of "s + 5"] that
    by (auto simp: node_ok.simps list_all_iff intro: order_trans)
  then show ?case
    by (simp add: fold_max_le)
next
  case (Hash_Array c ns)
  then have "node_depth n \<le> (36 - s) div 5" if "Some n \<in> set ns" for n
    using Hash_Array.IH [OF that, of n "s + 5"] that
    by (auto simp: node_ok.simps list_all_iff split: option.splits intro: order_trans)
  then show ?case
    by (auto simp: fold_max_le split: option.splits)
qed auto

section \<open>The contract of the map\<close>

locale keyed_store =
  fixes empty :: "'m"
    and update :: "'k \<Rightarrow> 'v option \<Rightarrow> 'm \<Rightarrow> 'm"
    and lookup :: "'m \<Rightarrow> 'k \<Rightarrow> 'v \<Rightarrow> 'v option"
    and entries :: "bool \<Rightarrow> 'm \<Rightarrow> ('k \<times> 'v) list"
    and count :: "'m \<Rightarrow> int"
    and contents :: "'m \<Rightarrow> 'k \<Rightarrow> 'v option"
    and valid :: "'m \<Rightarrow> bool"
  assumes valid_empty: "valid empty" and contents_empty: "contents empty = (\<lambda>_. None)"
    and valid_update: "valid m \<Longrightarrow> valid (update k ov m)"
    and contents_update: "valid m \<Longrightarrow> contents (update k ov m) = (contents m)(k := ov)"
    and lookup_contents: "valid m \<Longrightarrow> lookup m k d = Some (case contents m k of None \<Rightarrow> d | Some v \<Rightarrow> v)"
    and entries_distinct: "valid m \<Longrightarrow> distinct (map fst (entries r m))"
    and entries_contents: "valid m \<Longrightarrow> map_of (entries r m) = contents m"
    and count_contents: "valid m \<Longrightarrow> count m = int (card (dom (contents m)))"
begin

definition run :: "('k \<times> 'v option) list \<Rightarrow> 'm \<Rightarrow> 'm" where
  "run ops = fold (\<lambda>(k, ov). update k ov) ops"

lemma run_ok:
  "valid m \<Longrightarrow> valid (run ops m) \<and>
   contents (run ops m) = fold (\<lambda>(k, ov) a. a(k := ov)) ops (contents m)"
  unfolding run_def
  by (induction ops arbitrary: m) (auto simp: valid_update contents_update)

lemma run_from_empty:
  "valid (run ops empty)" "contents (run ops empty) = fold (\<lambda>(k, ov) a. a(k := ov)) ops (\<lambda>_. None)"
  using run_ok [OF valid_empty, of ops] by (simp_all add: contents_empty)

lemma entries_set: "valid m \<Longrightarrow> (k, v) \<in> set (entries r m) \<longleftrightarrow> contents m k = Some v"
  using map_of_eq_Some_iff [OF entries_distinct [of m r], of k v] by (simp add: entries_contents)

lemma set_then_lookup: "valid m \<Longrightarrow> lookup (update k (Some v) m) k' d = (if k' = k then Some v else lookup m k' d)"
  by (simp add: lookup_contents valid_update contents_update)

end

lemma hm_entries_map:
  assumes "hm_inv H m"
  shows "distinct (map fst (hm_iterate r m))" and "map_of (hm_iterate r m) = hm_map m"
proof -
  have r: "hm_iterate r m = in_order r (hm_iterate False m)"
    using iterate_reversed [of r] by (auto simp: hm_iterate_def in_order_def split: option.splits root.splits)
  have d: "distinct (map fst (hm_iterate False m))"
    using assms by (rule hm_iterate_ok)
  show "distinct (map fst (hm_iterate r m))"
    using d by (simp add: r in_order_def rev_map [symmetric])
  show "map_of (hm_iterate r m) = hm_map m"
    using map_of_mset(2) [OF d, of "hm_iterate r m"] by (simp add: r in_order_def hm_map_def)
qed

interpretation hm: keyed_store hm_empty "hm_update H" "hm_get H" hm_iterate hm_size hm_map "hm_inv H" for H
proof unfold_locales
  show "hm_inv H hm_empty" "hm_map hm_empty = (\<lambda>_. None)"
    by (simp_all add: hm_inv_def hm_empty_def hm_map_root root_map_def)
qed (simp_all add: hm_update_ok hm_get_ok hm_entries_map hm_inv_size)

definition hm_run :: "('k \<Rightarrow> 32 word) \<Rightarrow> ('k \<times> 'v option) list \<Rightarrow> ('k, 'v) hmap" where
  "hm_run H ops = fold (\<lambda>(k, ov). hm_update H k ov) ops hm_empty"

definition map_run :: "('k \<times> 'v option) list \<Rightarrow> 'k \<Rightarrow> 'v option" where
  "map_run ops = fold (\<lambda>(k, ov) a. a(k := ov)) ops (\<lambda>_. None)"

lemma hm_run_ok: "hm_inv H (hm_run H ops)" "hm_map (hm_run H ops) = map_run ops"
  using hm.run_from_empty [of H ops] by (simp_all add: hm.run_def hm_run_def map_run_def)

lemma hm_root_none: "hm_inv H m \<Longrightarrow> hm_root m = None \<longleftrightarrow> hm_map m = (\<lambda>_. None)"
  using root_nonempty [of H] by (auto simp: hm_inv_def hm_map_root root_map_def split: option.splits)

text \<open>C5: After any sequence of insertions and removals and for every hash function, a lookup never fails
and returns what a mathematical map holds after the same operations, the size is the number of its keys,
the iteration in either direction visits each of its entries once, the root is missing exactly for the
empty map, and no path of the trie is longer than eight nodes.\<close>

theorem hash_map_refines:
  "let m = hm_run H ops; a = map_run ops in
   hm_get H m k d = Some (case a k of None \<Rightarrow> d | Some v \<Rightarrow> v) \<and>
   hm_size m = int (card (dom a)) \<and>
   distinct (map fst (hm_iterate r m)) \<and> set (hm_iterate r m) = {(k, v). a k = Some v} \<and>
   (hm_root m = None \<longleftrightarrow> a = (\<lambda>_. None)) \<and>
   (case hm_root m of Some (Trie n) \<Rightarrow> node_depth n \<le> 8 | _ \<Rightarrow> True)"
proof -
  note inv = hm_run_ok(1) [of H ops] and a = hm_run_ok(2) [of H ops]
  have "set (hm_iterate r (hm_run H ops)) = {(k, v). map_run ops k = Some v}"
    using hm.entries_set [OF inv] by (auto simp: a)
  moreover have "case hm_root (hm_run H ops) of Some (Trie n) \<Rightarrow> node_depth n \<le> 8 | _ \<Rightarrow> True"
    using inv node_depth_le [of H 0] by (auto simp: hm_inv_def split: option.splits root.splits)
  ultimately show ?thesis
    using hm.lookup_contents [OF inv] hm.count_contents [OF inv] hm.entries_distinct [OF inv] hm_root_none [OF inv]
    by (simp add: Let_def a)
qed

text \<open>C15: Reading n entries from the iterator of a map, whose loop walks a stack of nodes, gives the first n
entries of the recursive iteration, forwards and in reverse, and the reverse order is the reverse of the
order forwards.\<close>

theorem iterator_agrees:
  "iter_take n r (iterator m) = take n (hm_iterate r m) \<and> hm_iterate True m = rev (hm_iterate False m)"
  using iterate_reversed [of True]
  by (auto simp: iter_take_rest iterator_rest hm_iterate_def in_order_def split: option.splits root.splits)

section \<open>A hash that is no number\<close>

text \<open>For one string the cache of hashes returns an inherited function.  Its chunks are those of the number
zero, but it equals no number.  \<open>merge_levels\<close> is the recursion of \<^verbatim>\<open>st\<close> on
such hashes: the levels of nodes it creates above the leaf, \<open>None\<close> if it never returns.\<close>

definition hash_chunk :: "nat \<Rightarrow> hash_value \<Rightarrow> nat" where
  "hash_chunk s h = (case h of HNum i \<Rightarrow> chunk s (word_of_int i) | HMember m \<Rightarrow> 0)"

partial_function (option) merge_levels :: "nat \<Rightarrow> hash_value \<Rightarrow> hash_value \<Rightarrow> nat option" where
  "merge_levels s e h =
     (if e = h then Some 0
      else if hash_chunk s e = hash_chunk s h
      then Option.bind (merge_levels (s + 5) e h) (\<lambda>n. Some (Suc n))
      else Some 1)"

lemma merge_levels_returns:
  assumes "hash_chunk (s + 5 * j) e \<noteq> hash_chunk (s + 5 * j) h"
  shows "merge_levels s e h \<noteq> None"
  using assms
proof (induction j arbitrary: s)
  case 0
  then show ?case
    by (simp add: merge_levels.simps)
next
  case (Suc j)
  then have "merge_levels (s + 5) e h \<noteq> None"
    by (simp add: add.assoc)
  then show ?case
    by (subst merge_levels.simps) auto
qed

lemma merge_levels_apart:
  assumes "merge_levels s e h = Some n"
  shows "e = h \<or> (\<exists>t. hash_chunk t e \<noteq> hash_chunk t h)"
  by (rule merge_levels.raw_induct [OF _ assms]) (fastforce split: if_splits bind_splits)

lemma merge_levels_diverges:
  assumes "e \<noteq> h" "\<And>t. hash_chunk t e = hash_chunk t h"
  shows "merge_levels s e h = None"
  using merge_levels_apart [of s e h] assms by (cases "merge_levels s e h") auto

lemma chunk_zero [simp]: "chunk s 0 = 0"
  by (simp add: chunk_def)

lemma merge_levels_numbers:
  assumes "word_of_int i \<noteq> (word_of_int j :: 32 word)"
  shows "merge_levels s (HNum i) (HNum j) \<noteq> None"
  using some_chunk_differs [OF assms, of s] merge_levels_returns [of s _ "HNum i" "HNum j"]
  by (auto simp: hash_chunk_def)

lemma merge_levels_depth:
  assumes "merge_levels s (HNum i) (HNum j) = Some n" "i = j \<longleftrightarrow> word_of_int i = (word_of_int j :: 32 word)"
  shows "node_depth (merge_into s (word_of_int j) k v (Value_Node (word_of_int i) k' v')) = Suc n"
  using assms
proof (induction n arbitrary: s)
  case 0
  then show ?case
    by (subst (asm) merge_levels.simps) (auto simp: merge_into.simps split: if_splits bind_splits)
next
  case (Suc n)
  then show ?case
    by (subst (asm) (2) merge_levels.simps)
      (auto simp: merge_into.simps [of s] hash_chunk_def Let_def split: if_splits bind_splits)
qed

lemma numeric_hash:
  "- (2 ^ 30) \<le> hash_string s" "hash_string s < 2 ^ 30"
  using smi_range by (simp_all add: hash_string_def)

lemma hash_word_inj:
  assumes "word_of_int (hash_string s) = (word_of_int (hash_string t) :: 32 word)"
  shows "hash_string s = hash_string t"
proof -
  have "signed_take_bit 31 (hash_string s) = signed_take_bit 31 (hash_string t)"
    using arg_cong [OF assms, of sint] by (simp add: signed_of_int)
  then show ?thesis
    using numeric_hash [of s] numeric_hash [of t] by (simp add: signed_take_bit_int_eq_self)
qed

text \<open>C29: Whatever was hashed before, merging the empty string and another string into a trie node returns
for every string but one, and never for propertyIsEnumerable, whose hash is an inherited function.\<close>

theorem empty_key_never_merged:
  "let c = snd (hash_all ss empty_cache) in
   merge_levels s (fst (hash_of [] c)) (fst (hash_of k c)) = None \<longleftrightarrow> k = inherited_key"
proof -
  define c where "c = snd (hash_all ss empty_cache)"
  have ok: "cache_ok c"
    using hash_all_ok [of empty_cache ss] by (simp add: c_def cache_ok_def empty_cache_def)
  have e: "fst (hash_of [] c) = HNum 0"
    by (simp add: hash_of_def hash_string_def smi_def)
  have k: "fst (hash_of k c) = (if k = inherited_key then HMember k else HNum (hash_string k))"
    using hash_of_ok(1) [OF ok] .
  have "merge_levels s (HNum 0) (HMember k) = None"
    by (rule merge_levels_diverges) (simp_all add: hash_chunk_def)
  moreover have "merge_levels s (HNum 0) (HNum (hash_string k)) \<noteq> None"
  proof (cases "hash_string k = 0")
    case True
    then show ?thesis
      by (simp add: merge_levels.simps)
  next
    case False
    have "hash_string [] = 0"
      by (simp add: hash_string_def smi_def)
    then show ?thesis
      using merge_levels_numbers [of "hash_string []" "hash_string k" s] hash_word_inj [of "[]" k] False by auto
  qed
  ultimately show ?thesis
    unfolding Let_def c_def [symmetric] by (auto simp: e k)
qed

end
