(* ===== verification/Spec_Operations.thy ===== *)
theory Spec_Operations
  imports Console_Layout Hash_Map
begin

text \<open>
  The operations of a specification as the console lists them: the selectors of the spec plugin in
  \<^verbatim>\<open>swagger-ui.js\<close> that collect the operations of the paths, let them inherit the content
  types of the document, group them by tag and sort the groups, the composition with the filter of
  \<open>Console_Layout\<close>, and the selectors of content types and schemes.  A document is \<open>json\<close>,
  whose objects are insertion-ordered maps and whose arrays are lists; \<open>merged\<close> is the document with
  its resolved parts (\<open>Spec_Params\<close> models the merge).  A set is the list of its elements in the order of
  its hash trie; where the program keeps such a set in an operation (inherited content types) the model has the
  array of its elements.  A result \<open>None\<close> is a \<^verbatim>\<open>TypeError\<close>.  The hash function \<open>H\<close> and
  the sorters of the configuration are parameters.
\<close>

section \<open>Reading the document\<close>

definition jget :: "json \<Rightarrow> jstr \<Rightarrow> json" where
  "jget e k = (case e of JObj m \<Rightarrow> (case assoc_get m k of Some v \<Rightarrow> v | None \<Rightarrow> JUndef) | _ \<Rightarrow> JUndef)"

definition jkey :: "string \<Rightarrow> json" where
  "jkey s = JStr (js s)"

definition is_map :: "json \<Rightarrow> bool" where
  "is_map e = (case e of JObj _ \<Rightarrow> True | _ \<Rightarrow> False)"

definition jset :: "jstr \<Rightarrow> json \<Rightarrow> json \<Rightarrow> json" where
  "jset k v e = (case e of JObj m \<Rightarrow> JObj (assoc_put k v m) | _ \<Rightarrow> e)"

text \<open>What \<^verbatim>\<open>forEach\<close> visits: the members of an object, the elements of an array with their
indices; nothing else has the method.\<close>

fun members :: "json \<Rightarrow> (json \<times> json) list option" where
  "members (JObj m) = Some (map (\<lambda>(k, v). (JStr k, v)) m)"
| "members (JArr vs) = Some (map (\<lambda>(i, v). (JNum (int i), v)) (enumerate 0 vs))"
| "members _ = None"

text \<open>The elements of \<^verbatim>\<open>Set(v)\<close>: none for a missing value, the characters of a text, a
\<^verbatim>\<open>TypeError\<close> for the empty text, numbers and truth values.  For an object the program makes a set of fresh
entries; this is not modelled and counts as failure.\<close>

fun js_values :: "json \<Rightarrow> json list option" where
  "js_values JUndef = Some []"
| "js_values JNull = Some []"
| "js_values (JArr vs) = Some vs"
| "js_values (JStr s) = (if s = [] then None else Some (map (\<lambda>c. JStr [c]) s))"
| "js_values _ = None"

definition js_set :: "(json \<Rightarrow> 32 word) \<Rightarrow> json \<Rightarrow> json list option" where
  "js_set H v =
     map_option (\<lambda>vs. map fst (hm_iterate False (hm_run H (map (\<lambda>x. (x, Some True)) vs)))) (js_values v)"

section \<open>Operations\<close>

definition operation_methods :: "jstr list" where
  "operation_methods = map js [''get'', ''put'', ''post'', ''delete'', ''options'', ''head'', ''patch'', ''trace'']"

record op_entry =
  op_path :: json
  op_method :: jstr
  op_operation :: json
  op_id :: jstr

definition path_text :: "json \<Rightarrow> jstr" where
  "path_text n = (case n of JStr s \<Rightarrow> s | JNum i \<Rightarrow> js (show_int i) | _ \<Rightarrow> [])"

definition operations_of_path :: "json \<Rightarrow> json \<Rightarrow> op_entry list" where
  "operations_of_path n e =
     (if \<not> truthy e then []
      else (case members e of
              None \<Rightarrow> []
            | Some rs \<Rightarrow>
                concat (map (\<lambda>(r, v). case r of
                    JStr m \<Rightarrow>
                      if m \<in> set operation_methods 
                      then [\<lparr>op_path = n, op_method = m, op_operation = v, op_id = m @ js ''-'' @ path_text n\<rparr>]
                      else []
                  | _ \<Rightarrow> []) rs)))"

definition operations :: "json \<Rightarrow> op_entry list" where
  "operations paths =
     (if \<not> truthy paths then []
      else (case members paths of
              None \<Rightarrow> []
            | Some ps \<Rightarrow> concat (map (\<lambda>(n, e). operations_of_path n e) ps)))"

text \<open>A field that is missing or null is the set of the document; the constructor of sets throws for other false
values.\<close>

definition inherit_field :: "jstr \<Rightarrow> json list \<Rightarrow> json \<Rightarrow> json option" where
  "inherit_field k t e =
     (if truthy (jget e k) then Some e
      else if jget e k = JUndef \<or> jget e k = JNull then Some (jset k (JArr t) e)
      else None)"

definition inherited_operation :: "json list \<Rightarrow> json list \<Rightarrow> json \<Rightarrow> json option" where
  "inherited_operation t n e =
     (if truthy e
      then if is_map e
           then Option.bind (inherit_field (js ''consumes'') t e) (inherit_field (js ''produces'') n)
           else Some JUndef
      else Some (JObj []))"

fun collected :: "'a option list \<Rightarrow> 'a list option" where
  "collected [] = Some []"
| "collected (None # xs) = None"
| "collected (Some x # xs) = map_option ((#) x) (collected xs)"

definition operations_with_root_inherited ::
  "(json \<Rightarrow> 32 word) \<Rightarrow> json \<Rightarrow> op_entry list \<Rightarrow> op_entry list option" where
  "operations_with_root_inherited H doc ops =
     Option.bind (js_set H (jget doc (js ''consumes''))) (\<lambda>t.
     Option.bind (js_set H (jget doc (js ''produces''))) (\<lambda>n.
     collected (map (\<lambda>o'. map_option (\<lambda>e. o'\<lparr>op_operation := e\<rparr>) (inherited_operation t n (op_operation o'))) ops)))"

section \<open>Tags\<close>

definition declared_tags :: "json \<Rightarrow> json list" where
  "declared_tags doc = (case jget doc (js ''tags'') of JArr ts \<Rightarrow> filter is_map ts | _ \<Rightarrow> [])"

definition tag_details :: "json \<Rightarrow> json \<Rightarrow> json" where
  "tag_details doc name =
     (case find (\<lambda>t. jget t (js ''name'') = name) (filter is_map (declared_tags doc)) of
        None \<Rightarrow> JObj []
      | Some t \<Rightarrow> t)"

type_synonym groups = "(json \<times> op_entry list) list"

definition declared_groups :: "json \<Rightarrow> groups" where
  "declared_groups doc = fold (\<lambda>t. assoc_put (jget t (js ''name'')) []) (declared_tags doc) []"

definition push_under :: "op_entry \<Rightarrow> json \<Rightarrow> groups \<Rightarrow> groups" where
  "push_under o' n g = assoc_put n ((case assoc_get g n of None \<Rightarrow> [] | Some os \<Rightarrow> os) @ [o']) g"

definition group_operation :: "(json \<Rightarrow> 32 word) \<Rightarrow> op_entry \<Rightarrow> groups \<Rightarrow> groups option" where
  "group_operation H o' g =
     map_option
       (\<lambda>ns. if length ns < 1 then push_under o' (JStr (js ''default'')) g else fold (push_under o') ns g)
       (js_set H (jget (op_operation o') (js ''tags'')))"

fun group_all :: "(json \<Rightarrow> 32 word) \<Rightarrow> op_entry list \<Rightarrow> groups \<Rightarrow> groups option" where
  "group_all H [] g = Some g"
| "group_all H (o' # os) g = Option.bind (group_operation H o' g) (group_all H os)"

definition operations_with_tags ::
  "(json \<Rightarrow> 32 word) \<Rightarrow> json \<Rightarrow> op_entry list \<Rightarrow> groups option" where
  "operations_with_tags H doc ops = group_all H ops (declared_groups doc)"

text \<open>The stable sort by a comparator; without one the order stays.\<close>

fun insert_by :: "('a \<Rightarrow> 'a \<Rightarrow> int) \<Rightarrow> 'a \<Rightarrow> 'a list \<Rightarrow> 'a list" where
  "insert_by c x [] = [x]"
| "insert_by c x (y # ys) = (if c x y \<le> 0 then x # y # ys else y # insert_by c x ys)"

definition sort_by :: "('a \<Rightarrow> 'a \<Rightarrow> int) option \<Rightarrow> 'a list \<Rightarrow> 'a list" where
  "sort_by c xs = (case c of None \<Rightarrow> xs | Some f \<Rightarrow> foldr (insert_by f) xs [])"

record sorters =
  tags_sorter :: "(json \<Rightarrow> json \<Rightarrow> int) option"
  operations_sorter :: "(op_entry \<Rightarrow> op_entry \<Rightarrow> int) option"

record tag_group =
  tg_tag :: json
  tg_details :: json
  tg_operations :: "op_entry list"

definition sorted_groups :: "sorters \<Rightarrow> json \<Rightarrow> groups \<Rightarrow> tag_group list" where
  "sorted_groups cfg doc g =
     map (\<lambda>(n, os). \<lparr>tg_tag = n, tg_details = tag_details doc n, tg_operations = sort_by (operations_sorter cfg) os\<rparr>)
       (sort_by (map_option (\<lambda>f x y. f (fst x) (fst y)) (tags_sorter cfg)) g)"

definition spec_tagged_operations ::
  "(json \<Rightarrow> 32 word) \<Rightarrow> sorters \<Rightarrow> json \<Rightarrow> json \<Rightarrow> tag_group list option" where
  "spec_tagged_operations H cfg doc merged =
     Option.bind (operations_with_root_inherited H doc (operations (jget merged (js ''paths'')))) (\<lambda>ops.
     map_option (sorted_groups cfg doc) (operations_with_tags H doc ops))"


text \<open>The list of tags on display.  The filter reads a tag as text; tags that are no text are not modelled and
count as failure.\<close>

fun tag_text :: "json \<Rightarrow> jstr option" where
  "tag_text (JStr s) = Some s"
| "tag_text _ = None"

definition displayed_operations ::
  "(json \<Rightarrow> 32 word) \<Rightarrow> sorters \<Rightarrow> json \<Rightarrow> json \<Rightarrow> layout_state \<Rightarrow> int option \<Rightarrow>
   (jstr \<times> tag_group) list option" where
  "displayed_operations H cfg doc merged st mx =
     Option.bind (spec_tagged_operations H cfg doc merged) (\<lambda>gs.
     map_option (\<lambda>ts. tagged_operations (zip ts gs) st mx) (collected (map (\<lambda>g. tag_text (tg_tag g)) gs)))"

section \<open>Facts\<close>

lemma js_set_facts:
  assumes "js_set H v = Some ns"
  obtains vs where "js_values v = Some vs" "set ns = set vs" "distinct ns"
proof -
  obtain vs where vs: "js_values v = Some vs"
    and ns: "ns = map fst (hm_iterate False (hm_run H (map (\<lambda>x. (x, Some True)) vs)))"
    using assms by (auto simp: js_set_def)
  let ?ops = "map (\<lambda>x. (x, Some True)) vs"
  note inv = hm_run_ok(1) [of H ?ops]
  have "fst ` set (hm_iterate False (hm_run H ?ops)) = dom (map_run ?ops)"
    using hm.entries_contents [OF inv, of False] by (metis dom_map_of_conv_image_fst hm_run_ok(2))
  moreover have "dom (fold (\<lambda>(k, ov) a. a(k := ov)) ?ops m) = dom m \<union> set vs" for m
    by (induction vs arbitrary: m) auto
  ultimately show thesis
    using that vs hm.entries_distinct [OF inv, of False] by (simp add: ns map_run_def)
qed

definition tag_values :: "op_entry \<Rightarrow> json list option" where
  "tag_values o' = js_values (jget (op_operation o') (js ''tags''))"

definition in_group :: "json \<Rightarrow> op_entry \<Rightarrow> bool" where
  "in_group k o' =
     (case tag_values o' of
        None \<Rightarrow> False
      | Some vs \<Rightarrow> if vs = [] then k = JStr (js ''default'') else k \<in> set vs)"

definition or_nil :: "'a list option \<Rightarrow> 'a list" where
  "or_nil x = (case x of None \<Rightarrow> [] | Some xs \<Rightarrow> xs)"

lemma push_under_get:
  "assoc_get (push_under o' n g) k = (if k = n then Some (or_nil (assoc_get g n) @ [o']) else assoc_get g k)"
  by (simp add: push_under_def or_nil_def)

lemma push_all_get:
  "distinct ns \<Longrightarrow> assoc_get (fold (push_under o') ns g) k =
     (if k \<in> set ns then Some (or_nil (assoc_get g k) @ [o']) else assoc_get g k)"
  by (induction ns arbitrary: g) (auto simp: push_under_get)

lemma group_operation_get:
  assumes "group_operation H o' g = Some g'"
  shows "assoc_get g' k = (if in_group k o' then Some (or_nil (assoc_get g k) @ [o']) else assoc_get g k)"
proof -
  obtain ns where ns: "js_set H (jget (op_operation o') (js ''tags'')) = Some ns"
    "g' = (if length ns < 1 then push_under o' (JStr (js ''default'')) g else fold (push_under o') ns g)"
    using assms by (auto simp: group_operation_def)
  obtain vs where "tag_values o' = Some vs" "set ns = set vs" "distinct ns"
    using js_set_facts [OF ns(1)] by (auto simp: tag_values_def)
  then show ?thesis
    by (auto simp: ns(2) in_group_def push_under_get push_all_get simp del: js_simps)
qed

lemma group_all_get:
  "group_all H os g = Some g' \<Longrightarrow>
   assoc_get g' k = (if \<exists>o'\<in>set os. in_group k o'
     then Some (or_nil (assoc_get g k) @ filter (in_group k) os) else assoc_get g k)"
proof (induction os arbitrary: g)
  case (Cons o' os)
  then obtain g1 where g1: "group_operation H o' g = Some g1" "group_all H os g1 = Some g'"
    by (auto split: bind_splits)
  show ?case
    using Cons.IH [OF g1(2)] group_operation_get [OF g1(1), of k] by (auto simp: or_nil_def)
qed simp

lemma group_all_None: "group_all H os g = None \<longleftrightarrow> (\<exists>o'\<in>set os. tag_values o' = None)"
  by (induction os arbitrary: g)
    (auto simp: group_operation_def tag_values_def js_set_def split: bind_splits)

lemma declared_groups_get:
  "assoc_get (declared_groups doc) k =
     (if k \<in> (\<lambda>t. jget t (js ''name'')) ` set (declared_tags doc) then Some [] else None)"
proof -
  have "assoc_get (fold (\<lambda>t. assoc_put (jget t (js ''name'')) []) ts g) k =
      (if k \<in> (\<lambda>t. jget t (js ''name'')) ` set ts then Some [] else assoc_get g k)" for ts and g :: groups
    by (induction ts arbitrary: g) (auto simp del: js_simps)
  then show ?thesis
    by (simp add: declared_groups_def assoc_get_def del: js_simps)
qed

lemma grouped_keys:
  "prefix (map fst g) (map fst (assoc_put k v g))"
  by (induction g) auto

lemma group_all_keys:
  "group_all H os g = Some g' \<Longrightarrow> distinct (map fst g) \<Longrightarrow> distinct (map fst g') \<and> prefix (map fst g) (map fst g')"
proof (induction os arbitrary: g)
  case (Cons o' os)
  then obtain g1 where g1: "group_operation H o' g = Some g1" "group_all H os g1 = Some g'"
    by (auto split: bind_splits)
  have p: "distinct (map fst (push_under o' n h)) \<and> prefix (map fst h) (map fst (push_under o' n h))"
    if "distinct (map fst h)" for n h
    using that grouped_keys by (auto simp: push_under_def)
  have "distinct (map fst (fold (push_under o') ns h)) \<and> prefix (map fst h) (map fst (fold (push_under o') ns h))"
    if "distinct (map fst h)" for ns h
    using that
  proof (induction ns arbitrary: h)
    case (Cons n ns)
    then show ?case
      using p [of h n] Cons.IH [of "push_under o' n h"] prefix_order.order_trans by auto
  qed simp
  then have "distinct (map fst g1) \<and> prefix (map fst g) (map fst g1)"
    using g1(1) Cons.prems(2) p by (auto simp: group_operation_def split: if_splits)
  then show ?case
    using Cons.IH [OF g1(2)] prefix_order.order_trans by blast
qed simp


lemma groups_ok:
  assumes "operations_with_tags H doc ops = Some g"
  shows "distinct (map fst g)" and "prefix (map fst (declared_groups doc)) (map fst g)"
    and "assoc_get g k =
      (if k \<in> (\<lambda>t. jget t (js ''name'')) ` set (declared_tags doc) \<or> (\<exists>o'\<in>set ops. in_group k o')
       then Some (filter (in_group k) ops) else None)"
proof -
  have g: "group_all H ops (declared_groups doc) = Some g"
    using assms by (simp add: operations_with_tags_def)
  have "distinct (map fst (fold (\<lambda>t. assoc_put (jget t (js ''name'')) []) ts h))"
    if "distinct (map fst h)" for ts and h :: groups
    using that by (induction ts arbitrary: h) (auto simp del: js_simps)
  then have "distinct (map fst (declared_groups doc))"
    by (simp add: declared_groups_def del: js_simps)
  then show "distinct (map fst g)" "prefix (map fst (declared_groups doc)) (map fst g)"
    using group_all_keys [OF g] by blast+
  show "assoc_get g k =
      (if k \<in> (\<lambda>t. jget t (js ''name'')) ` set (declared_tags doc) \<or> (\<exists>o'\<in>set ops. in_group k o')
       then Some (filter (in_group k) ops) else None)"
    using group_all_get [OF g, of k] declared_groups_get [of doc k]
    by (auto simp: or_nil_def filter_empty_conv simp del: js_simps)
qed


lemma insert_by_set: "mset (insert_by c x xs) = add_mset x (mset xs)"
  by (induction xs) auto

lemma sort_by_mset: "mset (sort_by c xs) = mset xs"
proof -
  have "mset (foldr (insert_by f) xs []) = mset xs" for f
    by (induction xs) (simp_all add: insert_by_set)
  then show ?thesis
    by (simp add: sort_by_def split: option.splits)
qed

lemma sort_by_set [simp]: "set (sort_by c xs) = set xs"
  using sort_by_mset by (rule mset_eq_setD)

lemma collected_set: "collected (map f xs) = Some ys \<Longrightarrow> map Some ys = map f xs"
proof (induction xs arbitrary: ys)
  case (Cons x xs)
  then show ?case
    by (cases "f x") auto
qed simp

lemma collected_list_all2: "collected (map f xs) = Some ys \<Longrightarrow> list_all2 (\<lambda>x y. f x = Some y) xs ys"
proof (induction xs arbitrary: ys)
  case (Cons x xs)
  then show ?case
    by (cases "f x") auto
qed simp

lemma inherit_field_get:
  assumes "inherit_field k t e = Some e'" "is_map e"
  shows "is_map e'" "k' \<noteq> k \<Longrightarrow> jget e' k' = jget e k'"
  using assms by (auto simp: inherit_field_def jset_def jget_def is_map_def split: if_splits json.splits)

lemma inherited_tags:
  assumes "inherited_operation t n e = Some e'"
  shows "jget e' (js ''tags'') = jget e (js ''tags'')"
proof (cases "truthy e \<and> is_map e")
  case True
  then obtain e1 where e1: "inherit_field (js ''consumes'') t e = Some e1" "inherit_field (js ''produces'') n e1 = Some e'"
    using assms by (auto simp: inherited_operation_def split: bind_splits)
  have "js ''tags'' \<noteq> js ''consumes''" "js ''tags'' \<noteq> js ''produces''"
    by (simp_all del: js_simps)
  then show ?thesis
    using inherit_field_get [OF e1(1)] inherit_field_get(2) [OF e1(2), of "js ''tags''"] True by simp
next
  case False
  with assms show ?thesis
    by (cases e) (auto simp: inherited_operation_def is_map_def jget_def split: if_splits)
qed

definition inherits_from :: "op_entry \<Rightarrow> op_entry \<Rightarrow> bool" where
  "inherits_from o' i \<longleftrightarrow>
     op_path i = op_path o' \<and> op_method i = op_method o' \<and> (\<forall>k. in_group k i = in_group k o')"

lemma inherits_update:
  assumes "inherited_operation t n (op_operation o') = Some e"
  shows "inherits_from o' (o'\<lparr>op_operation := e\<rparr>)"
  using inherited_tags [OF assms] by (simp add: inherits_from_def in_group_def tag_values_def del: js_simps)

lemma inherited_operations:
  assumes "operations_with_root_inherited H doc ops = Some inh"
  shows "list_all2 inherits_from ops inh"
proof -
  obtain t n where "collected (map (\<lambda>o'. map_option (\<lambda>e. o'\<lparr>op_operation := e\<rparr>)
      (inherited_operation t n (op_operation o'))) ops) = Some inh"
    using assms by (auto simp: operations_with_root_inherited_def split: bind_splits)
  from collected_list_all2 [OF this] show ?thesis
    by (rule list_all2_mono) (auto intro: inherits_update)
qed

lemma inherited_match:
  assumes "list_all2 inherits_from ops inh"
  shows "(\<exists>i\<in>set inh. op_path i = n \<and> op_method i = m \<and> in_group k i) \<longleftrightarrow>
    (\<exists>o'\<in>set ops. op_path o' = n \<and> op_method o' = m \<and> in_group k o')"
  using assms by (induction rule: list_all2_induct) (auto simp: inherits_from_def)

lemma tagged_operations_text:
  "(\<exists>d\<in>set (tagged_operations (zip ts gs) st None). fst d = t \<and> P (snd d)) \<longleftrightarrow>
   tag_kept st (t, x) \<and> (\<exists>d\<in>set (zip ts gs). fst d = t \<and> P (snd d))"
proof -
  have "tag_kept st d = tag_kept st (fst d, x)" for d :: "jstr \<times> 'a"
    by (simp only: tag_kept_def fst_conv)
  then show ?thesis
    by (force simp: tagged_operations_spec)
qed

lemma tagged_groups:
  assumes "spec_tagged_operations H cfg doc merged = Some gs"
  shows "(\<exists>g\<in>set gs. tg_tag g = k \<and> (\<exists>o'\<in>set (tg_operations g). op_path o' = n \<and> op_method o' = m)) \<longleftrightarrow>
    (\<exists>o'\<in>set (operations (jget merged (js ''paths''))). op_path o' = n \<and> op_method o' = m \<and> in_group k o')"
proof -
  define ops where "ops = operations (jget merged (js ''paths''))"
  obtain inh g where inh: "operations_with_root_inherited H doc ops = Some inh"
    and g: "operations_with_tags H doc inh = Some g" and gs: "gs = sorted_groups cfg doc g"
    using assms by (auto simp: spec_tagged_operations_def ops_def split: bind_splits)
  have mem: "(k, os) \<in> set g \<longleftrightarrow> assoc_get g k = Some os" for os
    using groups_ok(1) [OF g] by (simp add: assoc_get_def)
  have "(\<exists>g\<in>set gs. tg_tag g = k \<and> (\<exists>o'\<in>set (tg_operations g). P o')) \<longleftrightarrow>
      (\<exists>os. (k, os) \<in> set g \<and> (\<exists>o'\<in>set os. P o'))" for P
    by (force simp: gs sorted_groups_def)
  then have "(\<exists>g\<in>set gs. tg_tag g = k \<and> (\<exists>o'\<in>set (tg_operations g). op_path o' = n \<and> op_method o' = m)) \<longleftrightarrow>
      (\<exists>i\<in>set inh. op_path i = n \<and> op_method i = m \<and> in_group k i)"
    by (auto simp: mem groups_ok(3) [OF g] simp del: js_simps)
  then show ?thesis
    using inherited_match [OF inherited_operations [OF inh]] by (simp add: ops_def del: js_simps)
qed

lemma zip_tags:
  assumes "collected (map (\<lambda>g. tag_text (tg_tag g)) gs) = Some ts"
  shows "(\<exists>d\<in>set (zip ts gs). fst d = t \<and> P (snd d)) \<longleftrightarrow> (\<exists>g\<in>set gs. tg_tag g = JStr t \<and> P g)"
  using collected_set [OF assms]
proof (induction gs arbitrary: ts)
  case (Cons g gs)
  then obtain t' ts' where ts: "ts = t' # ts'" "tag_text (tg_tag g) = Some t'" "map Some ts' = map (\<lambda>g. tag_text (tg_tag g)) gs"
    by (cases ts) auto
  then have "tg_tag g = JStr t'"
    by (cases "tg_tag g") auto
  with Cons.IH [OF ts(3)] show ?case
    by (auto simp: ts(1))
qed simp

text \<open>C13: If the tags can be shown at all and their number is not limited, an operation of the console is on
display under a tag exactly when the document has it at that path and method, with that tag or, under
default, without tags, and the text of the filter occurs in the tag.\<close>

theorem displayed_exactly:
  assumes "displayed_operations H cfg doc merged st None = Some ds"
  shows "(\<exists>d\<in>set ds. fst d = t \<and> (\<exists>o'\<in>set (tg_operations (snd d)). op_path o' = n \<and> op_method o' = m)) \<longleftrightarrow>
    tag_kept st (t, ()) \<and>
    (\<exists>o'\<in>set (operations (jget merged (js ''paths''))). op_path o' = n \<and> op_method o' = m \<and> in_group (JStr t) o')"
proof -
  obtain gs ts where gs: "spec_tagged_operations H cfg doc merged = Some gs"
    and ts: "collected (map (\<lambda>g. tag_text (tg_tag g)) gs) = Some ts" "ds = tagged_operations (zip ts gs) st None"
    using assms by (auto simp: displayed_operations_def split: bind_splits)
  let ?P = "\<lambda>g. \<exists>o'\<in>set (tg_operations g). op_path o' = n \<and> op_method o' = m"
  show ?thesis
    using tagged_operations_text [of ts gs st t ?P "()"] zip_tags [OF ts(1), of t ?P] tagged_groups [OF gs, of "JStr t" n m]
    by (simp only: ts(2))
qed


section \<open>An example\<close>

definition example_doc :: json where
  "example_doc = JObj [(js ''tags'', JArr [JObj [(js ''name'', jkey ''pets'')]]),
     (js ''paths'', JObj [(js ''/a'', JObj
        [(js ''get'', JObj [(js ''tags'', JArr [jkey ''pets'', jkey ''shop''])]), (js ''parameters'', JArr []),
         (js ''put'', JObj [])])])]"

definition example_layout :: layout_state where
  "example_layout = \<lparr>ly_layout = JUndef, ly_filter = FText (js ''e''), ly_shown = [], ly_modes = None, ly_scroll = None\<rparr>"

definition no_sorters :: sorters where
  "no_sorters = \<lparr>tags_sorter = None, operations_sorter = None\<rparr>"

text \<open>The tags of the example contain the filter except one.\<close>

lemma example_displayed:
  "map_option (map fst) (displayed_operations (\<lambda>_. 0) no_sorters example_doc example_doc example_layout None) =
   Some [js ''pets'', js ''default'']"
  by code_simp

theorem displayed_exactly_witness:
  "\<exists>ds. displayed_operations (\<lambda>_. 0) no_sorters example_doc example_doc example_layout None = Some ds \<and>
     (\<exists>d\<in>set ds. fst d = js ''default'' \<and>
        (\<exists>o'\<in>set (tg_operations (snd d)). op_path o' = jkey ''/a'' \<and> op_method o' = js ''put''))"
proof -
  obtain ds where ds: "displayed_operations (\<lambda>_. 0) no_sorters example_doc example_doc example_layout None = Some ds"
    using example_displayed by auto
  have "tag_kept example_layout (js ''default'', ()) \<and>
    (\<exists>o'\<in>set (operations (jget example_doc (js ''paths''))).
       op_path o' = jkey ''/a'' \<and> op_method o' = js ''put'' \<and> in_group (JStr (js ''default'')) o')"
    by code_simp
  then show ?thesis
    using displayed_exactly [OF ds, of "js ''default''" "jkey ''/a''" "js ''put''"] ds by blast
qed


section \<open>Content types and schemes\<close>

fun jget_in :: "json list \<Rightarrow> json \<Rightarrow> json \<Rightarrow> json" where
  "jget_in [] d e = e"
| "jget_in (k # ks) d e =
     (case (e, k) of
        (JObj m, JStr s) \<Rightarrow> (case assoc_get m s of None \<Rightarrow> d | Some v \<Rightarrow> jget_in ks d v)
      | (JArr vs, JNum i) \<Rightarrow> if 0 \<le> i \<and> nat i < length vs then jget_in ks d (vs ! nat i) else d
      | _ \<Rightarrow> d)"

definition or_json :: "json \<Rightarrow> json \<Rightarrow> json" where
  "or_json a b = (if truthy a then a else b)"

definition is_collection :: "json \<Rightarrow> bool" where
  "is_collection e = (case e of JObj _ \<Rightarrow> True | JArr _ \<Rightarrow> True | _ \<Rightarrow> False)"

definition current_produces_for :: "json \<Rightarrow> json \<Rightarrow> json list \<Rightarrow> json option" where
  "current_produces_for merged meta t =
     (let a = jget_in (jkey ''paths'' # t) JNull merged in
      if a = JNull then Some JUndef
      else if is_collection a
      then Some (or_json (jget_in (jkey ''paths'' # t @ [jkey ''produces_value'']) JNull meta)
             (or_json (jget_in [jkey ''produces'', JNum 0] JNull a) (JStr (js ''application/json''))))
      else None)"

definition options_for :: "string \<Rightarrow> json \<Rightarrow> json list \<Rightarrow> json option" where
  "options_for field merged t =
     (let o' = jget_in (jkey ''paths'' # t) JNull merged in
      if o' = JNull then Some JUndef
      else if is_collection o'
      then Some (or_json (jget_in [jkey field] JNull o')
             (or_json (jget_in [jkey ''paths'', (case t of [] \<Rightarrow> JUndef | u # _ \<Rightarrow> u), jkey field] JNull merged)
                (jget_in [jkey field] JNull merged)))
      else None)"

definition produces_options_for :: "json \<Rightarrow> json list \<Rightarrow> json option" where
  "produces_options_for = options_for ''produces''"

definition consumes_options_for :: "json \<Rightarrow> json list \<Rightarrow> json option" where
  "consumes_options_for = options_for ''consumes''"

definition parameters_include :: "string \<Rightarrow> json \<Rightarrow> jstr \<Rightarrow> bool" where
  "parameters_include field ps v =
     (case ps of JArr vs \<Rightarrow> list_ex (\<lambda>p. is_map p \<and> jget p (js field) = JStr v) vs | _ \<Rightarrow> False)"

definition request_content_type :: "json \<Rightarrow> json \<Rightarrow> json" where
  "request_content_type op meta_op =
     (let u = or_json (jget op (js ''parameters'')) (JArr []) in
      if truthy (jget meta_op (js ''consumes_value'')) then jget meta_op (js ''consumes_value'')
      else if parameters_include ''type'' u (js ''file'') then JStr (js ''multipart/form-data'')
      else if parameters_include ''type'' u (js ''formData'') then JStr (js ''application/x-www-form-urlencoded'')
      else JUndef)"

text \<open>The selector asks for a parameter of the type formData, which is a place of parameters and no type: unless
the user has chosen one, form parameters of any other type are sent without a content type.\<close>

theorem form_without_content_type:
  assumes "jget op (js ''parameters'') = JArr ps" "\<not> truthy (jget meta_op (js ''consumes_value''))"
    and "\<forall>p\<in>set ps. jget p (js ''type'') \<noteq> jkey ''file'' \<and> jget p (js ''type'') \<noteq> jkey ''formData''"
  shows "request_content_type op meta_op = JUndef"
  using assms
  by (auto simp: request_content_type_def or_json_def parameters_include_def jkey_def list_ex_iff Let_def
      simp del: js_simps)

text \<open>The scheme of a URL: letters, digits, plus, minus and dot after a lower-case letter, up to a colon.\<close>

definition lower_letter :: "jchar \<Rightarrow> bool" where
  "lower_letter c \<longleftrightarrow> 97 \<le> c \<and> c \<le> 122"

definition url_scheme_char :: "jchar \<Rightarrow> bool" where
  "url_scheme_char c \<longleftrightarrow> lower_letter c \<or> js_digit c \<or> c \<in> {43, 45, 46}"

definition url_scheme :: "jstr \<Rightarrow> jstr option" where
  "url_scheme url =
     (case url of
        [] \<Rightarrow> None
      | c # cs \<Rightarrow>
          if lower_letter c \<and> dropWhile url_scheme_char cs \<noteq> [] \<and> hd (dropWhile url_scheme_char cs) = 58
          then Some (c # takeWhile url_scheme_char cs) else None)"

definition operation_scheme :: "jstr \<Rightarrow> json \<Rightarrow> json list \<Rightarrow> json" where
  "operation_scheme url schemes t =
     or_json (jget_in t JUndef schemes)
       (or_json (jget schemes (js ''_defaultScheme''))
          (case url_scheme url of None \<Rightarrow> JStr [] | Some s \<Rightarrow> JStr s))"

definition can_execute_scheme :: "jstr \<Rightarrow> json \<Rightarrow> json list \<Rightarrow> bool" where
  "can_execute_scheme url schemes t \<longleftrightarrow> operation_scheme url schemes t \<in> {jkey ''http'', jkey ''https''}"

text \<open>Without a chosen scheme a document loaded over http or https can be executed and a document loaded over
any other scheme cannot.\<close>

theorem executable_without_choice:
  assumes "lower_letter c" "list_all url_scheme_char cs"
  shows "can_execute_scheme (c # cs @ 58 # rest) (JObj []) [n, m] \<longleftrightarrow> c # cs \<in> {js ''http'', js ''https''}"
proof -
  have "\<not> url_scheme_char 58"
    by (simp add: url_scheme_char_def lower_letter_def js_digit_def)
  then have "dropWhile url_scheme_char (cs @ 58 # rest) = 58 # rest" "takeWhile url_scheme_char (cs @ 58 # rest) = cs"
    using assms(2) by (induction cs) auto
  moreover have "\<not> url_scheme_char 58"
    by (simp add: url_scheme_char_def lower_letter_def js_digit_def)
  ultimately have "url_scheme (c # cs @ 58 # rest) = Some (c # cs)"
    using assms(1) by (simp add: url_scheme_def)
  moreover have "jget_in [n, m] JUndef (JObj []) = JUndef"
    by (cases n) (simp_all add: assoc_get_def)
  ultimately show ?thesis
    by (simp add: can_execute_scheme_def operation_scheme_def or_json_def jget_def assoc_get_def jkey_def del: js_simps)
qed

end
