(* ===== verification/Spec2Isabelle.thy ===== *)
theory Spec2Isabelle
  imports Path_Info Props Access Login Console_Layout String_Hash Deep_Linking Sanitize_Url Topbar
    Value_Validation Auth_Store Err_Store Plugin_Runtime Spec_Params
    Spec_Operations
begin

text \<open>
  A model of appNG, a platform that serves the sites and applications of several tenants, and of the API
  console it ships.  The server is Java (\<^verbatim>\<open>appng-api\<close>,
  \<^verbatim>\<open>appng-core\<close>); the console is JavaScript, five bundles under
  \<^verbatim>\<open>appng-rest-api/src/main/resources/org/appng/api/rest/swagger-ui\<close> whose code
  stands on their second line.

  \<^bold>\<open>Conventions.\<close>  A class or the state of a component is a record, an enumeration a
  datatype, a method or function a definition with the name of the source.  A reference that may be null
  is an option.  Exceptions are values: \<open>java_exn + 'a\<close> in the Java theories,
  \<open>'a option\<close> with \<open>None\<close> for a thrown error in the JavaScript theories.  Code that
  changes the containers of the server is a function from the world to a result and a world
  (\<open>'a op\<close>, composed with \<open>bind_op\<close>); the console's reducers return the new state.  A Java int is wrapped with
  \<open>int32\<close> wherever it is computed with; JavaScript strings are lists of 16-bit words.

  \<^bold>\<open>The server.\<close>  A request enters with its path, which \<open>Path_Info\<close>
  (\<^verbatim>\<open>PathInfo.java\<close>) takes apart: URLs of the manager and of services are
  read back into the parts they were built from, the constructor fails for exactly one shape of path.
  \<open>Site_Lookup\<close> (\<^verbatim>\<open>RequestUtil.java\<close>) finds the site of a
  request by host or name and waits for a site that is starting; the wait is bounded except for an
  interrupted thread.  \<open>Sites\<close> holds the site (\<^verbatim>\<open>SiteImpl.java\<close>),
  \<open>Props\<close> the typed properties of platform, sites and applications
  (\<^verbatim>\<open>SimpleProperty\<close>, \<^verbatim>\<open>PropertyHolder\<close>).
  \<open>Access\<close> models subjects, groups, roles and permissions
  (\<^verbatim>\<open>SubjectImpl\<close>, \<^verbatim>\<open>RoleImpl\<close>,
  \<^verbatim>\<open>DefaultPermissionProcessor\<close>): what grants a permission, which applications
  a subject has, when a field may be written.  \<open>Environment\<close> models the containers of the
  four scopes (\<^verbatim>\<open>support/environment\<close>); its locale
  \<open>scoped_store\<close> is the contract of one scope and is interpreted on the definitions as
  \<open>scope\<close>.  \<open>Session_Lifecycle\<close> is \<^verbatim>\<open>DefaultEnvironment\<close>:
  creating an environment, logging a subject in and out, renewing the session.  \<open>Login\<close> is the
  authentication of \<^verbatim>\<open>CoreService\<close> with the lock after failed logins (a transition
  relation over attempts), digest logins (\<^verbatim>\<open>DigestValidator\<close>) and the reset of
  passwords.

  \<^bold>\<open>The console.\<close>  \<open>Keyed_Tree\<close>, \<open>Ordered_Map\<close> and
  \<open>String_Hash\<close> model the immutable collections in
  \<^verbatim>\<open>swagger-ui-es-bundle.js\<close>: update and read by path, the insertion-ordered map, which refines
  an association list for every sequence of operations and keeps its list within a linear bound (locale
  \<open>ordered_store\<close>, interpretation \<open>om\<close>), and string hashes with their
  cache.  \<open>Hash_Trie\<close> is the unordered map below them, a hash array mapped trie;
  \<open>Bit_Count\<close> shows that its bit tricks count bits, \<open>Trie_Slots\<close> that its
  compressed nodes represent 32 slots, \<open>Trie_Update\<close> that updates keep the invariant of the trie and
  \<open>Hash_Map\<close> that the map refines a mathematical map for every hash function (locale
  \<open>keyed_store\<close>, interpretation \<open>hm\<close>), that its stack iterator agrees with the recursive
  iteration, and which hash makes the merge of two leaves loop.
  \<open>Console_Layout\<close> (same file) is the layout plugin.
  \<open>Uri_Component\<close> is \<^verbatim>\<open>encodeURIComponent\<close> and its inverse over UTF-16
  and UTF-8.  \<open>Deep_Linking\<close> (\<^verbatim>\<open>swagger-ui-es-bundle-core.js\<close>) writes what
  is opened into the hash of the page and opens what a hash names.  \<open>Sanitize_Url\<close> and
  \<open>Topbar\<close> (\<^verbatim>\<open>swagger-ui-standalone-preset.js\<close>) are the sanitizer of
  addresses and the bar in which a definition is chosen (events as a step relation, facts for all reachable
  states).  \<open>Value_Validation\<close> (\<^verbatim>\<open>swagger-ui.js\<close>) checks the parameters
  of a request against their schemas; \<open>Spec_Params\<close> (same file) keeps what is entered for the
parameters of an operation and executes a request only when all are accepted; \<open>Spec_Operations\<close>
  (same file) lists the operations of a document by tag: what is on display is exactly what the document has
  under the tags the filter admits.  \<open>Base64\<close>, \<open>Auth_Store\<close> and
  \<open>Err_Store\<close> (\<^verbatim>\<open>swagger-ui-bundle.js\<close>) are the byte coders, the
  authorizations with their copy in the browser's storage, and the list of errors.  \<open>Redux_Store\<close>
(\<^verbatim>\<open>swagger-ui-es-bundle.js\<close>) is the store with dispatch and combined reducers;
\<open>Plugin_System\<close> (\<^verbatim>\<open>swagger-ui-es-bundle-core.js\<close>) merges plugins into
the system and wraps their actions, selectors and components, and \<open>Plugin_Runtime\<close> composes the
two with the error plugin: domains evolve independently, wrappers are applied in the order of registration,
errors of action creators end up in the list of errors.

  \<^bold>\<open>Termination.\<close>  Loops are structural recursion or functions with a measure; the wait for a
  site is a \<open>partial_function\<close> whose return is a theorem of its own, and so is the merge of two
  hashes that need not be numbers.  No fuel is used.

  \<^bold>\<open>Parameters.\<close>  What is not under src/ is an argument: BCrypt, MD5, LDAP and the
  existence of files on the server; the platform's date parsing, regular expressions of schemas, JSON
  and number formatting, the sort by line numbers in the console.

  \<^bold>\<open>Not modelled.\<close>  The persistence layer, installation of packages, service loading, XML
  processing and templates, messaging, search, the tag libraries, the command line and the build are
  databases, files, class loaders or generated code around the modelled parts.  Of the bundles, React,
  parsers and visual components are third-party or DOM code.  Numbers of the console are exact:
  integers and rationals instead of doubles.
\<close>

end
